(* ===== verification/Prelude.thy ===== *)
theory Prelude
  imports
    Main
    "HOL-Library.Word"
    "HOL-Library.Multiset"
    "HOL-Library.Monad_Syntax"
begin

text \<open>
  Shared material of the development: the named collections that the component
  theories feed, index loops with a stride (the way the coordinator and the Merkle
  tree hand work to their threads), interleavings of the atomic operations of
  several threads, and the contract of a keyed reservation table.

  A failed \<^verbatim>\<open>CHECK\<close> of the C++ code aborts the process. Definitions whose source
  contains such a check return an \<open>option\<close> and \<^const>\<open>None\<close> is that abort.
  \<^verbatim>\<open>DCHECK\<close> is compiled out of the release build the repository documents and is
  not part of the model.
\<close>

named_theorems cc_simps \<open>unfolding rules of the concurrency-control components\<close>
named_theorems order_simps \<open>unfolding rules of the block-ordering components\<close>

section \<open>Lists\<close>

lemma list_update_map_nth:
  assumes "i < length xs"
  shows "(map f xs)[i := f (xs ! i)] = map f xs"
  using assms by (metis length_map list_update_id nth_map)

lemma fold_invariant_simple:
  assumes "P s" and "\<And>x s. x \<in> set xs \<Longrightarrow> P s \<Longrightarrow> P (f x s)"
  shows "P (fold f xs s)"
  using assms by (induction xs arbitrary: s) auto

lemma filter_eq_single:
  assumes "distinct xs" and "x \<in> set xs" and "\<And>y. y \<in> set xs \<Longrightarrow> P y \<longleftrightarrow> y = x"
  shows "filter P xs = [x]"
  using assms
proof (induction xs)
  case Nil
  then show ?case by simp
next
  case (Cons a xs)
  show ?case
  proof (cases "a = x")
    case True
    with Cons.prems have "filter P xs = []"
      by (auto simp: filter_empty_conv)
    with True Cons.prems show ?thesis by simp
  next
    case False
    with Cons show ?thesis by simp
  qed
qed

lemma mset_concat_map: "mset (concat (map f xs)) = sum_mset (image_mset (\<lambda>x. mset (f x)) (mset xs))"
  by (induction xs) auto

lemma mset_concat_map_cong: "mset xs = mset ys \<Longrightarrow> mset (concat (map f xs)) = mset (concat (map f ys))"
  by (simp add: mset_concat_map)

section \<open>Index loops with a stride\<close>

text \<open>
  The indices visited by \<^verbatim>\<open>for (int i = start; i < n; i += step)\<close>. A step of zero
  would not terminate; the callers use the number of workers, which is positive
  wherever a worker exists, and the guard makes the function total.
\<close>

function stride :: "nat \<Rightarrow> nat \<Rightarrow> nat \<Rightarrow> nat list" where
  "stride step i n = (if 0 < step \<and> i < n then i # stride step (i + step) n else [])"
  by pat_completeness auto
termination
  by (relation "measure (\<lambda>(step, i, n). n - i)") auto

declare stride.simps [simp del]

lemma set_stride_step:
  assumes "0 < step" and "(i::nat) < n"
  shows "{j. i \<le> j \<and> j < n \<and> j mod step = i mod step}
    = insert i {j. i + step \<le> j \<and> j < n \<and> j mod step = (i + step) mod step}"
proof (intro set_eqI iffI)
  fix j assume j: "j \<in> {j. i \<le> j \<and> j < n \<and> j mod step = i mod step}"
  show "j \<in> insert i {j. i + step \<le> j \<and> j < n \<and> j mod step = (i + step) mod step}"
  proof (cases "j = i")
    case False
    with j have "i < j" and "step dvd j - i"
      by (auto simp: mod_eq_dvd_iff_nat)
    then have "step \<le> j - i" by (simp add: dvd_imp_le)
    with j \<open>i < j\<close> show ?thesis by auto
  qed simp
qed (use assms in auto)

lemma set_stride:
  assumes "0 < step"
  shows "set (stride step i n) = {j. i \<le> j \<and> j < n \<and> j mod step = i mod step}"
  using assms
proof (induction step i n rule: stride.induct)
  case (1 step i n)
  show ?case
  proof (cases "i < n")
    case True
    with 1 show ?thesis
      by (subst stride.simps) (simp add: set_stride_step)
  next
    case False
    then show ?thesis by (subst stride.simps) auto
  qed
qed

lemma sorted_stride: "sorted_wrt (<) (stride step i n)"
proof (induction step i n rule: stride.induct)
  case (1 step i n)
  show ?case
  proof (cases "0 < step \<and> i < n")
    case True
    then have "\<forall>j \<in> set (stride step (i + step) n). i < j"
      by (auto simp: set_stride)
    with True "1.IH" show ?thesis by (subst stride.simps) simp
  next
    case False
    then show ?thesis by (subst stride.simps) auto
  qed
qed

lemma stride_filter:
  assumes "w < step"
  shows "stride step w n = filter (\<lambda>j. j mod step = w) [0..<n]"
proof (rule strict_sorted_equal)
  show "sorted_wrt (<) (stride step w n)" by (rule sorted_stride)
  show "sorted_wrt (<) (filter (\<lambda>j. j mod step = w) [0..<n])"
    by (simp add: sorted_wrt_filter)
  have "w \<le> j" if "j mod step = w" for j
    using that by (metis mod_less_eq_dividend)
  with assms show "set (stride step w n) = set (filter (\<lambda>j. j mod step = w) [0..<n])"
    by (auto simp: set_stride)
qed

end
