(* ===== verification/Proto.thy ===== *)
theory Proto
  imports Prelude
begin

text \<open>
  The messages the components exchange, from \<^verbatim>\<open>include/proto\<close>: key-value pairs and
  read-write sets (\<^verbatim>\<open>read_write_set.h\<close>), user requests and envelopes
  (\<^verbatim>\<open>user_request.h\<close>), transactions and the comparison of their identifiers
  (\<^verbatim>\<open>transaction.h\<close>). Strings are byte strings. A \<^verbatim>\<open>string_view\<close> member that caches
  the string member beside it is the same field of the model. The decoding of a
  payload (third-party code, \<^verbatim>\<open>zpp::bits\<close>) is an argument of the functions that use it.
\<close>

section \<open>Transaction identifiers\<close>

text \<open>
  \<^verbatim>\<open>tid_type\<close> is \<^verbatim>\<open>std::array<uint8_t, 64>\<close>, the ED25519 signature of the request.
  \<^verbatim>\<open>memcmp\<close> compares the first \<open>n\<close> bytes as unsigned values; the arrays have the same
  length, so the cases of exhausted arrays do not arise in the code.
\<close>

definition digest_len :: nat where
  "digest_len = 64"

typedef tid_type = "{bs :: 8 word list. length bs = digest_len}"
  by (rule exI[of _ "replicate digest_len 0"]) simp

fun memcmp :: "8 word list \<Rightarrow> 8 word list \<Rightarrow> nat \<Rightarrow> int" where
  "memcmp (a # as) (b # bs) (Suc n) =
     (if a = b then memcmp as bs n else if a < b then -1 else 1)"
| "memcmp _ _ _ = 0"

definition CompareTID :: "tid_type \<Rightarrow> tid_type \<Rightarrow> int" where
  "CompareTID lhs rhs =
     memcmp (Rep_tid_type lhs) (Rep_tid_type rhs) (length (Rep_tid_type lhs))"

text \<open>A short identifier for examples: 63 zero bytes and the given last byte.\<close>

definition tid_byte :: "8 word \<Rightarrow> tid_type" where
  "tid_byte b = Abs_tid_type (replicate 63 0 @ [b])"

lemma length_Rep_tid [simp]: "length (Rep_tid_type t) = digest_len"
  using Rep_tid_type[of t] by simp

lemma Rep_tid_byte: "Rep_tid_type (tid_byte b) = replicate 63 0 @ [b]"
  unfolding tid_byte_def by (rule Abs_tid_type_inverse) (simp add: digest_len_def)

lemma memcmp_refl [simp]: "memcmp as as n = 0"
proof (induction n arbitrary: as)
  case (Suc n)
  then show ?case by (cases as) simp_all
qed simp

lemma memcmp_zero_eq:
  "length as = length bs \<Longrightarrow> memcmp as bs (length as) = 0 \<longleftrightarrow> as = bs"
  by (induction as bs rule: list_induct2) auto

lemma memcmp_swap:
  "length as = length bs \<Longrightarrow> memcmp bs as (length bs) = - memcmp as bs (length as)"
  by (induction as bs rule: list_induct2) auto

lemma memcmp_less_trans:
  "length as = length bs \<Longrightarrow> length bs = length cs \<Longrightarrow>
     memcmp as bs (length as) \<le> 0 \<Longrightarrow> memcmp bs cs (length bs) \<le> 0 \<Longrightarrow>
     memcmp as cs (length as) \<le> 0"
  by (induction as bs cs rule: list_induct3) (auto split: if_splits)

lemma memcmp_append_same:
  "length ps = n \<Longrightarrow> memcmp (ps @ as) (ps @ bs) (n + m) = memcmp as bs m"
  by (induction ps arbitrary: n) auto

text \<open>The comparison is a linear order on identifiers.\<close>

instantiation tid_type :: linorder
begin

definition less_eq_tid_type :: "tid_type \<Rightarrow> tid_type \<Rightarrow> bool" where
  "less_eq_tid_type a b \<longleftrightarrow> CompareTID a b \<le> 0"

definition less_tid_type :: "tid_type \<Rightarrow> tid_type \<Rightarrow> bool" where
  "less_tid_type a b \<longleftrightarrow> CompareTID a b < 0"

instance
proof
  fix x y z :: tid_type
  have swap: "CompareTID y x = - CompareTID x y"
    unfolding CompareTID_def by (rule memcmp_swap) simp
  have zero: "CompareTID x y = 0 \<Longrightarrow> x = y"
    using memcmp_zero_eq[of "Rep_tid_type x" "Rep_tid_type y"]
    by (simp add: CompareTID_def Rep_tid_type_inject)
  show "x < y \<longleftrightarrow> x \<le> y \<and> \<not> y \<le> x"
    using swap by (auto simp: less_eq_tid_type_def less_tid_type_def)
  show "x \<le> x"
    by (simp add: less_eq_tid_type_def CompareTID_def)
  show "x \<le> y \<Longrightarrow> y \<le> z \<Longrightarrow> x \<le> z"
    using memcmp_less_trans[of "Rep_tid_type x" "Rep_tid_type y" "Rep_tid_type z"]
    by (simp add: less_eq_tid_type_def CompareTID_def)
  show "x \<le> y \<Longrightarrow> y \<le> x \<Longrightarrow> x = y"
    using swap zero by (auto simp: less_eq_tid_type_def)
  show "x \<le> y \<or> y \<le> x"
    using swap by (auto simp: less_eq_tid_type_def)
qed

end

text \<open>Identifiers are compared and, in examples, evaluated through their bytes.\<close>

setup_lifting type_definition_tid_type

declare Rep_tid_byte [code abstract]

instantiation tid_type :: equal
begin

definition equal_tid_type :: "tid_type \<Rightarrow> tid_type \<Rightarrow> bool" where
  "equal_tid_type a b \<longleftrightarrow> Rep_tid_type a = Rep_tid_type b"

instance
  by standard (simp add: equal_tid_type_def Rep_tid_type_inject)

end

lemma CompareTID_le [cc_simps]: "CompareTID a b \<le> 0 \<longleftrightarrow> a \<le> b"
  by (simp add: less_eq_tid_type_def)

lemma CompareTID_less [cc_simps]: "CompareTID a b < 0 \<longleftrightarrow> a < b"
  by (simp add: less_tid_type_def)

lemma CompareTID_ge [cc_simps]: "0 \<le> CompareTID a b \<longleftrightarrow> b \<le> a"
  by (metis CompareTID_less not_less)

lemma CompareTID_eq [cc_simps]: "CompareTID a b = 0 \<longleftrightarrow> a = b"
  by (metis CompareTID_ge CompareTID_le antisym order_refl)

lemma CompareTID_tid_byte:
  "CompareTID (tid_byte a) (tid_byte b) = (if a = b then 0 else if a < b then -1 else 1)"
  using memcmp_append_same[of "replicate 63 0" 63 "[a]" "[b]" 1]
  by (simp add: CompareTID_def Rep_tid_byte digest_len_def)

lemma tid_byte_eq [simp]: "tid_byte a = tid_byte b \<longleftrightarrow> a = b"
  by (metis Rep_tid_byte append1_eq_conv)

lemma tid_byte_less [simp]: "tid_byte a < tid_byte b \<longleftrightarrow> a < b"
  by (simp add: less_tid_type_def CompareTID_tid_byte)

lemma tid_byte_le [simp]: "tid_byte a \<le> tid_byte b \<longleftrightarrow> a \<le> b"
  using tid_byte_less[of b a] by (simp add: not_less [symmetric])

section \<open>Requests, envelopes, read-write sets\<close>

record KV =
  kv_key :: string
  kv_value :: string

type_synonym KVList = "KV list"

abbreviation KV_of :: "string \<Rightarrow> string \<Rightarrow> KV" where
  "KV_of k v \<equiv> \<lparr>kv_key = k, kv_value = v\<rparr>"

definition KV_equals :: "KV \<Rightarrow> KV \<Rightarrow> bool" where
  "KV_equals a b \<longleftrightarrow> kv_key a = kv_key b \<and> kv_value a = kv_value b"

record SignatureString =
  ski :: string
  digest :: tid_type

record UserRequest =
  ccName :: string
  funcName :: string
  req_args :: string
  nonce :: int

record Envelop =
  payload :: string
  signature :: SignatureString

record TxReadWriteSet =
  requestDigest :: tid_type
  retValue :: string
  retCode :: int
  rw_reads :: KVList
  rw_writes :: KVList

definition new_TxReadWriteSet :: "tid_type \<Rightarrow> TxReadWriteSet" where
  "new_TxReadWriteSet d =
     \<lparr>requestDigest = d, retValue = [], retCode = -1, rw_reads = [], rw_writes = []\<rparr>"

section \<open>Transactions\<close>

datatype ExecutionResult = COMMIT | PENDING | ABORT | ABORT_NO_RETRY

primrec result_code :: "ExecutionResult \<Rightarrow> int" where
  "result_code COMMIT = 0"
| "result_code PENDING = -1"
| "result_code ABORT = 1"
| "result_code ABORT_NO_RETRY = 2"

record Transaction =
  tid :: tid_type
  envelop :: Envelop
  userRequest :: UserRequest
  executionResult :: TxReadWriteSet

definition NewTransactionFromEnvelop ::
  "(string \<Rightarrow> UserRequest option) \<Rightarrow> Envelop \<Rightarrow> Transaction option" where
  "NewTransactionFromEnvelop decode env =
     (case decode (payload env) of
        None \<Rightarrow> None
      | Some req \<Rightarrow>
          Some \<lparr>tid = digest (signature env), envelop = env, userRequest = req,
                executionResult = new_TxReadWriteSet (digest (signature env))\<rparr>)"

definition DestroyTransaction :: "Transaction \<Rightarrow> Envelop \<times> TxReadWriteSet" where
  "DestroyTransaction txn = (envelop txn, executionResult txn)"

definition getReads :: "Transaction \<Rightarrow> KVList" where
  "getReads txn = rw_reads (executionResult txn)"

definition getWrites :: "Transaction \<Rightarrow> KVList" where
  "getWrites txn = rw_writes (executionResult txn)"

definition setExecutionResult :: "ExecutionResult \<Rightarrow> Transaction \<Rightarrow> Transaction" where
  "setExecutionResult er txn =
     txn\<lparr>executionResult := (executionResult txn)\<lparr>retCode := result_code er\<rparr>\<rparr>"

text \<open>
  \<^verbatim>\<open>getExecutionResult\<close> casts the stored code to the enumeration; the code only ever
  compares the result with an enumerator, which is a comparison of the codes.
\<close>

definition hasResult :: "Transaction \<Rightarrow> ExecutionResult \<Rightarrow> bool" where
  "hasResult txn er \<longleftrightarrow> retCode (executionResult txn) = result_code er"

text \<open>The return value and the read-write sets that \<^verbatim>\<open>chaincode->reset\<close> hands over.\<close>

definition setRWSets :: "string \<Rightarrow> KVList \<Rightarrow> KVList \<Rightarrow> Transaction \<Rightarrow> Transaction" where
  "setRWSets ret rs ws txn =
     txn\<lparr>executionResult := (executionResult txn)\<lparr>retValue := ret, rw_reads := rs, rw_writes := ws\<rparr>\<rparr>"

lemma result_code_inject [simp]: "result_code a = result_code b \<longleftrightarrow> a = b"
  by (cases a; cases b) simp_all

lemma hasResult_set [simp]: "hasResult (setExecutionResult a t) b \<longleftrightarrow> a = b"
  by (simp add: hasResult_def setExecutionResult_def)

lemma hasResult_unique: "hasResult t a \<Longrightarrow> hasResult t b \<Longrightarrow> a = b"
  by (simp add: hasResult_def)

lemma setExecutionResult_fields [simp]:
  "tid (setExecutionResult r t) = tid t"
  "envelop (setExecutionResult r t) = envelop t"
  "userRequest (setExecutionResult r t) = userRequest t"
  "getReads (setExecutionResult r t) = getReads t"
  "getWrites (setExecutionResult r t) = getWrites t"
  by (simp_all add: setExecutionResult_def getReads_def getWrites_def)

lemma setRWSets_fields [simp]:
  "tid (setRWSets v rs ws t) = tid t"
  "envelop (setRWSets v rs ws t) = envelop t"
  "userRequest (setRWSets v rs ws t) = userRequest t"
  "getReads (setRWSets v rs ws t) = rs"
  "getWrites (setRWSets v rs ws t) = ws"
  "hasResult (setRWSets v rs ws t) r = hasResult t r"
  by (simp_all add: setRWSets_def getReads_def getWrites_def hasResult_def)

lemma NewTransactionFromEnvelop_Some:
  assumes "NewTransactionFromEnvelop decode env = Some t"
  shows "tid t = digest (signature env)" and "envelop t = env"
    and "decode (payload env) = Some (userRequest t)"
    and "hasResult t PENDING" and "getReads t = []" and "getWrites t = []"
  using assms
  by (auto simp: NewTransactionFromEnvelop_def new_TxReadWriteSet_def hasResult_def
      getReads_def getWrites_def split: option.splits)

end
