(* ===== verification/Orm.thy ===== *)
theory Orm
  imports Proto
begin

text \<open>
  The database and what a chaincode sees of it: the in-memory connection
  (\<^verbatim>\<open>peer/db/phmap_connection.h\<close>), the object through which a chaincode reads and
  writes (\<^verbatim>\<open>peer/chaincode/orm.h\<close>), and chaincode programs.

  A chaincode reaches the database through the object only. It is therefore a program
  over the object's operations: a tree whose nodes are calls and whose leaves are
  return codes. Running such a tree threads the object, so everything proved of runs
  holds for every chaincode, whatever it computes between its calls.
\<close>

section \<open>The in-memory connection\<close>

type_synonym DB = "string \<rightharpoonup> string"

record WriteBatch =
  batch_writes :: "(string \<times> string) list"
  batch_deletes :: "string list"

definition empty_batch :: WriteBatch where
  "empty_batch = \<lparr>batch_writes = [], batch_deletes = []\<rparr>"

definition batch_Put :: "string \<Rightarrow> string \<Rightarrow> WriteBatch \<Rightarrow> WriteBatch" where
  "batch_Put k v b = b\<lparr>batch_writes := batch_writes b @ [(k, v)]\<rparr>"

definition batch_Delete :: "string \<Rightarrow> WriteBatch \<Rightarrow> WriteBatch" where
  "batch_Delete k b = b\<lparr>batch_deletes := batch_deletes b @ [k]\<rparr>"

definition syncPut :: "string \<Rightarrow> string \<Rightarrow> DB \<Rightarrow> DB" where
  "syncPut k v db = db(k \<mapsto> v)"

definition syncDelete :: "string \<Rightarrow> DB \<Rightarrow> DB" where
  "syncDelete k db = db(k := None)"

text \<open>All puts of the batch are applied first, then all deletes.\<close>

definition apply_batch :: "WriteBatch \<Rightarrow> DB \<Rightarrow> DB" where
  "apply_batch b db =
     fold syncDelete (batch_deletes b) (fold (\<lambda>(k, v). syncPut k v) (batch_writes b) db)"

text \<open>
  The callback fills the batch and may refuse it; on refusal the database is untouched
  and the result is false.
\<close>

definition syncWriteBatch :: "(WriteBatch \<Rightarrow> bool \<times> WriteBatch) \<Rightarrow> DB \<Rightarrow> bool \<times> DB" where
  "syncWriteBatch callback db =
     (case callback empty_batch of
        (False, _) \<Rightarrow> (False, db)
      | (True, b) \<Rightarrow> (True, apply_batch b db))"

text \<open>
  The loop that the coordinators run over the write set of a committed transaction:
  an empty value is a deletion.
\<close>

definition batch_kv :: "KV \<Rightarrow> WriteBatch \<Rightarrow> WriteBatch" where
  "batch_kv kv b =
     (if kv_value kv = [] then batch_Delete (kv_key kv) b
      else batch_Put (kv_key kv) (kv_value kv) b)"

definition batch_kvs :: "KVList \<Rightarrow> WriteBatch \<Rightarrow> WriteBatch" where
  "batch_kvs kvs b = fold batch_kv kvs b"

section \<open>The object a chaincode works on\<close>

record ORM =
  orm_db :: DB
  orm_reads :: KVList
  orm_writes :: KVList
  orm_result :: string

definition NewORMFromDBInterface :: "DB \<Rightarrow> ORM" where
  "NewORMFromDBInterface db = \<lparr>orm_db = db, orm_reads = [], orm_writes = [], orm_result = []\<rparr>"

text \<open>
  A lookup that finds no value, or an empty one, fails and leaves no trace in the read
  set; a successful lookup appends the pair it found.
\<close>

definition orm_get :: "string \<Rightarrow> ORM \<Rightarrow> string option \<times> ORM" where
  "orm_get k orm =
     (case orm_db orm k of
        None \<Rightarrow> (None, orm)
      | Some v \<Rightarrow>
          if v = [] then (None, orm)
          else (Some v, orm\<lparr>orm_reads := orm_reads orm @ [KV_of k v]\<rparr>))"

definition orm_put :: "string \<Rightarrow> string \<Rightarrow> ORM \<Rightarrow> ORM" where
  "orm_put k v orm = orm\<lparr>orm_writes := orm_writes orm @ [KV_of k v]\<rparr>"

definition orm_del :: "string \<Rightarrow> ORM \<Rightarrow> ORM" where
  "orm_del k orm = orm\<lparr>orm_writes := orm_writes orm @ [KV_of k []]\<rparr>"

definition orm_setResult :: "string \<Rightarrow> ORM \<Rightarrow> ORM" where
  "orm_setResult r orm = orm\<lparr>orm_result := r\<rparr>"

definition orm_reset :: "ORM \<Rightarrow> (string \<times> KVList \<times> KVList) \<times> ORM" where
  "orm_reset orm =
     ((orm_result orm, orm_reads orm, orm_writes orm),
      orm\<lparr>orm_reads := [], orm_writes := [], orm_result := []\<rparr>)"

section \<open>Chaincode programs\<close>

datatype prog =
    Return int
  | Throw
  | Get string "string option \<Rightarrow> prog"
  | Put string string prog
  | Del string prog
  | SetResult string prog

type_synonym chaincode = "string \<Rightarrow> string \<Rightarrow> prog"

text \<open>An uncaught exception (\<^const>\<open>Throw\<close>) leaves no return code.\<close>

primrec run_prog :: "prog \<Rightarrow> ORM \<Rightarrow> int option \<times> ORM" where
  "run_prog (Return c) orm = (Some c, orm)"
| "run_prog Throw orm = (None, orm)"
| "run_prog (Get k f) orm = (let (r, orm') = orm_get k orm in run_prog (f r) orm')"
| "run_prog (Put k v p) orm = run_prog p (orm_put k v orm)"
| "run_prog (Del k p) orm = run_prog p (orm_del k orm)"
| "run_prog (SetResult r p) orm = run_prog p (orm_setResult r orm)"

text \<open>The visible value of a key, and the keys a run looks up without finding one.\<close>

definition visible :: "DB \<Rightarrow> string \<Rightarrow> string option" where
  "visible db k = (case db k of None \<Rightarrow> None | Some v \<Rightarrow> if v = [] then None else Some v)"

primrec lookups :: "prog \<Rightarrow> DB \<Rightarrow> string list" where
  "lookups (Return c) db = []"
| "lookups Throw db = []"
| "lookups (Get k f) db = k # lookups (f (visible db k)) db"
| "lookups (Put k v p) db = lookups p db"
| "lookups (Del k p) db = lookups p db"
| "lookups (SetResult r p) db = lookups p db"

definition missed :: "prog \<Rightarrow> DB \<Rightarrow> string list" where
  "missed p db = filter (\<lambda>k. visible db k = None) (lookups p db)"

lemma orm_get_visible [simp]:
  "fst (orm_get k orm) = visible (orm_db orm) k"
  "orm_db (snd (orm_get k orm)) = orm_db orm"
  "orm_writes (snd (orm_get k orm)) = orm_writes orm"
  "orm_result (snd (orm_get k orm)) = orm_result orm"
  by (auto simp: orm_get_def visible_def split: option.splits)

lemma orm_get_reads:
  "orm_reads (snd (orm_get k orm)) = orm_reads orm @
     (case visible (orm_db orm) k of None \<Rightarrow> [] | Some v \<Rightarrow> [KV_of k v])"
  by (auto simp: orm_get_def visible_def split: option.splits)

lemma orm_updates [simp]:
  "orm_db (orm_put k v orm) = orm_db orm" "orm_reads (orm_put k v orm) = orm_reads orm"
  "orm_db (orm_del k orm) = orm_db orm" "orm_reads (orm_del k orm) = orm_reads orm"
  "orm_db (orm_setResult r orm) = orm_db orm"
  "orm_reads (orm_setResult r orm) = orm_reads orm"
  by (simp_all add: orm_put_def orm_del_def orm_setResult_def)

lemma orm_put_db: "orm_put k v (orm\<lparr>orm_db := db\<rparr>) = (orm_put k v orm)\<lparr>orm_db := db\<rparr>"
  by (simp add: orm_put_def)

lemma orm_del_db: "orm_del k (orm\<lparr>orm_db := db\<rparr>) = (orm_del k orm)\<lparr>orm_db := db\<rparr>"
  by (simp add: orm_del_def)

lemma orm_setResult_db:
  "orm_setResult r (orm\<lparr>orm_db := db\<rparr>) = (orm_setResult r orm)\<lparr>orm_db := db\<rparr>"
  by (simp add: orm_setResult_def)

text \<open>What a run records: exactly the lookups that found a value, in order.\<close>

lemma run_prog_reads:
  "orm_reads (snd (run_prog p orm)) = orm_reads orm @
     map (\<lambda>k. KV_of k (the (visible (orm_db orm) k)))
       (filter (\<lambda>k. visible (orm_db orm) k \<noteq> None) (lookups p (orm_db orm)))"
proof (induction p arbitrary: orm)
  case (Get k f)
  have "f (visible (orm_db orm) k) \<in> range f" by simp
  from Get.IH[OF this, of "snd (orm_get k orm)"] show ?case
    by (simp add: case_prod_beta orm_get_reads Let_def split: option.splits)
qed simp_all

lemma run_prog_read_keys:
  "set (map kv_key (orm_reads (snd (run_prog p (NewORMFromDBInterface db)))))
     = {k \<in> set (lookups p db). visible db k \<noteq> None}"
  by (auto simp: run_prog_reads NewORMFromDBInterface_def)

lemma lookups_split:
  "set (lookups p db) =
     set (map kv_key (orm_reads (snd (run_prog p (NewORMFromDBInterface db)))))
     \<union> set (missed p db)"
  unfolding run_prog_read_keys by (auto simp: missed_def)

text \<open>
  A run is determined by the values of the keys it looks up: on a database that agrees
  on those, the same program makes the same lookups, returns the same code and leaves
  the same read set, write set and result.
\<close>

lemma run_prog_cong:
  assumes "\<forall>k \<in> set (lookups p (orm_db orm)). visible db' k = visible (orm_db orm) k"
  shows "run_prog p (orm\<lparr>orm_db := db'\<rparr>) =
      (fst (run_prog p orm), (snd (run_prog p orm))\<lparr>orm_db := db'\<rparr>)
    \<and> lookups p db' = lookups p (orm_db orm)"
  using assms
proof (induction p arbitrary: orm)
  case (Get k f)
  let ?orm' = "snd (orm_get k orm)"
  have vis: "visible db' k = visible (orm_db orm) k" using Get.prems by simp
  then have step: "orm_get k (orm\<lparr>orm_db := db'\<rparr>) = (visible (orm_db orm) k, ?orm'\<lparr>orm_db := db'\<rparr>)"
    by (auto simp: orm_get_def visible_def split: option.splits if_splits)
  have "f (visible (orm_db orm) k) \<in> range f" by simp
  from Get.IH[OF this, of ?orm'] Get.prems show ?case
    by (simp add: step vis case_prod_beta Let_def)
next
  case (Put k v p)
  from Put.IH[of "orm_put k v orm"] Put.prems show ?case by (simp add: orm_put_db)
next
  case (Del k p)
  from Del.IH[of "orm_del k orm"] Del.prems show ?case by (simp add: orm_del_db)
next
  case (SetResult r p)
  from SetResult.IH[of "orm_setResult r orm"] SetResult.prems show ?case
    by (simp add: orm_setResult_db)
qed simp_all

section \<open>Effects of batches\<close>

text \<open>
  The effect of a batch on one key: deleted if the key is among the deletes, else the
  last put, else unchanged.
\<close>

definition batch_effect :: "WriteBatch \<Rightarrow> string \<Rightarrow> string option option" where
  "batch_effect b k =
     (if k \<in> set (batch_deletes b) then Some None
      else map_option Some (map_of (rev (batch_writes b)) k))"

lemma fold_syncPut: "fold (\<lambda>(k, v). syncPut k v) kvs db = db ++ map_of (rev kvs)"
  by (induction kvs arbitrary: db) (auto simp: syncPut_def map_add_def fun_eq_iff split: option.splits)

lemma fold_syncDelete: "fold syncDelete ks db k = (if k \<in> set ks then None else db k)"
  by (induction ks arbitrary: db) (auto simp: syncDelete_def)

lemma apply_batch_effect:
  "apply_batch b db k = (case batch_effect b k of None \<Rightarrow> db k | Some r \<Rightarrow> r)"
  by (auto simp: apply_batch_def batch_effect_def fold_syncDelete fold_syncPut map_add_def
      split: option.splits)

lemma batch_kvs_lists:
  "batch_writes (batch_kvs kvs b) =
     batch_writes b @ map (\<lambda>kv. (kv_key kv, kv_value kv)) (filter (\<lambda>kv. kv_value kv \<noteq> []) kvs)"
  "batch_deletes (batch_kvs kvs b) =
     batch_deletes b @ map kv_key (filter (\<lambda>kv. kv_value kv = []) kvs)"
  unfolding batch_kvs_def
  by (induction kvs arbitrary: b) (auto simp: batch_kv_def batch_Put_def batch_Delete_def)

definition kvs_keys :: "KVList \<Rightarrow> string set" where
  "kvs_keys kvs = kv_key ` set kvs"

definition kvs_effect :: "KVList \<Rightarrow> string \<Rightarrow> string option option" where
  "kvs_effect kvs = batch_effect (batch_kvs kvs empty_batch)"

lemma kvs_keys_simps [simp]:
  "kvs_keys [] = {}" "kvs_keys (kv # kvs) = insert (kv_key kv) (kvs_keys kvs)"
  "kvs_keys (xs @ ys) = kvs_keys xs \<union> kvs_keys ys"
  by (auto simp: kvs_keys_def)

lemma map_of_rev_pairs:
  "map_of (rev (map (\<lambda>kv. (kv_key kv, kv_value kv)) kvs)) k =
     (if k \<in> kvs_keys kvs then Some (kv_value (last (filter (\<lambda>kv. kv_key kv = k) kvs))) else None)"
  by (induction kvs rule: rev_induct) (auto simp: kvs_keys_def filter_empty_conv)

text \<open>The effect of a write set on a key is read off the entries of that key.\<close>

lemma kvs_effect_filter:
  "kvs_effect kvs k =
     (let own = filter (\<lambda>kv. kv_key kv = k) kvs in
      if own = [] then None
      else if \<exists>kv \<in> set own. kv_value kv = [] then Some None
      else Some (Some (kv_value (last own))))"
proof -
  let ?own = "filter (\<lambda>kv. kv_key kv = k) kvs"
  have del: "k \<in> set (batch_deletes (batch_kvs kvs empty_batch)) \<longleftrightarrow> (\<exists>kv \<in> set ?own. kv_value kv = [])"
    by (auto simp: batch_kvs_lists empty_batch_def)
  have put: "map_of (rev (batch_writes (batch_kvs kvs empty_batch))) k =
      (if ?own = [] then None else Some (kv_value (last ?own)))"
    if "\<forall>kv \<in> set ?own. kv_value kv \<noteq> []"
  proof -
    have "filter (\<lambda>kv. kv_key kv = k) (filter (\<lambda>kv. kv_value kv \<noteq> []) kvs) = ?own"
      using that by (auto intro: filter_cong)
    moreover have "k \<in> kvs_keys (filter (\<lambda>kv. kv_value kv \<noteq> []) kvs) \<longleftrightarrow> ?own \<noteq> []"
      using that by (auto simp: kvs_keys_def filter_empty_conv)
    ultimately show ?thesis
      by (simp add: batch_kvs_lists empty_batch_def map_of_rev_pairs)
  qed
  show ?thesis
  proof (cases "\<exists>kv \<in> set ?own. kv_value kv = []")
    case True
    then have "?own \<noteq> []" by (metis empty_iff empty_set)
    with True del show ?thesis by (simp add: kvs_effect_def batch_effect_def Let_def)
  next
    case False
    with del put show ?thesis by (simp add: kvs_effect_def batch_effect_def Let_def)
  qed
qed

lemma kvs_effect_None: "kvs_effect kvs k = None \<longleftrightarrow> k \<notin> kvs_keys kvs"
  by (auto simp: kvs_effect_filter Let_def kvs_keys_def filter_empty_conv)

lemma kvs_effect_append:
  "k \<notin> kvs_keys xs \<Longrightarrow> kvs_effect (xs @ ys) k = kvs_effect ys k"
  "k \<notin> kvs_keys ys \<Longrightarrow> kvs_effect (xs @ ys) k = kvs_effect xs k"
proof -
  have own: "k \<notin> kvs_keys zs \<Longrightarrow> filter (\<lambda>kv. kv_key kv = k) zs = []" for zs
    by (auto simp: kvs_keys_def filter_empty_conv)
  show "k \<notin> kvs_keys xs \<Longrightarrow> kvs_effect (xs @ ys) k = kvs_effect ys k"
    and "k \<notin> kvs_keys ys \<Longrightarrow> kvs_effect (xs @ ys) k = kvs_effect xs k"
    by (simp_all add: kvs_effect_filter own)
qed

text \<open>Applying a write set as the batch of one transaction.\<close>

definition apply_writes :: "KVList \<Rightarrow> DB \<Rightarrow> DB" where
  "apply_writes kvs db = apply_batch (batch_kvs kvs empty_batch) db"

lemma apply_writes_effect:
  "apply_writes kvs db k = (case kvs_effect kvs k of None \<Rightarrow> db k | Some r \<Rightarrow> r)"
  by (simp add: apply_writes_def apply_batch_effect kvs_effect_def)

lemma apply_writes_other: "k \<notin> kvs_keys kvs \<Longrightarrow> apply_writes kvs db k = db k"
  by (simp add: apply_writes_effect kvs_effect_None[THEN iffD2])

lemma apply_writes_append:
  assumes "kvs_keys xs \<inter> kvs_keys ys = {}"
  shows "apply_writes (xs @ ys) db = apply_writes ys (apply_writes xs db)"
proof
  fix k
  show "apply_writes (xs @ ys) db k = apply_writes ys (apply_writes xs db) k"
  proof (cases "k \<in> kvs_keys xs")
    case True
    with assms have "k \<notin> kvs_keys ys" by blast
    then show ?thesis by (simp add: apply_writes_other) (simp add: apply_writes_effect kvs_effect_append)
  next
    case False
    then show ?thesis
      by (simp add: apply_writes_effect[of "xs @ ys"] apply_writes_effect[of ys]
          kvs_effect_append apply_writes_other cong: option.case_cong)
  qed
qed

lemma apply_writes_commute:
  assumes "kvs_keys xs \<inter> kvs_keys ys = {}"
  shows "apply_writes xs (apply_writes ys db) = apply_writes ys (apply_writes xs db)"
proof
  fix k
  consider "k \<notin> kvs_keys xs" | "k \<notin> kvs_keys ys" using assms by blast
  then show "apply_writes xs (apply_writes ys db) k = apply_writes ys (apply_writes xs db) k"
  proof cases
    case 1
    then show ?thesis by (simp add: apply_writes_effect[of ys] apply_writes_other[of k xs]
          cong: option.case_cong)
  next
    case 2
    then show ?thesis by (simp add: apply_writes_effect[of xs] apply_writes_other[of k ys]
          cong: option.case_cong)
  qed
qed

lemma apply_writes_Nil [simp]: "apply_writes [] db = db"
  by (simp add: fun_eq_iff apply_writes_other)

text \<open>A write set without deletions is applied entry by entry.\<close>

lemma apply_writes_puts:
  assumes "\<forall>kv \<in> set kvs. kv_value kv \<noteq> []"
  shows "apply_writes kvs db = fold (\<lambda>kv. syncPut (kv_key kv) (kv_value kv)) kvs db"
proof -
  have "filter (\<lambda>kv. kv_value kv \<noteq> []) kvs = kvs" "filter (\<lambda>kv. kv_value kv = []) kvs = []"
    using assms by (auto simp: filter_id_conv filter_empty_conv)
  then show ?thesis
    by (simp add: apply_writes_def apply_batch_def batch_kvs_lists empty_batch_def fold_map comp_def)
qed

section \<open>Invocations by themselves\<close>

text \<open>
  What an invocation on its own does: its return code, and the database with its write
  set applied if it succeeded.
\<close>

definition outcome :: "prog \<Rightarrow> DB \<Rightarrow> int option \<times> DB" where
  "outcome p db =
     (let (c, orm) = run_prog p (NewORMFromDBInterface db)
      in (c, if c = Some 0 then apply_writes (orm_writes orm) db else db))"

lemma run_prog_Get:
  "run_prog (Get k f) orm =
     (case visible (orm_db orm) k of
        None \<Rightarrow> run_prog (f None) orm
      | Some v \<Rightarrow> run_prog (f (Some v)) (orm\<lparr>orm_reads := orm_reads orm @ [KV_of k v]\<rparr>))"
  by (auto simp: orm_get_def visible_def split: option.splits)

declare run_prog.simps(3) [simp del]

lemma visible_Some [simp]: "db k = Some v \<Longrightarrow> v \<noteq> [] \<Longrightarrow> visible db k = Some v"
  by (simp add: visible_def)

lemma visible_None [simp]: "db k = None \<Longrightarrow> visible db k = None"
  by (simp add: visible_def)

lemmas run_simps = outcome_def run_prog_Get NewORMFromDBInterface_def orm_put_def orm_del_def
  orm_setResult_def apply_writes_puts syncPut_def

text \<open>
  The return code and the write set of a run do not depend on the read set; they can be
  computed without the object.
\<close>

primrec run_writes :: "prog \<Rightarrow> DB \<Rightarrow> KVList \<Rightarrow> int option \<times> KVList" where
  "run_writes (Return c) db ws = (Some c, ws)"
| "run_writes Throw db ws = (None, ws)"
| "run_writes (Get k f) db ws = run_writes (f (visible db k)) db ws"
| "run_writes (Put k v p) db ws = run_writes p db (ws @ [KV_of k v])"
| "run_writes (Del k p) db ws = run_writes p db (ws @ [KV_of k []])"
| "run_writes (SetResult r p) db ws = run_writes p db ws"

lemma run_prog_writes:
  "run_writes p (orm_db orm) (orm_writes orm) = (fst (run_prog p orm), orm_writes (snd (run_prog p orm)))"
proof (induction p arbitrary: orm)
  case (Get k f)
  have "f (visible (orm_db orm) k) \<in> range f" by simp
  from Get.IH[OF this, of "snd (orm_get k orm)"] show ?case
    by (simp add: run_prog_Get orm_get_def visible_def split: option.splits if_splits)
next
  case (Put k v p)
  from Put.IH[of "orm_put k v orm"] show ?case by (simp add: orm_put_def)
next
  case (Del k p)
  from Del.IH[of "orm_del k orm"] show ?case by (simp add: orm_del_def)
next
  case (SetResult r p)
  from SetResult.IH[of "orm_setResult r orm"] show ?case by (simp add: orm_setResult_def)
qed simp_all

lemma outcome_writes:
  "outcome p db =
     (case run_writes p db [] of (c, ws) \<Rightarrow> (c, if c = Some 0 then apply_writes ws db else db))"
  using run_prog_writes[of p "NewORMFromDBInterface db"]
  by (simp add: outcome_def NewORMFromDBInterface_def case_prod_beta)

text \<open>
  A lookup in vain leaves no trace in the read set. A program is careful if an
  invocation that succeeds writes every key it looked up in vain.
\<close>

definition careful :: "prog \<Rightarrow> bool" where
  "careful p \<longleftrightarrow>
     (\<forall>db. fst (run_writes p db []) = Some 0 \<longrightarrow>
        set (missed p db) \<subseteq> kvs_keys (snd (run_writes p db [])))"

lemma missed_simps [simp]:
  "missed (Return c) db = []" "missed Throw db = []"
  "missed (Get k f) db = (if visible db k = None then k # missed (f None) db else missed (f (visible db k)) db)"
  "missed (Put k v p) db = missed p db" "missed (Del k p) db = missed p db"
  "missed (SetResult r p) db = missed p db"
  by (simp_all add: missed_def)

text \<open>A program that fails at its first lookup in vain is careful.\<close>

definition strict_at :: "DB \<Rightarrow> prog \<Rightarrow> bool" where
  "strict_at db p \<longleftrightarrow> (\<forall>ws. fst (run_writes p db ws) = Some 0 \<longrightarrow> missed p db = [])"

lemma strict_leaf:
  "strict_at db (Return c)" "strict_at db Throw"
  "strict_at db p \<Longrightarrow> strict_at db (SetResult r p)"
  by (simp_all add: strict_at_def)

lemma strict_branch:
  "strict_at db p \<Longrightarrow> (\<And>v. strict_at db (f v)) \<Longrightarrow> strict_at db (case x of None \<Rightarrow> p | Some v \<Rightarrow> f v)"
  "strict_at db p \<Longrightarrow> strict_at db q \<Longrightarrow> strict_at db (if c then p else q)"
  "(\<And>a b. strict_at db (g a b)) \<Longrightarrow> strict_at db (case y of (a, b) \<Rightarrow> g a b)"
  by (auto split: option.split prod.split)

lemma strict_careful:
  assumes "\<And>db. strict_at db p"
  shows "careful p"
  unfolding careful_def
proof (intro allI impI)
  fix db assume "fst (run_writes p db []) = Some 0"
  then have "missed p db = []" using assms[of db] unfolding strict_at_def by metis
  then show "set (missed p db) \<subseteq> kvs_keys (snd (run_writes p db []))" by simp
qed

text \<open>The parts of a write set that matter to a database, entry by entry.\<close>

lemma apply_writes_snoc:
  assumes "\<And>kv. kv \<in> set ws \<Longrightarrow> kv_key kv = k \<Longrightarrow> kv_value kv \<noteq> []" and "v \<noteq> []"
  shows "apply_writes (ws @ [KV_of k v]) db = (apply_writes ws db)(k \<mapsto> v)"
proof
  fix x
  show "apply_writes (ws @ [KV_of k v]) db x = ((apply_writes ws db)(k \<mapsto> v)) x"
    using assms by (auto simp: apply_writes_effect kvs_effect_filter Let_def)
qed

lemma apply_writes_snoc_delete:
  "apply_writes (ws @ [KV_of k []]) db = (apply_writes ws db)(k := None)"
proof
  fix x
  show "apply_writes (ws @ [KV_of k []]) db x = ((apply_writes ws db)(k := None)) x"
    by (auto simp: apply_writes_effect kvs_effect_filter Let_def)
qed

end
