(* ===== verification/Schedule.thy ===== *)
theory Schedule
  imports Prelude
begin

text \<open>
  Threads and reservations. The coordinator starts one phase on all workers and waits
  for all of them (\<^verbatim>\<open>processParallel\<close>); inside a phase the workers interleave
  atomic operations on a shared structure (one bucket-locked update of a hash map).
  A phase is a list of operation lists, one per worker, and a step executes the next
  operation of any worker. The theory shows when every complete run of a phase ends in
  the state that running the workers one after the other gives, and states the contract
  of the reservation tables the phases write.
\<close>

section \<open>Interleaving of worker operations\<close>

inductive par_step :: "('op \<Rightarrow> 's \<Rightarrow> 's) \<Rightarrow> 's \<times> 'op list list \<Rightarrow> 's \<times> 'op list list \<Rightarrow> bool"
  for act where
  worker_op: "w < length ws \<Longrightarrow> ws ! w = x # rest \<Longrightarrow>
     par_step act (s, ws) (act x s, ws[w := rest])"

inductive par_run :: "('op \<Rightarrow> 's \<Rightarrow> 's) \<Rightarrow> 's \<times> 'op list list \<Rightarrow> 's \<times> 'op list list \<Rightarrow> bool"
  for act where
  stop: "par_run act c c"
| go: "par_step act c c' \<Longrightarrow> par_run act c' c'' \<Longrightarrow> par_run act c c''"

definition all_done :: "'op list list \<Rightarrow> bool" where
  "all_done ws \<longleftrightarrow> (\<forall>ops \<in> set ws. ops = [])"

text \<open>Operations of different workers commute.\<close>

definition ops_commute :: "('op \<Rightarrow> 's \<Rightarrow> 's) \<Rightarrow> 'op list list \<Rightarrow> bool" where
  "ops_commute act ws \<longleftrightarrow>
     (\<forall>i j x y. i < length ws \<longrightarrow> j < length ws \<longrightarrow> i \<noteq> j \<longrightarrow>
        x \<in> set (ws ! i) \<longrightarrow> y \<in> set (ws ! j) \<longrightarrow> act x \<circ> act y = act y \<circ> act x)"

lemma fold_commute_one:
  assumes "\<And>y. y \<in> set ys \<Longrightarrow> act x \<circ> act y = act y \<circ> act x"
  shows "fold act ys (act x s) = act x (fold act ys s)"
  using assms
proof (induction ys arbitrary: s)
  case Nil
  then show ?case by simp
next
  case (Cons y ys)
  have "act y (act x s) = act x (act y s)"
    using Cons.prems[of y] by (metis comp_apply list.set_intros(1))
  with Cons show ?case by simp
qed

lemma fold_concat_pull:
  assumes "w < length ws" and "ws ! w = x # rest"
    and "\<And>i y. i < w \<Longrightarrow> y \<in> set (ws ! i) \<Longrightarrow> act x \<circ> act y = act y \<circ> act x"
  shows "fold act (concat (ws[w := rest])) (act x s) = fold act (concat ws) s"
  using assms
proof (induction ws arbitrary: w s)
  case Nil
  then show ?case by simp
next
  case (Cons ops ws)
  show ?case
  proof (cases w)
    case 0
    with Cons.prems show ?thesis by simp
  next
    case (Suc v)
    have "fold act ops (act x s) = act x (fold act ops s)"
      using Cons.prems(3)[of 0] Suc by (intro fold_commute_one) (simp add: comp_def)
    moreover have "fold act (concat (ws[v := rest])) (act x (fold act ops s))
        = fold act (concat ws) (fold act ops s)"
    proof (rule Cons.IH)
      show "v < length ws" and "ws ! v = x # rest" using Cons.prems(1,2) Suc by auto
      show "act x \<circ> act y = act y \<circ> act x" if "i < v" "y \<in> set (ws ! i)" for i y
        using Cons.prems(3)[of "Suc i" y] that Suc by (simp add: comp_def)
    qed
    ultimately show ?thesis using Suc by simp
  qed
qed

lemma ops_commute_update:
  assumes "ops_commute act ws" and "w < length ws" and "set rest \<subseteq> set (ws ! w)"
  shows "ops_commute act (ws[w := rest])"
  using assms unfolding ops_commute_def
  by (simp add: nth_list_update) blast

lemma par_step_fold:
  assumes "par_step act (s, ws) (s', ws')" and "ops_commute act ws"
  shows "fold act (concat ws') s' = fold act (concat ws) s \<and> ops_commute act ws'"
  using assms(1)
proof (cases rule: par_step.cases)
  case (worker_op w x rest)
  have "act x \<circ> act y = act y \<circ> act x" if "i < w" "y \<in> set (ws ! i)" for i y
    using assms(2) worker_op that unfolding ops_commute_def
    by (metis list.set_intros(1) nat_neq_iff order.strict_trans)
  with worker_op assms(2) show ?thesis
    by (auto simp: fold_concat_pull intro!: ops_commute_update)
qed

text \<open>Every complete run of a phase ends where the sequential run ends.\<close>

lemma par_run_sequential:
  assumes "par_run act (s, ws) (s', ws')" and "ops_commute act ws" and "all_done ws'"
  shows "s' = fold act (concat ws) s"
  using assms
proof (induction "(s, ws)" "(s', ws')" arbitrary: s ws rule: par_run.induct)
  case stop
  then have "concat ws' = []" by (simp add: all_done_def)
  then show ?case by (simp only: fold_Nil id_apply)
next
  case (go c')
  obtain t vs where c': "c' = (t, vs)" by fastforce
  with go show ?case using par_step_fold by metis
qed

text \<open>A phase can always be completed, so the statement above is not about nothing.\<close>

lemma par_run_exists: "\<exists>s' ws'. par_run act (s, ws) (s', ws') \<and> all_done ws'"
proof (induction "length (concat ws)" arbitrary: s ws)
  case 0
  then have "all_done ws" by (auto simp: all_done_def)
  then show ?case by (blast intro: par_run.stop)
next
  case (Suc n)
  then obtain ops where "ops \<in> set ws" "ops \<noteq> []"
    by (metis Zero_not_Suc concat_eq_Nil_conv list.size(3))
  then obtain w x rest where w: "w < length ws" "ws ! w = x # rest"
    by (metis in_set_conv_nth list.exhaust)
  have "length (concat ws) = length (concat (take w ws @ (x # rest) # drop (Suc w) ws))"
    using w by (metis id_take_nth_drop)
  with Suc.hyps(2) have "n = length (concat (ws[w := rest]))"
    using w by (simp add: upd_conv_take_nth_drop)
  then obtain s' ws' where "par_run act (act x s, ws[w := rest]) (s', ws')" "all_done ws'"
    using Suc.hyps(1) by blast
  with w show ?case by (blast intro: par_run.go par_step.worker_op)
qed

section \<open>Keyed reservations\<close>

text \<open>
  A reservation table keeps, per key, the preferred one of the identifiers that were
  reserved for it. The contract is what one reservation does to a lookup; the clients
  learn that the order of reservations is irrelevant and what a lookup returns after
  any sequence of them.
\<close>

locale keyed_reservation =
  fixes le :: "'t \<Rightarrow> 't \<Rightarrow> bool"
    and reserve :: "'k \<Rightarrow> 't \<Rightarrow> ('k \<rightharpoonup> 't) \<Rightarrow> ('k \<rightharpoonup> 't)"
  assumes le_antisym: "le a b \<Longrightarrow> le b a \<Longrightarrow> a = b"
    and le_trans: "le a b \<Longrightarrow> le b c \<Longrightarrow> le a c"
    and le_total: "le a b \<or> le b a"
    and reserve_same: "reserve k t m k =
      Some (case m k of None \<Rightarrow> t | Some u \<Rightarrow> if le u t then u else t)"
    and reserve_other: "k' \<noteq> k \<Longrightarrow> reserve k t m k' = m k'"
begin

lemma le_refl: "le a a"
  using le_total[of a a] by blast

definition best :: "'t \<Rightarrow> 't \<Rightarrow> 't" where
  "best u t = (if le u t then u else t)"

lemma best_commute: "best a b = best b a"
  unfolding best_def using le_antisym le_total by metis

lemma best_cases: "best a b = a \<and> le a b \<or> best a b = b \<and> le b a"
  unfolding best_def using le_total by metis

lemma best_glb: "le t (best u v) \<longleftrightarrow> le t u \<and> le t v"
  using best_cases[of u v] le_trans by metis

lemma best_eq_iff: "t = best u v \<longleftrightarrow> (t = u \<or> t = v) \<and> le t u \<and> le t v"
  unfolding best_def using le_antisym le_refl le_total by metis

lemma best_left_commute: "best (best u a) b = best (best u b) a"
proof (rule le_antisym)
  have low: "le (best (best u x) y) u \<and> le (best (best u x) y) x \<and> le (best (best u x) y) y" for x y
    using le_refl[of "best (best u x) y"] by (simp add: best_glb)
  have attained: "best (best u x) y \<in> {u, x, y}" for x y
    unfolding best_def by simp
  show "le (best (best u a) b) (best (best u b) a)"
    using low[of a b] attained[of b a] by auto
  show "le (best (best u b) a) (best (best u a) b)"
    using low[of b a] attained[of a b] by auto
qed

lemma reserve_commute: "reserve k t (reserve k' t' m) = reserve k' t' (reserve k t m)"
proof
  fix x
  show "reserve k t (reserve k' t' m) x = reserve k' t' (reserve k t m) x"
  proof (cases "k = k' \<and> x = k")
    case True
    then show ?thesis
      by (cases "m k")
        (simp_all add: reserve_same best_commute[of t t'] best_left_commute flip: best_def)
  next
    case False
    then consider "x \<noteq> k" "x \<noteq> k'" | "x = k" "x \<noteq> k'" | "x \<noteq> k" "x = k'" by blast
    then show ?thesis
      by cases (auto simp: reserve_same reserve_other split: option.splits)
  qed
qed

lemma reserve_all_perm:
  assumes "mset ops = mset ops'"
  shows "fold (\<lambda>(k, t). reserve k t) ops m = fold (\<lambda>(k, t). reserve k t) ops' m"
proof -
  have "fold (\<lambda>(k, t). reserve k t) ops = fold (\<lambda>(k, t). reserve k t) ops'"
    using assms
    by (intro fold_multiset_equiv) (auto simp: fun_eq_iff reserve_commute)
  then show ?thesis by simp
qed

lemma best_least:
  "t \<in> insert (best u v) A \<and> (\<forall>w \<in> insert (best u v) A. le t w) \<longleftrightarrow>
     t \<in> insert u (insert v A) \<and> (\<forall>w \<in> insert u (insert v A). le t w)"
  using best_eq_iff[of t u v] by (simp add: best_glb) blast

text \<open>The identifiers that compete for a key: the stored one and the reserved ones.\<close>

definition competing :: "('k \<times> 't) list \<Rightarrow> ('k \<rightharpoonup> 't) \<Rightarrow> 'k \<Rightarrow> 't set" where
  "competing ops m k = set_option (m k) \<union> {u. (k, u) \<in> set ops}"

lemma competing_Cons:
  "competing ((k, t) # ops) m k = insert t (competing ops m k)"
  "k' \<noteq> k \<Longrightarrow> competing ((k', t) # ops) m k = competing ops (reserve k' t m) k"
  by (auto simp: competing_def reserve_other)

lemma reserve_all_lookup:
  "fold (\<lambda>(k, t). reserve k t) ops m k = Some t \<longleftrightarrow>
     t \<in> competing ops m k \<and> (\<forall>u \<in> competing ops m k. le t u)"
proof (induction ops arbitrary: m)
  case Nil
  then show ?case by (auto simp: competing_def le_refl)
next
  case (Cons kt ops)
  obtain k' t' where kt: "kt = (k', t')" by fastforce
  note IH = Cons.IH[of "reserve k' t' m"]
  show ?case
  proof (cases "k' = k")
    case False
    with IH show ?thesis by (simp add: kt competing_Cons)
  next
    case True
    let ?A = "{u. (k, u) \<in> set ops}"
    have step: "fold (\<lambda>(k, t). reserve k t) (kt # ops) m k
        = fold (\<lambda>(k, t). reserve k t) ops (reserve k t' m) k"
      by (simp add: kt True)
    show ?thesis
    proof (cases "m k")
      case None
      then have "competing ops (reserve k t' m) k = insert t' ?A"
        and "competing (kt # ops) m k = insert t' ?A"
        by (auto simp: competing_def reserve_same kt True)
      with IH True step show ?thesis by simp
    next
      case (Some u)
      then have "competing ops (reserve k t' m) k = insert (best u t') ?A"
        and "competing (kt # ops) m k = insert u (insert t' ?A)"
        by (auto simp: competing_def reserve_same best_def kt True)
      with IH True step best_least[of t u t' ?A] show ?thesis by (simp only:)
    qed
  qed
qed

lemma reserve_all_none:
  "fold (\<lambda>(k, t). reserve k t) ops m k = None \<longleftrightarrow> competing ops m k = {}"
proof (induction ops arbitrary: m)
  case Nil
  then show ?case by (cases "m k") (simp_all add: competing_def)
next
  case (Cons kt ops)
  obtain k' t' where kt: "kt = (k', t')" by fastforce
  have "competing ops (reserve k t' m) k \<noteq> {}"
    by (simp add: competing_def reserve_same)
  with Cons.IH[of "reserve k' t' m"] show ?case
    by (cases "k' = k") (simp_all add: kt competing_Cons)
qed

text \<open>Some competitor for a key beats \<open>t\<close> exactly when the stored one does.\<close>

lemma reserve_all_beats:
  "(\<exists>u. fold (\<lambda>(k, t). reserve k t) ops m k = Some u \<and> \<not> le t u) \<longleftrightarrow>
     (\<exists>u \<in> competing ops m k. \<not> le t u)" (is "?L \<longleftrightarrow> ?R")
proof
  assume ?L
  then show ?R using reserve_all_lookup by blast
next
  assume ?R
  then obtain u where u: "u \<in> competing ops m k" "\<not> le t u" by blast
  then obtain v where v: "fold (\<lambda>(k, t). reserve k t) ops m k = Some v"
    using reserve_all_none[of ops m k] by auto
  then have "le v u" using u(1) reserve_all_lookup by blast
  with u(2) have "\<not> le t v" using le_trans by blast
  with v show ?L by blast
qed

end

end
