(* ===== verification/Coordinator.thy ===== *)
theory Coordinator
  imports Orm Schedule
begin

text \<open>
  What all coordinators share: the commands and states of a worker
  (\<^verbatim>\<open>concurrency_control/worker_fsm.h\<close>), the distribution of requests to workers and the
  collection of their results (\<^verbatim>\<open>concurrency_control/coordinator.h\<close>), the invocation of
  a chaincode for a transaction (\<^verbatim>\<open>chaincode_worker_fsm.h\<close>), and the two serial
  coordinators, which execute one request after the other.

  The registry of chaincodes is an argument: it maps a chaincode name to the program
  that an invocation runs, and a missing name is the failed \<^verbatim>\<open>CHECK\<close> of
  \<^verbatim>\<open>createOrGetChaincode\<close>.
\<close>

section \<open>Workers\<close>

datatype InvokerCommand = IDLE | START | EXEC | COMMIT_CMD | CUSTOM | EXIT

datatype ReceiverState = READY | FINISH_EXEC | FINISH_COMMIT | FINISH_CUSTOM | EXITED

text \<open>
  One turn of the loop of \<^verbatim>\<open>Worker::run\<close>: the state that is reported for a command and
  whether the loop goes on. An idle command is not reported.
\<close>

definition worker_turn :: "InvokerCommand \<Rightarrow> ReceiverState option \<times> bool" where
  "worker_turn c =
     (case c of
        IDLE \<Rightarrow> (None, True)
      | START \<Rightarrow> (Some READY, True)
      | EXEC \<Rightarrow> (Some FINISH_EXEC, True)
      | COMMIT_CMD \<Rightarrow> (Some FINISH_COMMIT, True)
      | CUSTOM \<Rightarrow> (Some FINISH_CUSTOM, True)
      | EXIT \<Rightarrow> (Some EXITED, False))"

fun worker_run :: "InvokerCommand list \<Rightarrow> ReceiverState list" where
  "worker_run [] = []"
| "worker_run (c # cs) =
     (case worker_turn c of
        (r, go) \<Rightarrow> (case r of None \<Rightarrow> [] | Some s \<Rightarrow> [s]) @ (if go then worker_run cs else []))"

text \<open>
  \<^verbatim>\<open>processParallel\<close> succeeds when every worker reports the expected state.
\<close>

definition processParallel_ok :: "nat \<Rightarrow> InvokerCommand \<Rightarrow> ReceiverState \<Rightarrow> bool" where
  "processParallel_ok workers c expect =
     list_all (\<lambda>_. fst (worker_turn c) = Some expect) [0..<workers]"

section \<open>Invocation of a chaincode\<close>

type_synonym registry = "string \<Rightarrow> chaincode option"

definition txn_prog :: "chaincode \<Rightarrow> Transaction \<Rightarrow> prog" where
  "txn_prog cc txn = cc (funcName (userRequest txn)) (req_args (userRequest txn))"

text \<open>
  Look the chaincode up, invoke it on the database and move its read-write sets and
  result into the transaction. The code of the invocation is returned beside it. No
  caller catches exceptions, so one that leaves the chaincode ends the process.
\<close>

definition invoke_txn :: "registry \<Rightarrow> DB \<Rightarrow> Transaction \<Rightarrow> (int \<times> Transaction) option" where
  "invoke_txn ccs db txn =
     (case ccs (ccName (userRequest txn)) of
        None \<Rightarrow> None
      | Some cc \<Rightarrow>
          (case run_prog (txn_prog cc txn) (NewORMFromDBInterface db) of
             (None, _) \<Rightarrow> None
           | (Some ret, orm) \<Rightarrow>
               (let ((res, rs, ws), _) = orm_reset orm
                in Some (ret, setRWSets res rs ws txn))))"

text \<open>
  All elements through a partial function, left to right; a failure stops the loop.
\<close>

fun map_opt :: "('a \<Rightarrow> 'b option) \<Rightarrow> 'a list \<Rightarrow> 'b list option" where
  "map_opt f [] = Some []"
| "map_opt f (x # xs) =
     (case f x of None \<Rightarrow> None
      | Some y \<Rightarrow> (case map_opt f xs of None \<Rightarrow> None | Some ys \<Rightarrow> Some (y # ys)))"

lemma map_opt_Some: "map_opt f xs = Some ys \<longleftrightarrow> map f xs = map Some ys"
proof (induction xs arbitrary: ys)
  case (Cons x xs)
  show ?case
  proof (cases ys)
    case (Cons z zs)
    with Cons.IH[of zs] show ?thesis by (auto split: option.splits)
  qed (simp split: option.splits)
qed auto

lemma map_opt_None: "map_opt f xs = None \<longleftrightarrow> (\<exists>x \<in> set xs. f x = None)"
  by (induction xs) (auto split: option.splits)

lemma map_opt_the: "map_opt f xs = Some ys \<Longrightarrow> ys = map (the \<circ> f) xs"
  by (metis list.map_comp list.map_id0 map_opt_Some option.sel comp_def id_def map_idI)

section \<open>Distribution and collection\<close>

definition deal :: "nat \<Rightarrow> nat \<Rightarrow> 'a list \<Rightarrow> 'a list" where
  "deal workers w xs = map (\<lambda>i. xs ! i) (stride workers w (length xs))"

fun write_back :: "nat list \<Rightarrow> 'a list \<Rightarrow> 'a list \<Rightarrow> 'a list" where
  "write_back (i # is) (y # ys) arr = write_back is ys (arr[i := y])"
| "write_back _ _ arr = arr"

definition collect :: "nat \<Rightarrow> 'a list list \<Rightarrow> 'a list \<Rightarrow> 'a list" where
  "collect workers yss arr =
     fold (\<lambda>w. write_back (stride workers w (length arr)) (yss ! w)) [0..<workers] arr"

lemma length_write_back [simp]: "length (write_back is ys arr) = length arr"
  by (induction "is" ys arr rule: write_back.induct) auto

lemma write_back_nth:
  assumes "distinct is" and "\<forall>i \<in> set is. i < length arr" and "k < length arr"
  shows "write_back is (map f is) arr ! k = (if k \<in> set is then f k else arr ! k)"
  using assms
proof (induction "is" arbitrary: arr)
  case (Cons i "is")
  then show ?case by (auto simp: nth_list_update)
qed simp

lemma distinct_stride: "distinct (stride s i n)"
  using sorted_stride strict_sorted_iff by blast

lemma collect_prefix_nth:
  assumes "v \<le> workers" and "k < length arr"
    and "\<And>w. w < v \<Longrightarrow> yss ! w = map f (stride workers w (length arr))"
  shows "fold (\<lambda>w. write_back (stride workers w (length arr)) (yss ! w)) [0..<v] arr ! k
     = (if k mod workers < v then f k else arr ! k)"
  using assms
proof (induction v)
  case (Suc v)
  let ?acc = "fold (\<lambda>w. write_back (stride workers w (length arr)) (yss ! w)) [0..<v] arr"
  have len: "length ?acc = length arr"
    by (rule fold_invariant_simple[where P = "\<lambda>a. length a = length arr"]) auto
  have mem: "k \<in> set (stride workers v (length arr)) \<longleftrightarrow> k mod workers = v"
    using Suc.prems(1,2) by (auto simp: stride_filter)
  have "write_back (stride workers v (length arr)) (yss ! v) ?acc ! k
      = (if k mod workers = v then f k else ?acc ! k)"
    using Suc.prems len mem
    by (subst Suc.prems(3)) (auto simp: write_back_nth distinct_stride set_stride)
  with Suc show ?case by (auto simp: less_Suc_eq)
qed simp

text \<open>
  Distribution followed by collection puts every result at the index of its request,
  whatever the number of workers.
\<close>

lemma collect_deal:
  assumes "0 < workers" and "length arr = length xs"
    and "\<And>w. w < workers \<Longrightarrow> yss ! w = map f (deal workers w xs)"
  shows "collect workers yss arr = map f xs"
proof (rule nth_equalityI)
  show len: "length (collect workers yss arr) = length (map f xs)"
    unfolding collect_def
    by (rule fold_invariant_simple[where P = "\<lambda>a. length a = length (map f xs)"])
      (simp_all add: assms)
  fix k assume "k < length (collect workers yss arr)"
  with len have k: "k < length xs" by simp
  have "collect workers yss arr ! k = (if k mod workers < workers then f (xs ! k) else arr ! k)"
    unfolding collect_def
    by (rule collect_prefix_nth[where f = "\<lambda>i. f (xs ! i)"])
      (use assms k in \<open>auto simp: deal_def\<close>)
  with assms(1) k show "collect workers yss arr ! k = map f xs ! k" by simp
qed

text \<open>The parts dealt to the workers hold each request exactly once.\<close>

lemma mset_filter_classes:
  assumes "\<And>x. x \<in> set xs \<Longrightarrow> c x < n"
  shows "mset (concat (map (\<lambda>w. filter (\<lambda>x. c x = w) xs) [0..<n])) = mset xs"
  using assms
proof (induction n arbitrary: xs)
  case 0
  then show ?case by (cases xs) auto
next
  case (Suc n)
  have low: "map (\<lambda>w. filter (\<lambda>x. c x = w) (filter (\<lambda>x. c x < n) xs)) [0..<n]
      = map (\<lambda>w. filter (\<lambda>x. c x = w) xs) [0..<n]"
    by (auto intro!: filter_cong)
  have top: "filter (\<lambda>x. c x = n) xs = filter (\<lambda>x. \<not> c x < n) xs"
    using Suc.prems by (intro filter_cong) (auto simp: less_Suc_eq)
  have "mset (concat (map (\<lambda>w. filter (\<lambda>x. c x = w) xs) [0..<Suc n]))
      = mset (filter (\<lambda>x. c x < n) xs) + mset (filter (\<lambda>x. \<not> c x < n) xs)"
    using Suc.IH[of "filter (\<lambda>x. c x < n) xs"]
    unfolding low upt_Suc_append[OF le0] map_append concat_append mset_append
    by (simp add: top)
  also have "\<dots> = mset xs"
    unfolding mset_filter by (rule multiset_partition[symmetric])
  finally show ?case .
qed

lemma mset_deal:
  assumes "0 < workers"
  shows "mset (concat (map (\<lambda>w. deal workers w xs) [0..<workers])) = mset xs"
proof -
  let ?part = "\<lambda>w. filter (\<lambda>j. j mod workers = w) [0..<length xs]"
  have "map (\<lambda>w. deal workers w xs) [0..<workers] = map (\<lambda>w. map ((!) xs) (?part w)) [0..<workers]"
    by (simp add: deal_def stride_filter)
  from arg_cong[OF this, of concat]
  have "concat (map (\<lambda>w. deal workers w xs) [0..<workers])
      = map ((!) xs) (concat (map ?part [0..<workers]))"
    by (simp only: map_concat map_map comp_def)
  moreover have "mset (concat (map ?part [0..<workers])) = mset [0..<length xs]"
    by (rule mset_filter_classes) (use assms in simp)
  ultimately show ?thesis
    by (metis map_nth mset_map)
qed

lemma deal_map: "deal workers w (map f xs) = map f (deal workers w xs)"
proof (cases "workers = 0")
  case True
  then show ?thesis by (simp add: deal_def stride.simps)
next
  case False
  then show ?thesis by (auto simp: deal_def set_stride)
qed

lemma map_opt_map: "map_opt f (map g xs) = map_opt (\<lambda>x. f (g x)) xs"
  by (induction xs) (auto split: option.splits)

text \<open>Treating the parts separately succeeds exactly when treating the whole list does.\<close>

lemma map_opt_deal:
  assumes "0 < workers"
  shows "map_opt (\<lambda>w. map_opt f (deal workers w xs)) [0..<workers] =
     map_option (\<lambda>ys. map (\<lambda>w. deal workers w ys) [0..<workers]) (map_opt f xs)"
proof (cases "map_opt f xs")
  case None
  then obtain x where x: "x \<in> set xs" "f x = None" by (auto simp: map_opt_None)
  then have "x \<in># mset (concat (map (\<lambda>w. deal workers w xs) [0..<workers]))"
    using assms by (simp only: mset_deal set_mset_mset)
  then obtain w where "w < workers" "x \<in> set (deal workers w xs)" by auto
  with x have "map_opt (\<lambda>w. map_opt f (deal workers w xs)) [0..<workers] = None"
    unfolding map_opt_None by (auto simp: map_opt_None)
  with None show ?thesis by simp
next
  case (Some ys)
  then have "map_opt f (deal workers w xs) = Some (deal workers w ys)" for w
    by (metis deal_map map_opt_Some)
  then have "map_opt (\<lambda>w. map_opt f (deal workers w xs)) [0..<workers]
      = Some (map (\<lambda>w. deal workers w ys) [0..<workers])"
    by (subst map_opt_Some) simp
  with Some show ?thesis by simp
qed

end
