(* ===== verification/ReserveTable.thy ===== *)
theory ReserveTable
  imports Coordinator
begin

text \<open>
  The reserve table of the deterministic (Aria) engine,
  \<^verbatim>\<open>deterministic/reserve_table.h\<close>, and its copy in \<^verbatim>\<open>my_cc/deterministic/reserve_table.h\<close>.
  For every key the tables keep the smallest transaction identifier that read it and
  the smallest that wrote it; the dependency analysis compares a transaction with them.
\<close>

section \<open>Tables\<close>

type_synonym table = "string \<rightharpoonup> tid_type"

record ReserveTable =
  readTable :: table
  writeTable :: table

definition ReserveTable_reset :: ReserveTable where
  "ReserveTable_reset = \<lparr>readTable = Map.empty, writeTable = Map.empty\<rparr>"

text \<open>
  \<^verbatim>\<open>try_emplace_l\<close>: insert the identifier if the key is new, else run the lambda on the
  stored one, which keeps it unless it is larger.
\<close>

definition reserve_min :: "string \<Rightarrow> tid_type \<Rightarrow> table \<Rightarrow> table" where
  "reserve_min k t m =
     (case m k of
        None \<Rightarrow> m(k \<mapsto> t)
      | Some u \<Rightarrow> if CompareTID u t \<le> 0 then m else m(k \<mapsto> t))"

definition reserveRWSets :: "KVList \<Rightarrow> KVList \<Rightarrow> tid_type \<Rightarrow> ReserveTable \<Rightarrow> ReserveTable" where
  "reserveRWSets rs ws t rt =
     \<lparr>readTable = fold (\<lambda>kv. reserve_min (kv_key kv) t) rs (readTable rt),
      writeTable = fold (\<lambda>kv. reserve_min (kv_key kv) t) ws (writeTable rt)\<rparr>"

record Dependency =
  dep_waw :: bool
  dep_war :: bool
  dep_raw :: bool

text \<open>One of the three scans of \<^verbatim>\<open>analysisDependent\<close>, with its break.\<close>

fun dep_scan :: "table \<Rightarrow> KVList \<Rightarrow> tid_type \<Rightarrow> bool" where
  "dep_scan m [] t = False"
| "dep_scan m (kv # kvs) t =
     (if (case m (kv_key kv) of None \<Rightarrow> False | Some u \<Rightarrow> CompareTID u t < 0) then True
      else dep_scan m kvs t)"

definition analysisDependent :: "KVList \<Rightarrow> KVList \<Rightarrow> tid_type \<Rightarrow> ReserveTable \<Rightarrow> Dependency" where
  "analysisDependent rs ws t rt =
     \<lparr>dep_waw = dep_scan (writeTable rt) ws t,
      dep_war = dep_scan (readTable rt) ws t,
      dep_raw = dep_scan (writeTable rt) rs t\<rparr>"

section \<open>The tables meet the reservation contract\<close>

interpretation rmin: keyed_reservation "(\<le>)" reserve_min
  by unfold_locales
    (auto simp: reserve_min_def cc_simps split: option.splits)

definition kv_ops :: "KVList \<Rightarrow> tid_type \<Rightarrow> (string \<times> tid_type) list" where
  "kv_ops kvs t = map (\<lambda>kv. (kv_key kv, t)) kvs"

lemma fold_reserve_kvs:
  "fold (\<lambda>kv. reserve_min (kv_key kv) t) kvs m = fold (\<lambda>(k, t). reserve_min k t) (kv_ops kvs t) m"
  by (simp add: kv_ops_def fold_map comp_def)

lemma reserveRWSets_ops:
  "readTable (reserveRWSets rs ws t rt) = fold (\<lambda>(k, t). reserve_min k t) (kv_ops rs t) (readTable rt)"
  "writeTable (reserveRWSets rs ws t rt) = fold (\<lambda>(k, t). reserve_min k t) (kv_ops ws t) (writeTable rt)"
  by (simp_all add: reserveRWSets_def fold_reserve_kvs)

lemma dep_scan_iff: "dep_scan m kvs t \<longleftrightarrow> (\<exists>k \<in> kvs_keys kvs. \<exists>u. m k = Some u \<and> u < t)"
  by (induction kvs) (auto simp: cc_simps split: option.splits)

text \<open>The table after reserving the sets of a list of transactions.\<close>

definition reserved :: "(KVList \<times> KVList \<times> tid_type) list \<Rightarrow> ReserveTable \<Rightarrow> ReserveTable" where
  "reserved xs rt = fold (\<lambda>(rs, ws, t). reserveRWSets rs ws t) xs rt"

lemma reserved_ops:
  "readTable (reserved xs rt) =
     fold (\<lambda>(k, t). reserve_min k t) (concat (map (\<lambda>(rs, ws, t). kv_ops rs t) xs)) (readTable rt)"
  "writeTable (reserved xs rt) =
     fold (\<lambda>(k, t). reserve_min k t) (concat (map (\<lambda>(rs, ws, t). kv_ops ws t) xs)) (writeTable rt)"
  unfolding reserved_def
  by (induction xs arbitrary: rt) (auto simp: reserveRWSets_ops)

lemma reserved_perm:
  assumes "mset xs = mset ys"
  shows "reserved xs rt = reserved ys rt"
proof -
  have "readTable (reserved xs rt) = readTable (reserved ys rt)"
    unfolding reserved_ops by (intro rmin.reserve_all_perm mset_concat_map_cong assms)
  moreover have "writeTable (reserved xs rt) = writeTable (reserved ys rt)"
    unfolding reserved_ops by (intro rmin.reserve_all_perm mset_concat_map_cong assms)
  ultimately show ?thesis by simp
qed

text \<open>
  A scan of freshly filled tables finds a conflict exactly when a transaction with a
  smaller identifier read or wrote one of the scanned keys.
\<close>

lemma kv_ops_mem: "(k, u) \<in> set (kv_ops kvs t) \<longleftrightarrow> k \<in> kvs_keys kvs \<and> u = t"
  by (auto simp: kv_ops_def kvs_keys_def)

lemma dep_scan_ops:
  "dep_scan (fold (\<lambda>(k, t). reserve_min k t) ops Map.empty) kvs t \<longleftrightarrow>
     (\<exists>(k, u) \<in> set ops. k \<in> kvs_keys kvs \<and> u < t)"
proof -
  have "(\<exists>u. fold (\<lambda>(k, t). reserve_min k t) ops Map.empty k = Some u \<and> u < t)
      \<longleftrightarrow> (\<exists>u. (k, u) \<in> set ops \<and> u < t)" for k
    using rmin.reserve_all_beats[of ops Map.empty k t]
    by (simp add: rmin.competing_def not_le)
  then show ?thesis by (auto simp: dep_scan_iff)
qed

lemma dep_scan_reserved:
  "dep_scan (writeTable (reserved xs ReserveTable_reset)) kvs t \<longleftrightarrow>
     (\<exists>(rs, ws, u) \<in> set xs. u < t \<and> kvs_keys ws \<inter> kvs_keys kvs \<noteq> {})"
  "dep_scan (readTable (reserved xs ReserveTable_reset)) kvs t \<longleftrightarrow>
     (\<exists>(rs, ws, u) \<in> set xs. u < t \<and> kvs_keys rs \<inter> kvs_keys kvs \<noteq> {})"
proof -
  have empty: "writeTable ReserveTable_reset = Map.empty" "readTable ReserveTable_reset = Map.empty"
    by (simp_all add: ReserveTable_reset_def)
  show "dep_scan (writeTable (reserved xs ReserveTable_reset)) kvs t \<longleftrightarrow>
     (\<exists>(rs, ws, u) \<in> set xs. u < t \<and> kvs_keys ws \<inter> kvs_keys kvs \<noteq> {})"
    unfolding reserved_ops empty dep_scan_ops by (fastforce simp: kv_ops_mem)
  show "dep_scan (readTable (reserved xs ReserveTable_reset)) kvs t \<longleftrightarrow>
     (\<exists>(rs, ws, u) \<in> set xs. u < t \<and> kvs_keys rs \<inter> kvs_keys kvs \<noteq> {})"
    unfolding reserved_ops empty dep_scan_ops by (fastforce simp: kv_ops_mem)
qed

end
