(* ===== verification/Serial.thy ===== *)
theory Serial
  imports Coordinator
begin

text \<open>
  The serial coordinators (\<^verbatim>\<open>serial/serial_coordinator.h\<close> and
  \<^verbatim>\<open>my_cc/serial/coordinator_impl.h\<close>): build all transactions, execute them one after
  the other on the current database, applying each write set before the next
  execution, then return envelopes, read-write sets and commit flags in request order.
  Serial execution is the reference against which the parallel coordinators are judged.
\<close>

section \<open>One transaction\<close>

definition serial_step :: "registry \<Rightarrow> Transaction \<Rightarrow> DB \<Rightarrow> (Transaction \<times> DB) option" where
  "serial_step ccs txn db =
     (case invoke_txn ccs db txn of
        None \<Rightarrow> None
      | Some (ret, txn1) \<Rightarrow>
          if ret \<noteq> 0 then Some (setExecutionResult ABORT_NO_RETRY txn1, db)
          else if getWrites txn1 = [] then Some (setExecutionResult COMMIT txn1, db)
          else
            (let (_, db') = syncWriteBatch (\<lambda>b. (True, batch_kvs (getWrites txn1) b)) db
             in Some (setExecutionResult COMMIT txn1, db')))"

fun serial_loop :: "registry \<Rightarrow> Transaction list \<Rightarrow> DB \<Rightarrow> (Transaction list \<times> DB) option" where
  "serial_loop ccs [] db = Some ([], db)"
| "serial_loop ccs (t # ts) db =
     (case serial_step ccs t db of
        None \<Rightarrow> None
      | Some (t', db') \<Rightarrow>
          (case serial_loop ccs ts db' of
             None \<Rightarrow> None
           | Some (ts', db'') \<Rightarrow> Some (t' # ts', db'')))"

section \<open>The coordinators\<close>

text \<open>
  The vectors a coordinator fills hold owning pointers; \<^const>\<open>None\<close> is the null pointer
  that a moved-from or freshly resized slot holds.
\<close>

record batch_result =
  br_ok :: bool
  br_requests :: "Envelop option list"
  br_rwsets :: "TxReadWriteSet option list"
  br_results :: "bool list"
  br_db :: DB

text \<open>The final loop: envelope, read-write set and commit flag of each transaction.\<close>

definition finish_txn :: "Transaction \<Rightarrow> Envelop \<times> TxReadWriteSet \<times> bool" where
  "finish_txn txn =
     (let (env, rw) = DestroyTransaction txn in (env, rw, hasResult txn COMMIT))"

definition finish_all :: "Transaction list \<Rightarrow> DB \<Rightarrow> batch_result" where
  "finish_all txns db =
     (let outs = map finish_txn txns in
      \<lparr>br_ok = True, br_requests = map (\<lambda>(env, rw, c). Some env) outs,
       br_rwsets = map (\<lambda>(env, rw, c). Some rw) outs,
       br_results = map (\<lambda>(env, rw, c). c) outs, br_db = db\<rparr>)"

text \<open>
  In \<^verbatim>\<open>serial_coordinator.h\<close> an undecodable request is pushed as a null transaction
  (only a \<^verbatim>\<open>DCHECK\<close> guards it) and dereferenced in the execution loop, which crashes;
  in \<^verbatim>\<open>my_cc/serial\<close> a \<^verbatim>\<open>CHECK\<close> aborts. Both are \<^const>\<open>None\<close>.
\<close>

definition SerialCoordinator_processValidatedRequests ::
  "(string \<Rightarrow> UserRequest option) \<Rightarrow> registry \<Rightarrow> Envelop list \<Rightarrow> DB \<Rightarrow> batch_result option" where
  "SerialCoordinator_processValidatedRequests decode ccs requests db =
     (case map_opt (NewTransactionFromEnvelop decode) requests of
        None \<Rightarrow> None
      | Some txns \<Rightarrow>
          (case serial_loop ccs txns db of
             None \<Rightarrow> None
           | Some (txns', db') \<Rightarrow> Some (finish_all txns' db')))"

section \<open>Behaviour\<close>

lemma syncWriteBatch_kvs:
  "syncWriteBatch (\<lambda>b. (True, batch_kvs ws b)) db = (True, apply_writes ws db)"
  by (simp add: syncWriteBatch_def apply_writes_def)

lemma invoke_txn_fields:
  assumes "invoke_txn ccs db txn = Some (ret, txn1)"
  shows "tid txn1 = tid txn" "envelop txn1 = envelop txn" "userRequest txn1 = userRequest txn"
    "hasResult txn1 r = hasResult txn r"
  using assms
  by (auto simp: invoke_txn_def Let_def orm_reset_def split: option.splits prod.splits)

text \<open>
  Two databases that agree on the keys a transaction looks up give the same invocation.
\<close>

lemma invoke_txn_cong:
  assumes "ccs (ccName (userRequest txn)) = Some cc"
    and "\<forall>k \<in> set (lookups (txn_prog cc txn) db). visible db' k = visible db k"
  shows "invoke_txn ccs db' txn = invoke_txn ccs db txn"
proof -
  let ?p = "txn_prog cc txn"
  let ?orm = "NewORMFromDBInterface db"
  have new: "NewORMFromDBInterface db' = ?orm\<lparr>orm_db := db'\<rparr>"
    by (simp add: NewORMFromDBInterface_def)
  have "run_prog ?p (NewORMFromDBInterface db') =
      (fst (run_prog ?p ?orm), (snd (run_prog ?p ?orm))\<lparr>orm_db := db'\<rparr>)"
    unfolding new using run_prog_cong[of ?p ?orm db'] assms(2)
    by (simp add: NewORMFromDBInterface_def)
  with assms(1) show ?thesis
    by (simp add: invoke_txn_def orm_reset_def case_prod_beta Let_def split: option.split)
qed

text \<open>The keys a transaction looks up on a database: found ones and missed ones.\<close>

definition txn_lookups :: "registry \<Rightarrow> DB \<Rightarrow> Transaction \<Rightarrow> string set" where
  "txn_lookups ccs db txn =
     (case ccs (ccName (userRequest txn)) of None \<Rightarrow> {}
      | Some cc \<Rightarrow> set (lookups (txn_prog cc txn) db))"

definition txn_missed :: "registry \<Rightarrow> DB \<Rightarrow> Transaction \<Rightarrow> string set" where
  "txn_missed ccs db txn =
     (case ccs (ccName (userRequest txn)) of None \<Rightarrow> {}
      | Some cc \<Rightarrow> set (missed (txn_prog cc txn) db))"

lemma txn_lookups_split:
  assumes "invoke_txn ccs db txn = Some (ret, txn1)"
  shows "txn_lookups ccs db txn = kvs_keys (getReads txn1) \<union> txn_missed ccs db txn"
  using assms lookups_split
  by (auto simp: invoke_txn_def txn_lookups_def txn_missed_def Let_def orm_reset_def kvs_keys_def
      case_prod_beta split: option.splits)

lemma invoke_txn_agree:
  assumes "\<forall>k \<in> txn_lookups ccs db txn. db' k = db k"
  shows "invoke_txn ccs db' txn = invoke_txn ccs db txn"
proof (cases "ccs (ccName (userRequest txn))")
  case None
  then show ?thesis by (simp add: invoke_txn_def)
next
  case (Some cc)
  with assms show ?thesis
    by (intro invoke_txn_cong) (auto simp: txn_lookups_def visible_def)
qed

text \<open>One step of the serial coordinator has the outcome of its invocation.\<close>

lemma serial_step_outcome:
  assumes "ccs (ccName (userRequest txn)) = Some cc"
  shows "map_option snd (serial_step ccs txn db) =
     (case outcome (txn_prog cc txn) db of (None, _) \<Rightarrow> None | (Some _, db') \<Rightarrow> Some db')"
  using assms
  by (auto simp: serial_step_def invoke_txn_def outcome_def orm_reset_def Let_def case_prod_beta
      syncWriteBatch_kvs split: option.split)

end
