(* ===== verification/Aria.thy ===== *)
theory Aria
  imports ReserveTable Serial
begin

text \<open>
  The deterministic (Aria) engine: workers of \<^verbatim>\<open>deterministic/worker_fsm_impl.h\<close> driven
  by \<^verbatim>\<open>deterministic/coordinator_impl.h\<close> and \<^verbatim>\<open>coordinator.h\<close>. All transactions of a
  batch execute on the same database snapshot and reserve their read and write sets;
  after a barrier every worker decides, from the reserve table alone, which of its
  transactions commit, and writes their write sets.

  The engine is compared with two references: \<open>aria_spec\<close>, one pass over the requests
  without workers, and the serial coordinator.
\<close>

section \<open>Execution phase\<close>

definition exec_step ::
  "registry \<Rightarrow> DB \<Rightarrow> Transaction \<Rightarrow> ReserveTable \<Rightarrow> (Transaction \<times> ReserveTable) option" where
  "exec_step ccs db txn rt =
     (case invoke_txn ccs db txn of
        None \<Rightarrow> None
      | Some (ret, txn1) \<Rightarrow>
          if ret \<noteq> 0 then Some (setExecutionResult ABORT_NO_RETRY txn1, rt)
          else if getWrites txn1 = [] then Some (setExecutionResult COMMIT txn1, rt)
          else Some (txn1, reserveRWSets (getReads txn1) (getWrites txn1) (tid txn1) rt))"

fun OnExecuteTransaction ::
  "registry \<Rightarrow> DB \<Rightarrow> Transaction list \<Rightarrow> ReserveTable \<Rightarrow> (Transaction list \<times> ReserveTable) option" where
  "OnExecuteTransaction ccs db [] rt = Some ([], rt)"
| "OnExecuteTransaction ccs db (t # ts) rt =
     (case exec_step ccs db t rt of
        None \<Rightarrow> None
      | Some (t', rt') \<Rightarrow>
          (case OnExecuteTransaction ccs db ts rt' of
             None \<Rightarrow> None
           | Some (ts', rt'') \<Rightarrow> Some (t' # ts', rt'')))"

section \<open>Commit phase\<close>

definition commit_step :: "ReserveTable \<Rightarrow> Transaction \<Rightarrow> WriteBatch \<Rightarrow> Transaction \<times> WriteBatch" where
  "commit_step rt txn b =
     (if hasResult txn ABORT_NO_RETRY then (txn, b)
      else if getWrites txn = [] then (setExecutionResult COMMIT txn, b)
      else
        (let dep = analysisDependent (getReads txn) (getWrites txn) (tid txn) rt in
         if dep_waw dep then (setExecutionResult ABORT txn, b)
         else if \<not> dep_war dep \<or> \<not> dep_raw dep
           then (setExecutionResult COMMIT txn, batch_kvs (getWrites txn) b)
         else (setExecutionResult ABORT txn, b)))"

fun commit_loop :: "ReserveTable \<Rightarrow> Transaction list \<Rightarrow> WriteBatch \<Rightarrow> Transaction list \<times> WriteBatch" where
  "commit_loop rt [] b = ([], b)"
| "commit_loop rt (t # ts) b =
     (let (t', b') = commit_step rt t b; (ts', b'') = commit_loop rt ts b' in (t' # ts', b''))"

definition OnCommitTransaction :: "ReserveTable \<Rightarrow> Transaction list \<Rightarrow> DB \<Rightarrow> Transaction list \<times> DB" where
  "OnCommitTransaction rt txns db =
     (fst (commit_loop rt txns empty_batch),
      snd (syncWriteBatch (\<lambda>b. (True, snd (commit_loop rt txns b))) db))"

section \<open>The coordinator\<close>

text \<open>The workers of a phase, in the order of their indices.\<close>

fun exec_phase ::
  "registry \<Rightarrow> DB \<Rightarrow> Transaction list list \<Rightarrow> ReserveTable \<Rightarrow>
     (Transaction list list \<times> ReserveTable) option" where
  "exec_phase ccs db [] rt = Some ([], rt)"
| "exec_phase ccs db (p # ps) rt =
     (case OnExecuteTransaction ccs db p rt of
        None \<Rightarrow> None
      | Some (p', rt') \<Rightarrow>
          (case exec_phase ccs db ps rt' of
             None \<Rightarrow> None
           | Some (ps', rt'') \<Rightarrow> Some (p' # ps', rt'')))"

fun commit_phase :: "ReserveTable \<Rightarrow> Transaction list list \<Rightarrow> DB \<Rightarrow> Transaction list list \<times> DB" where
  "commit_phase rt [] db = ([], db)"
| "commit_phase rt (p # ps) db =
     (let (p', db') = OnCommitTransaction rt p db; (ps', db'') = commit_phase rt ps db'
      in (p' # ps', db''))"

definition processSync_ok :: "nat \<Rightarrow> bool" where
  "processSync_ok workers \<longleftrightarrow>
     processParallel_ok workers START READY \<and>
     processParallel_ok workers EXEC FINISH_EXEC \<and>
     processParallel_ok workers COMMIT_CMD FINISH_COMMIT"

text \<open>
  \<^verbatim>\<open>afterStart\<close> of \<^verbatim>\<open>processValidatedRequests\<close>: every worker takes its requests and
  decodes them.
\<close>

definition start_phase ::
  "(string \<Rightarrow> UserRequest option) \<Rightarrow> nat \<Rightarrow> Envelop list \<Rightarrow> Transaction list list option" where
  "start_phase decode workers requests =
     map_opt (\<lambda>w. map_opt (NewTransactionFromEnvelop decode) (deal workers w requests)) [0..<workers]"

text \<open>\<^verbatim>\<open>afterCommit\<close>: every worker writes its results back at the indices it took.\<close>

definition collect_results :: "nat \<Rightarrow> nat \<Rightarrow> Transaction list list \<Rightarrow> DB \<Rightarrow> batch_result" where
  "collect_results workers n parts db =
     (let outs = map (map finish_txn) parts in
      \<lparr>br_ok = processSync_ok workers,
       br_requests = collect workers (map (map (\<lambda>(env, rw, c). Some env)) outs) (replicate n None),
       br_rwsets = collect workers (map (map (\<lambda>(env, rw, c). Some rw)) outs) (replicate n None),
       br_results = collect workers (map (map (\<lambda>(env, rw, c). c)) outs) (replicate n False),
       br_db = db\<rparr>)"

definition CoordinatorImpl_processValidatedRequests ::
  "(string \<Rightarrow> UserRequest option) \<Rightarrow> registry \<Rightarrow> nat \<Rightarrow> Envelop list \<Rightarrow> DB \<Rightarrow> batch_result option" where
  "CoordinatorImpl_processValidatedRequests decode ccs workers requests db =
     (case start_phase decode workers requests of
        None \<Rightarrow> None
      | Some parts \<Rightarrow>
          (case exec_phase ccs db parts ReserveTable_reset of
             None \<Rightarrow> None
           | Some (parts1, rt) \<Rightarrow>
               (let (parts2, db') = commit_phase rt parts1 db
                in Some (collect_results workers (length requests) parts2 db'))))"

section \<open>The phases without the table threaded through them\<close>

definition exec_result :: "registry \<Rightarrow> DB \<Rightarrow> Transaction \<Rightarrow> Transaction option" where
  "exec_result ccs db txn = map_option fst (exec_step ccs db txn ReserveTable_reset)"

text \<open>A transaction that reserves: it succeeded and writes something.\<close>

definition reserving :: "Transaction \<Rightarrow> bool" where
  "reserving t \<longleftrightarrow> \<not> hasResult t ABORT_NO_RETRY \<and> getWrites t \<noteq> []"

definition rw_of :: "Transaction \<Rightarrow> KVList \<times> KVList \<times> tid_type" where
  "rw_of t = (getReads t, getWrites t, tid t)"

definition table_of :: "Transaction list \<Rightarrow> ReserveTable \<Rightarrow> ReserveTable" where
  "table_of ts rt = reserved (map rw_of (filter reserving ts)) rt"

definition pending :: "Transaction \<Rightarrow> bool" where
  "pending t \<longleftrightarrow> hasResult t PENDING"

definition commit_result :: "ReserveTable \<Rightarrow> Transaction \<Rightarrow> Transaction" where
  "commit_result rt t = fst (commit_step rt t empty_batch)"

text \<open>A transaction whose write set reaches the database.\<close>

definition wins :: "ReserveTable \<Rightarrow> Transaction \<Rightarrow> bool" where
  "wins rt t \<longleftrightarrow> reserving t \<and>
     (let dep = analysisDependent (getReads t) (getWrites t) (tid t) rt in
      \<not> dep_waw dep \<and> (\<not> dep_war dep \<or> \<not> dep_raw dep))"

lemma table_of_append [simp]: "table_of (xs @ ys) rt = table_of ys (table_of xs rt)"
  by (simp add: table_of_def reserved_def)

lemma table_of_Cons [simp]:
  "table_of (t # ts) rt =
     table_of ts (if reserving t then reserveRWSets (getReads t) (getWrites t) (tid t) rt else rt)"
  by (simp add: table_of_def reserved_def rw_of_def)

lemma table_of_Nil [simp]: "table_of [] rt = rt"
  by (simp add: table_of_def reserved_def)

lemma exec_step_split:
  assumes "pending t"
  shows "exec_step ccs db t rt =
     (case exec_result ccs db t of None \<Rightarrow> None
      | Some t' \<Rightarrow> Some (t', table_of [t'] rt))"
proof (cases "invoke_txn ccs db t")
  case None
  then show ?thesis by (simp add: exec_step_def exec_result_def)
next
  case (Some rt1)
  obtain ret t1 where rt1: "rt1 = (ret, t1)" by fastforce
  have "\<not> hasResult t1 ABORT_NO_RETRY"
    using invoke_txn_fields(4)[of ccs db t ret t1 ABORT_NO_RETRY] Some rt1 assms
    by (auto simp: pending_def dest: hasResult_unique)
  with Some rt1 show ?thesis
    by (simp add: exec_step_def exec_result_def reserving_def)
qed

lemma OnExecuteTransaction_split:
  assumes "\<forall>t \<in> set ts. pending t"
  shows "OnExecuteTransaction ccs db ts rt =
     (case map_opt (exec_result ccs db) ts of None \<Rightarrow> None
      | Some ts' \<Rightarrow> Some (ts', table_of ts' rt))"
  using assms
proof (induction ts arbitrary: rt)
  case (Cons t ts)
  then show ?case
    by (auto simp: exec_step_split split: option.splits)
qed simp

lemma exec_phase_split:
  assumes "\<forall>p \<in> set parts. \<forall>t \<in> set p. pending t"
  shows "exec_phase ccs db parts rt =
     (case map_opt (map_opt (exec_result ccs db)) parts of None \<Rightarrow> None
      | Some parts' \<Rightarrow> Some (parts', table_of (concat parts') rt))"
  using assms
proof (induction parts arbitrary: rt)
  case (Cons p parts)
  then show ?case
    by (auto simp: OnExecuteTransaction_split split: option.splits)
qed simp

lemma commit_step_split:
  "commit_step rt t b = (commit_result rt t, batch_kvs (if wins rt t then getWrites t else []) b)"
  by (auto simp: commit_step_def commit_result_def wins_def reserving_def Let_def batch_kvs_def)

lemma batch_kvs_append: "batch_kvs (xs @ ys) b = batch_kvs ys (batch_kvs xs b)"
  by (simp add: batch_kvs_def)

lemma commit_loop_split:
  "commit_loop rt ts b =
     (map (commit_result rt) ts, batch_kvs (concat (map getWrites (filter (wins rt) ts))) b)"
  by (induction ts arbitrary: b)
    (auto simp: commit_step_split batch_kvs_append batch_kvs_def Let_def)

lemma OnCommitTransaction_split:
  "OnCommitTransaction rt ts db =
     (map (commit_result rt) ts, apply_writes (concat (map getWrites (filter (wins rt) ts))) db)"
  by (simp add: OnCommitTransaction_def commit_loop_split syncWriteBatch_kvs)

section \<open>Who conflicts with whom\<close>

text \<open>
  The three dependencies of a transaction, read off the batch: an earlier reserving
  transaction wrote a key that this one writes, read a key that this one writes, or
  wrote a key that this one reads.
\<close>

definition write_keys :: "Transaction \<Rightarrow> string set" where
  "write_keys t = kvs_keys (getWrites t)"

definition read_keys :: "Transaction \<Rightarrow> string set" where
  "read_keys t = kvs_keys (getReads t)"

definition earlier_hits ::
  "Transaction list \<Rightarrow> (Transaction \<Rightarrow> string set) \<Rightarrow> string set \<Rightarrow> tid_type \<Rightarrow> bool" where
  "earlier_hits ts keys K t \<longleftrightarrow> (\<exists>u \<in> set ts. reserving u \<and> tid u < t \<and> keys u \<inter> K \<noteq> {})"

lemma bex_rw_of:
  "(\<exists>(rs, ws, u) \<in> set (map rw_of (filter reserving ts)). P rs ws u) \<longleftrightarrow>
     (\<exists>u \<in> set ts. reserving u \<and> P (getReads u) (getWrites u) (tid u))"
  by (auto simp: rw_of_def)

lemma analysisDependent_table:
  "dep_waw (analysisDependent rs ws t (table_of ts ReserveTable_reset))
     = earlier_hits ts write_keys (kvs_keys ws) t"
  "dep_war (analysisDependent rs ws t (table_of ts ReserveTable_reset))
     = earlier_hits ts read_keys (kvs_keys ws) t"
  "dep_raw (analysisDependent rs ws t (table_of ts ReserveTable_reset))
     = earlier_hits ts write_keys (kvs_keys rs) t"
  unfolding analysisDependent_def table_of_def Dependency.simps dep_scan_reserved bex_rw_of
    earlier_hits_def write_keys_def read_keys_def
  by (rule refl)+

lemma wins_table:
  "wins (table_of ts ReserveTable_reset) t \<longleftrightarrow> reserving t \<and>
     \<not> earlier_hits ts write_keys (write_keys t) (tid t) \<and>
     (\<not> earlier_hits ts read_keys (write_keys t) (tid t) \<or>
      \<not> earlier_hits ts write_keys (read_keys t) (tid t))"
  by (simp add: wins_def analysisDependent_table Let_def write_keys_def read_keys_def)

text \<open>No two winners write the same key.\<close>

lemma winners_disjoint:
  assumes "distinct (map tid ts)" and "t \<in> set ts" and "u \<in> set ts" and "t \<noteq> u"
    and "wins (table_of ts ReserveTable_reset) t" and "wins (table_of ts ReserveTable_reset) u"
  shows "write_keys t \<inter> write_keys u = {}"
proof -
  have disj: "write_keys a \<inter> write_keys b = {}"
    if "a \<in> set ts" "wins (table_of ts ReserveTable_reset) a"
      "wins (table_of ts ReserveTable_reset) b" "tid a < tid b" for a b
    using that by (auto simp: wins_table earlier_hits_def)
  have "tid t \<noteq> tid u"
    using assms(1-4) by (auto simp: distinct_map inj_on_def)
  then show ?thesis
    using disj[of t u] disj[of u t] assms by (metis Int_commute linorder_neq_iff)
qed

lemma table_of_perm: "mset ts = mset us \<Longrightarrow> table_of ts rt = table_of us rt"
  unfolding table_of_def by (rule reserved_perm) simp

section \<open>The engine as one pass\<close>

definition commit_all :: "Transaction list \<Rightarrow> DB \<Rightarrow> DB" where
  "commit_all ts db = fold (\<lambda>t. apply_writes (getWrites t)) ts db"

definition aria_spec ::
  "(string \<Rightarrow> UserRequest option) \<Rightarrow> registry \<Rightarrow> Envelop list \<Rightarrow> DB \<Rightarrow> batch_result option" where
  "aria_spec decode ccs requests db =
     (case map_opt (NewTransactionFromEnvelop decode) requests of
        None \<Rightarrow> None
      | Some ts0 \<Rightarrow>
          (case map_opt (exec_result ccs db) ts0 of
             None \<Rightarrow> None
           | Some ts \<Rightarrow>
               (let rt = table_of ts ReserveTable_reset
                in Some (finish_all (map (commit_result rt) ts) (commit_all (filter (wins rt) ts) db)))))"

definition pairwise_disjoint :: "Transaction list \<Rightarrow> bool" where
  "pairwise_disjoint ts \<longleftrightarrow> (\<forall>t \<in> set ts. \<forall>u \<in> set ts. t \<noteq> u \<longrightarrow> write_keys t \<inter> write_keys u = {})"

lemma commit_all_perm:
  assumes "mset ts = mset us" and "pairwise_disjoint ts"
  shows "commit_all ts db = commit_all us db"
proof -
  have "fold (\<lambda>t. apply_writes (getWrites t)) ts = fold (\<lambda>t. apply_writes (getWrites t)) us"
  proof (rule fold_multiset_equiv)
    fix t u assume "t \<in> set ts" "u \<in> set ts"
    with assms(2) have "t = u \<or> kvs_keys (getWrites t) \<inter> kvs_keys (getWrites u) = {}"
      by (auto simp: pairwise_disjoint_def write_keys_def)
    then show "apply_writes (getWrites t) \<circ> apply_writes (getWrites u)
        = apply_writes (getWrites u) \<circ> apply_writes (getWrites t)"
      using apply_writes_commute by (auto simp: comp_def)
  qed (rule assms(1))
  then show ?thesis by (simp add: commit_all_def)
qed

lemma apply_writes_concat:
  assumes "distinct ts" and "pairwise_disjoint ts"
  shows "apply_writes (concat (map getWrites ts)) db = commit_all ts db"
  using assms
proof (induction ts arbitrary: db)
  case (Cons t ts)
  then have "kvs_keys (getWrites t) \<inter> kvs_keys (concat (map getWrites ts)) = {}"
    by (fastforce simp: pairwise_disjoint_def write_keys_def kvs_keys_def)
  with Cons show ?case
    by (simp add: apply_writes_append commit_all_def pairwise_disjoint_def)
qed (simp add: commit_all_def)

lemma commit_phase_split:
  assumes "distinct (concat parts)" and "pairwise_disjoint (filter (wins rt) (concat parts))"
  shows "commit_phase rt parts db =
     (map (map (commit_result rt)) parts, commit_all (filter (wins rt) (concat parts)) db)"
  using assms
proof (induction parts arbitrary: db)
  case (Cons p parts)
  have "pairwise_disjoint (filter (wins rt) p)"
    and "pairwise_disjoint (filter (wins rt) (concat parts))"
    using Cons.prems(2) by (auto simp: pairwise_disjoint_def)
  with Cons show ?case
    by (simp add: OnCommitTransaction_split apply_writes_concat commit_all_def)
qed (simp add: commit_all_def)

lemma exec_result_fields:
  assumes "exec_result ccs db t = Some t'"
  shows "tid t' = tid t" "envelop t' = envelop t" "userRequest t' = userRequest t"
  using assms invoke_txn_fields
  by (auto simp: exec_result_def exec_step_def split: option.splits if_splits)

lemma map_opt_fields:
  assumes "map_opt f xs = Some ys" and "\<And>x y. f x = Some y \<Longrightarrow> g y = h x"
  shows "map g ys = map h xs"
proof -
  have "map f xs = map Some ys" using assms(1) by (simp add: map_opt_Some)
  then show ?thesis
    using assms(2) by (induction xs arbitrary: ys) (auto simp: Cons_eq_map_conv)
qed

lemma map_opt_length:
  assumes "map_opt f xs = Some ys"
  shows "length ys = length xs"
  using arg_cong[OF assms[unfolded map_opt_Some], of length] by simp

lemma NewTransaction_pending:
  assumes "map_opt (NewTransactionFromEnvelop decode) requests = Some ts"
  shows "\<forall>t \<in> set ts. pending t"
proof
  fix t assume "t \<in> set ts"
  with assms have "Some t \<in> NewTransactionFromEnvelop decode ` set requests"
    by (metis image_eqI list.set_map map_opt_Some)
  then show "pending t"
    unfolding pending_def by (metis NewTransactionFromEnvelop_Some(4) imageE)
qed

lemma deal_all:
  assumes "\<forall>t \<in> set ts. P t" and "0 < workers"
  shows "\<forall>p \<in> set (map (\<lambda>w. deal workers w ts) [0..<workers]). \<forall>t \<in> set p. P t"
proof (intro ballI)
  fix p t assume "p \<in> set (map (\<lambda>w. deal workers w ts) [0..<workers])" and "t \<in> set p"
  then have "t \<in> set (concat (map (\<lambda>w. deal workers w ts) [0..<workers]))" by auto
  then have "t \<in> set ts" by (simp only: mset_eq_setD[OF mset_deal[OF assms(2), of ts]])
  with assms(1) show "P t" by simp
qed

lemma commit_result_finish:
  "tid (commit_result rt t) = tid t" "envelop (commit_result rt t) = envelop t"
  "getReads (commit_result rt t) = getReads t" "getWrites (commit_result rt t) = getWrites t"
  "userRequest (commit_result rt t) = userRequest t"
  by (auto simp: commit_result_def commit_step_def Let_def)

lemma collect_results_deal:
  assumes "0 < workers" and "length ts = n"
  shows "collect_results workers n (map (\<lambda>w. deal workers w ts) [0..<workers]) db = finish_all ts db"
proof -
  have ok: "processSync_ok workers"
    by (simp add: processSync_ok_def processParallel_ok_def worker_turn_def list_all_iff)
  have "collect workers (map (map g) (map (map finish_txn) (map (\<lambda>w. deal workers w ts) [0..<workers])))
      (replicate n z) = map g (map finish_txn ts)" for g :: "_ \<Rightarrow> 'a" and z
    using assms by (subst collect_deal[where f = "\<lambda>t. g (finish_txn t)" and xs = ts]) simp_all
  note arr = this
  show ?thesis
    unfolding collect_results_def finish_all_def Let_def arr by (simp add: ok)
qed

text \<open>Both phases on transactions dealt to the workers.\<close>

lemma phases_dealt:
  fixes workers :: nat
  defines "parts \<equiv> \<lambda>ts. map (\<lambda>w. deal workers w ts) [0..<workers]"
  assumes "0 < workers" and "\<forall>t \<in> set ts0. pending t" and "distinct (map tid ts0)"
  shows "(case exec_phase ccs db (parts ts0) ReserveTable_reset of
       None \<Rightarrow> None
     | Some (parts1, rt) \<Rightarrow> Some (commit_phase rt parts1 db)) =
     (case map_opt (exec_result ccs db) ts0 of
       None \<Rightarrow> None
     | Some ts \<Rightarrow>
         (let rt = table_of ts ReserveTable_reset
          in Some (parts (map (commit_result rt) ts), commit_all (filter (wins rt) ts) db)))"
proof -
  have exec: "exec_phase ccs db (parts ts0) ReserveTable_reset =
      (case map_opt (exec_result ccs db) ts0 of None \<Rightarrow> None
       | Some ts \<Rightarrow> Some (parts ts, table_of (concat (parts ts)) ReserveTable_reset))"
    using exec_phase_split[OF deal_all[OF assms(3,2)]] assms(2)
    by (simp add: parts_def map_opt_map map_opt_deal split: option.splits)
  show ?thesis
  proof (cases "map_opt (exec_result ccs db) ts0")
    case None
    then show ?thesis by (simp only: exec option.case)
  next
    case ts: (Some ts)
    let ?rt = "table_of ts ReserveTable_reset"
    have perm: "mset (concat (parts ts)) = mset ts"
      unfolding parts_def by (rule mset_deal[OF assms(2)])
    then have table: "table_of (concat (parts ts)) ReserveTable_reset = ?rt"
      by (rule table_of_perm)
    have "map tid ts = map tid ts0"
      by (rule map_opt_fields[OF ts]) (rule exec_result_fields(1))
    with assms(4) have tids: "distinct (map tid ts)" by simp
    then have "distinct ts" by (simp add: distinct_map)
    then have dist: "distinct (concat (parts ts))"
      by (simp only: mset_eq_imp_distinct_iff[OF perm])
    have disj: "pairwise_disjoint (filter (wins ?rt) (concat (parts ts)))"
      unfolding pairwise_disjoint_def set_filter mset_eq_setD[OF perm]
      using winners_disjoint[OF tids] by simp
    have "commit_phase ?rt (parts ts) db =
        (map (map (commit_result ?rt)) (parts ts),
         commit_all (filter (wins ?rt) (concat (parts ts))) db)"
      by (rule commit_phase_split[OF dist disj])
    also have "map (map (commit_result ?rt)) (parts ts) = parts (map (commit_result ?rt) ts)"
      by (simp add: parts_def deal_map)
    also have "commit_all (filter (wins ?rt) (concat (parts ts))) db
        = commit_all (filter (wins ?rt) ts) db"
      by (rule commit_all_perm[OF _ disj]) (simp only: mset_filter perm)
    finally show ?thesis by (simp only: exec ts option.case prod.case Let_def table)
  qed
qed

text \<open>
  The engine computes the one-pass specification for every number of workers: the
  failures are the same and so are the results.
\<close>

lemma coordinator_refines_spec:
  assumes "0 < workers" and "distinct (map (\<lambda>r. digest (signature r)) requests)"
  shows "CoordinatorImpl_processValidatedRequests decode ccs workers requests db
     = aria_spec decode ccs requests db"
proof (cases "map_opt (NewTransactionFromEnvelop decode) requests")
  case None
  with assms(1) show ?thesis
    by (simp add: CoordinatorImpl_processValidatedRequests_def start_phase_def map_opt_deal aria_spec_def)
next
  case (Some ts0)
  let ?parts = "\<lambda>ts. map (\<lambda>w. deal workers w ts) [0..<workers]"
  have start: "start_phase decode workers requests = Some (?parts ts0)"
    using assms(1) Some by (simp add: start_phase_def map_opt_deal)
  have "map tid ts0 = map (\<lambda>r. digest (signature r)) requests"
    by (rule map_opt_fields[OF Some]) (rule NewTransactionFromEnvelop_Some(1))
  with assms(2) have "distinct (map tid ts0)" by simp
  note run = phases_dealt[OF assms(1) NewTransaction_pending[OF Some] this, where ccs = ccs and db = db]
  have "CoordinatorImpl_processValidatedRequests decode ccs workers requests db =
      map_option (\<lambda>(ps, db'). collect_results workers (length requests) ps db')
        (case exec_phase ccs db (?parts ts0) ReserveTable_reset of
           None \<Rightarrow> None
         | Some (parts1, rt) \<Rightarrow> Some (commit_phase rt parts1 db))"
    by (simp add: CoordinatorImpl_processValidatedRequests_def start case_prod_beta Let_def split: option.split)
  also have "\<dots> = aria_spec decode ccs requests db"
    unfolding run
    using collect_results_deal[OF assms(1)] map_opt_length[OF Some] map_opt_length[of "exec_result ccs db" ts0]
    by (simp add: aria_spec_def Some Let_def split: option.split)
  finally show ?thesis .
qed

end
