(* ===== verification/AriaSerializable.thy ===== *)
theory AriaSerializable
  imports Aria
begin

text \<open>
  Serializability of the deterministic engine. The commit rule admits a transaction
  whose reads were overwritten by a smaller identifier, as long as nothing it writes
  was read by a smaller identifier. The serial order that explains such a batch is
  built here: winners are inserted in the order of their identifiers, at the front if
  they read an older value, at the back otherwise.
\<close>

section \<open>Replaying transactions serially\<close>

definition final :: "Transaction \<Rightarrow> Transaction" where
  "final t = setExecutionResult COMMIT t"

definition succeeded :: "Transaction \<Rightarrow> bool" where
  "succeeded t \<longleftrightarrow> \<not> hasResult t ABORT_NO_RETRY"

lemma setExecutionResult_idem [simp]:
  "setExecutionResult r (setExecutionResult r' t) = setExecutionResult r t"
  by (simp add: setExecutionResult_def)

lemma serial_step_agree:
  assumes "exec_result ccs db t0 = Some t" and "succeeded t"
    and "\<forall>k \<in> txn_lookups ccs db t0. db' k = db k"
  shows "serial_step ccs t0 db' = Some (final t, apply_writes (getWrites t) db')"
proof -
  obtain ret t1 where inv: "invoke_txn ccs db t0 = Some (ret, t1)"
    using assms(1) by (auto simp: exec_result_def exec_step_def split: option.splits)
  have "invoke_txn ccs db' t0 = Some (ret, t1)"
    using invoke_txn_agree[OF assms(3)] inv by simp
  with inv assms(1,2) show ?thesis
    by (auto simp: exec_result_def exec_step_def serial_step_def final_def succeeded_def
        syncWriteBatch_kvs split: if_splits)
qed

text \<open>
  Executed transactions can be replayed one after the other if none looks up a key that
  an earlier one of the sequence writes.
\<close>

definition replayable :: "registry \<Rightarrow> DB \<Rightarrow> (Transaction \<times> Transaction) list \<Rightarrow> bool" where
  "replayable ccs db ps \<longleftrightarrow>
     (\<forall>(t0, t) \<in> set ps. exec_result ccs db t0 = Some t \<and> succeeded t) \<and>
     sorted_wrt (\<lambda>(a0, a) (b0, b). write_keys a \<inter> txn_lookups ccs db b0 = {}) ps"

lemma serial_replay:
  assumes "replayable ccs db ps"
    and "\<forall>(t0, t) \<in> set ps. \<forall>k \<in> txn_lookups ccs db t0. db' k = db k"
  shows "serial_loop ccs (map fst ps) db' =
     Some (map (final \<circ> snd) ps, commit_all (map snd ps) db')"
  using assms
proof (induction ps arbitrary: db')
  case (Cons p ps)
  obtain t0 t where p: "p = (t0, t)" by fastforce
  have step: "serial_step ccs t0 db' = Some (final t, apply_writes (getWrites t) db')"
    using Cons.prems by (intro serial_step_agree) (auto simp: p replayable_def)
  have "\<forall>(b0, b) \<in> set ps. \<forall>k \<in> txn_lookups ccs db b0. apply_writes (getWrites t) db' k = db k"
  proof (intro ballI, clarify)
    fix b0 b k assume "(b0, b) \<in> set ps" and "k \<in> txn_lookups ccs db b0"
    with Cons.prems have "k \<notin> kvs_keys (getWrites t)" and "db' k = db k"
      by (auto simp: p replayable_def write_keys_def)
    then show "apply_writes (getWrites t) db' k = db k" by (simp add: apply_writes_other)
  qed
  moreover have "replayable ccs db ps"
    using Cons.prems(1) by (auto simp: replayable_def)
  ultimately have "serial_loop ccs (map fst ps) (apply_writes (getWrites t) db') =
      Some (map (final \<circ> snd) ps, commit_all (map snd ps) (apply_writes (getWrites t) db'))"
    by (intro Cons.IH)
  with step show ?case by (simp add: p commit_all_def)
qed (simp add: commit_all_def)

section \<open>The serial order of a batch\<close>

definition readonly :: "Transaction \<Rightarrow> bool" where
  "readonly t \<longleftrightarrow> succeeded t \<and> getWrites t = []"

definition overtaken :: "Transaction list \<Rightarrow> nat \<Rightarrow> bool" where
  "overtaken ts i \<longleftrightarrow> earlier_hits ts write_keys (read_keys (ts ! i)) (tid (ts ! i))"

definition winners :: "Transaction list \<Rightarrow> nat list" where
  "winners ts =
     sort_key (\<lambda>i. tid (ts ! i))
       (filter (\<lambda>i. wins (table_of ts ReserveTable_reset) (ts ! i)) [0..<length ts])"

definition place :: "Transaction list \<Rightarrow> nat \<Rightarrow> nat list \<Rightarrow> nat list" where
  "place ts i acc = (if overtaken ts i then i # acc else acc @ [i])"

definition serial_order :: "Transaction list \<Rightarrow> nat list" where
  "serial_order ts =
     filter (\<lambda>i. readonly (ts ! i)) [0..<length ts] @ fold (place ts) (winners ts) []"

definition no_stale_read :: "Transaction list \<Rightarrow> nat \<Rightarrow> nat \<Rightarrow> bool" where
  "no_stale_read ts i j \<longleftrightarrow> write_keys (ts ! i) \<inter> read_keys (ts ! j) = {}"

lemma mset_fold_place: "mset (fold (place ts) js acc) = mset js + mset acc"
  by (induction js arbitrary: acc) (auto simp: place_def)

lemma set_fold_place: "set (fold (place ts) js acc) = set js \<union> set acc"
  by (metis mset_append mset_fold_place set_append set_mset_mset)

lemma set_winners: "set (winners ts) =
    {i. i < length ts \<and> wins (table_of ts ReserveTable_reset) (ts ! i)}"
  by (auto simp: winners_def)

lemma not_earlier_hits_nth:
  assumes "\<not> earlier_hits ts keys K t"
    and "a < length ts" and "reserving (ts ! a)" and "tid (ts ! a) < t"
  shows "keys (ts ! a) \<inter> K = {}"
  using assms nth_mem[of a ts] by (simp add: earlier_hits_def)

lemma fold_place_sorted:
  assumes "sorted_wrt (\<lambda>i j. tid (ts ! i) < tid (ts ! j)) js"
    and "set js \<subseteq> set (winners ts)" and "set acc \<subseteq> set (winners ts)"
    and "\<forall>a \<in> set acc. \<forall>i \<in> set js. tid (ts ! a) < tid (ts ! i)"
    and "sorted_wrt (no_stale_read ts) acc"
  shows "sorted_wrt (no_stale_read ts) (fold (place ts) js acc)"
  using assms
proof (induction js arbitrary: acc)
  case (Cons i js)
  let ?t = "ts ! i"
  have win: "wins (table_of ts ReserveTable_reset) ?t" using Cons.prems(2) by (simp add: set_winners)
  have old: "a < length ts \<and> reserving (ts ! a) \<and> tid (ts ! a) < tid ?t" if "a \<in> set acc" for a
    using that Cons.prems(3,4) by (auto simp: set_winners wins_table)
  have behind: "no_stale_read ts a i" if "\<not> overtaken ts i" and "a \<in> set acc" for a
    using not_earlier_hits_nth[of ts write_keys "read_keys ?t" "tid ?t" a] that(1) old[OF that(2)]
    by (simp add: overtaken_def no_stale_read_def)
  have ahead: "no_stale_read ts i a" if "overtaken ts i" and "a \<in> set acc" for a
    using not_earlier_hits_nth[of ts read_keys "write_keys ?t" "tid ?t" a] that(1) old[OF that(2)] win
    by (simp add: overtaken_def no_stale_read_def wins_table Int_commute)
  have placed: "set (place ts i acc) = insert i (set acc)" by (simp add: place_def)
  have "sorted_wrt (no_stale_read ts) (fold (place ts) js (place ts i acc))"
  proof (rule Cons.IH)
    show "sorted_wrt (no_stale_read ts) (place ts i acc)"
      using behind ahead Cons.prems(5) by (simp add: place_def sorted_wrt_append)
    show "\<forall>a \<in> set (place ts i acc). \<forall>i \<in> set js. tid (ts ! a) < tid (ts ! i)"
      unfolding placed using Cons.prems(1,4) by simp
  qed (use Cons.prems placed in simp_all)
  then show ?case by simp
qed simp

lemma winners_sorted:
  assumes "distinct (map tid ts)"
  shows "sorted_wrt (\<lambda>i j. tid (ts ! i) < tid (ts ! j)) (winners ts)"
proof -
  have "sorted (map (\<lambda>i. tid (ts ! i)) (winners ts))" by (simp add: winners_def)
  moreover have "distinct (map (\<lambda>i. tid (ts ! i)) (winners ts))"
  proof -
    have "i = j" if "i < length ts" "j < length ts" "tid (ts ! i) = tid (ts ! j)" for i j
      using that nth_eq_iff_index_eq[OF assms, of i j] by simp
    then show ?thesis by (auto simp: winners_def distinct_map inj_on_def)
  qed
  ultimately show ?thesis
    by (metis sorted_wrt_map strict_sorted_iff)
qed

lemma serial_order_sorted:
  assumes "distinct (map tid ts)"
  shows "sorted_wrt (no_stale_read ts) (serial_order ts)"
proof -
  have "sorted_wrt (no_stale_read ts) (fold (place ts) (winners ts) [])"
    by (rule fold_place_sorted) (use winners_sorted[OF assms] in auto)
  moreover have "no_stale_read ts i j" if "readonly (ts ! i)" for i j
    using that by (simp add: no_stale_read_def readonly_def write_keys_def)
  moreover have "sorted_wrt (no_stale_read ts) (filter (\<lambda>i. readonly (ts ! i)) js)" for js
    using calculation(2) by (induction js) auto
  ultimately show ?thesis
    by (auto simp: serial_order_def sorted_wrt_append)
qed

lemma committed_iff:
  "hasResult (commit_result rt t) COMMIT \<longleftrightarrow> readonly t \<or> wins rt t"
  by (auto simp: commit_result_def commit_step_def readonly_def succeeded_def wins_def reserving_def
      Let_def dest: hasResult_unique)

lemma committed_final:
  assumes "readonly t \<or> wins rt t"
  shows "commit_result rt t = final t"
  using assms
  by (auto simp: commit_result_def commit_step_def readonly_def succeeded_def wins_def reserving_def
      final_def Let_def)

lemma set_serial_order:
  "set (serial_order ts) =
     {i. i < length ts \<and> (readonly (ts ! i) \<or> wins (table_of ts ReserveTable_reset) (ts ! i))}"
  by (auto simp: serial_order_def set_fold_place set_winners)

lemma distinct_serial_order: "distinct (serial_order ts)"
proof -
  have "distinct (winners ts)" by (simp add: winners_def)
  then have "distinct (fold (place ts) (winners ts) [])"
    using mset_eq_imp_distinct_iff[OF mset_fold_place[of ts "winners ts" "[]", simplified]] by simp
  then show ?thesis
    by (auto simp: serial_order_def set_fold_place set_winners readonly_def wins_def reserving_def)
qed

lemma filter_nth: "map ((!) ts) (filter (\<lambda>i. P (ts ! i)) [0..<length ts]) = filter P ts"
  by (metis (no_types, lifting) comp_apply filter_cong filter_map map_nth)

lemma commit_all_readonly:
  assumes "\<forall>t \<in> set ts. getWrites t = []"
  shows "commit_all ts db = db"
  using assms by (induction ts) (simp_all add: commit_all_def)

lemma serial_order_db:
  assumes "distinct (map tid ts)"
  shows "commit_all (map ((!) ts) (serial_order ts)) db
     = commit_all (filter (wins (table_of ts ReserveTable_reset)) ts) db"
proof -
  let ?W = "wins (table_of ts ReserveTable_reset)"
  let ?ro = "map ((!) ts) (filter (\<lambda>i. readonly (ts ! i)) [0..<length ts])"
  let ?ws = "map ((!) ts) (fold (place ts) (winners ts) [])"
  have "commit_all ?ro db = db"
    by (rule commit_all_readonly) (simp add: readonly_def)
  then have "commit_all (map ((!) ts) (serial_order ts)) db = commit_all ?ws db"
    by (simp add: serial_order_def commit_all_def)
  also have "\<dots> = commit_all (filter ?W ts) db"
  proof (rule sym, rule commit_all_perm)
    show "pairwise_disjoint (filter ?W ts)"
      unfolding pairwise_disjoint_def set_filter using winners_disjoint[OF assms] by simp
    have "mset ?ws = mset (map ((!) ts) (filter (\<lambda>i. ?W (ts ! i)) [0..<length ts]))"
      by (simp add: mset_fold_place winners_def)
    then show "mset (filter ?W ts) = mset ?ws" by (simp only: filter_nth)
  qed
  finally show ?thesis .
qed

section \<open>Serializability\<close>

text \<open>
  Lookups of keys the database does not hold leave no trace in the read set. The engine
  is serializable for chaincodes that are careful: an invocation that succeeds writes
  every key it looked up in vain.
\<close>

definition careful_registry :: "registry \<Rightarrow> bool" where
  "careful_registry ccs \<longleftrightarrow> (\<forall>name cc func arg. ccs name = Some cc \<longrightarrow> careful (cc func arg))"

lemma careful_missed:
  assumes "careful_registry ccs" and "exec_result ccs db t0 = Some t" and "succeeded t"
  shows "txn_missed ccs db t0 \<subseteq> write_keys t"
proof -
  obtain cc where cc: "ccs (ccName (userRequest t0)) = Some cc"
    using assms(2) by (auto simp: exec_result_def exec_step_def invoke_txn_def split: option.splits)
  let ?p = "txn_prog cc t0" and ?orm = "NewORMFromDBInterface db"
  have "fst (run_prog ?p ?orm) = Some 0" "getWrites t = orm_writes (snd (run_prog ?p ?orm))"
    using assms(2,3) cc
    by (auto simp: exec_result_def exec_step_def invoke_txn_def succeeded_def orm_reset_def Let_def
        case_prod_beta split: option.splits if_splits)
  moreover have "run_writes ?p db [] = (fst (run_prog ?p ?orm), orm_writes (snd (run_prog ?p ?orm)))"
    using run_prog_writes[of ?p ?orm] by (simp add: NewORMFromDBInterface_def)
  moreover have "careful ?p"
    using assms(1) cc by (simp add: careful_registry_def txn_prog_def)
  then have "fst (run_writes ?p db []) = Some 0 \<longrightarrow>
      set (missed ?p db) \<subseteq> kvs_keys (snd (run_writes ?p db []))"
    unfolding careful_def by (rule spec)
  ultimately show ?thesis
    by (simp add: txn_missed_def cc write_keys_def)
qed

lemma exec_lookups:
  assumes "exec_result ccs db t0 = Some t"
  shows "txn_lookups ccs db t0 = read_keys t \<union> txn_missed ccs db t0"
  using assms txn_lookups_split[of ccs db t0]
  by (auto simp: exec_result_def exec_step_def read_keys_def split: option.splits if_splits)

lemma map_opt_nth:
  assumes "map_opt f xs = Some ys" and "i < length xs"
  shows "f (xs ! i) = Some (ys ! i)"
proof -
  have "map f xs = map Some ys" using assms(1) by (simp only: map_opt_Some)
  then have "map f xs ! i = map Some ys ! i" by (simp only:)
  then show ?thesis using assms(2) map_opt_length[OF assms(1)] by simp
qed

lemma serial_order_disjoint:
  assumes "distinct (map tid ts)" and "i \<in> set (serial_order ts)" and "j \<in> set (serial_order ts)" and "i \<noteq> j"
  shows "write_keys (ts ! i) \<inter> write_keys (ts ! j) = {}"
proof -
  have ij: "i < length ts" "j < length ts" using assms(2,3) by (simp_all add: set_serial_order)
  then have "ts ! i \<noteq> ts ! j"
    using assms(1,4) by (auto simp: distinct_map nth_eq_iff_index_eq)
  then show ?thesis
    using winners_disjoint[OF assms(1), of "ts ! i" "ts ! j"] ij assms(2,3)
    by (auto simp: set_serial_order readonly_def write_keys_def)
qed

lemma serial_order_replayable:
  assumes ts0: "map_opt (NewTransactionFromEnvelop decode) requests = Some ts0"
    and ts: "map_opt (exec_result ccs db) ts0 = Some ts"
    and tids: "distinct (map tid ts)" and safe: "careful_registry ccs"
  shows "replayable ccs db (map (\<lambda>i. (ts0 ! i, ts ! i)) (serial_order ts))"
proof -
  have len: "length ts0 = length requests" "length ts = length requests"
    using map_opt_length[OF ts0] map_opt_length[OF ts] by simp_all
  have exec: "exec_result ccs db (ts0 ! i) = Some (ts ! i)" if "i \<in> set (serial_order ts)" for i
    using that map_opt_nth[OF ts] len by (simp add: set_serial_order)
  have ok: "succeeded (ts ! i)" if "i \<in> set (serial_order ts)" for i
    using that by (auto simp: set_serial_order readonly_def wins_def reserving_def succeeded_def)
  have apart: "write_keys (ts ! i) \<inter> txn_lookups ccs db (ts0 ! j) = {}"
    if "no_stale_read ts i j" "i \<noteq> j" "i \<in> set (serial_order ts)" "j \<in> set (serial_order ts)" for i j
  proof -
    have "write_keys (ts ! i) \<inter> write_keys (ts ! j) = {}"
      using serial_order_disjoint[OF tids that(3,4,2)] .
    then show ?thesis
      using that(1) careful_missed[OF safe exec[OF that(4)] ok[OF that(4)]] exec_lookups[OF exec[OF that(4)]]
      by (auto simp: no_stale_read_def)
  qed
  have "sorted_wrt (\<lambda>i j. write_keys (ts ! i) \<inter> txn_lookups ccs db (ts0 ! j) = {}) (serial_order ts)"
    using serial_order_sorted[OF tids] distinct_serial_order[of ts] apart
    by (auto simp: sorted_wrt_iff_nth_less nth_eq_iff_index_eq)
  then show ?thesis
    using exec ok by (auto simp: replayable_def sorted_wrt_map)
qed

text \<open>
  The committed requests, run by the serial coordinator in the order above, all commit
  with the same read-write sets and leave the same database.
\<close>

definition explains ::
  "(string \<Rightarrow> UserRequest option) \<Rightarrow> registry \<Rightarrow> Envelop list \<Rightarrow> DB \<Rightarrow> batch_result \<Rightarrow> nat list \<Rightarrow> bool" where
  "explains decode ccs requests db r order \<longleftrightarrow>
     distinct order \<and>
     set order = {i. i < length requests \<and> br_results r ! i} \<and>
     SerialCoordinator_processValidatedRequests decode ccs (map ((!) requests) order) db =
       Some \<lparr>br_ok = True,
             br_requests = map (Some \<circ> (!) requests) order,
             br_rwsets = map ((!) (br_rwsets r)) order,
             br_results = replicate (length order) True,
             br_db = br_db r\<rparr>"

lemma finish_all_nth:
  assumes "length us = length ts" and "\<forall>i \<in> set order. i < length ts \<and> us ! i = ts ! i"
  shows "map ((!) (br_rwsets (finish_all us db))) order = br_rwsets (finish_all (map ((!) ts) order) db')"
  using assms by (simp add: finish_all_def Let_def comp_def)

lemma serial_run_order:
  assumes ts0: "map_opt (NewTransactionFromEnvelop decode) requests = Some ts0"
    and ts: "map_opt (exec_result ccs db) ts0 = Some ts"
    and tids: "distinct (map tid ts)" and safe: "careful_registry ccs"
  shows "SerialCoordinator_processValidatedRequests decode ccs (map ((!) requests) (serial_order ts)) db =
     Some (finish_all (map (\<lambda>i. final (ts ! i)) (serial_order ts))
            (commit_all (filter (wins (table_of ts ReserveTable_reset)) ts) db))"
proof -
  let ?order = "serial_order ts"
  have "i < length requests" if "i \<in> set ?order" for i
    using that map_opt_length[OF ts0] map_opt_length[OF ts] by (simp add: set_serial_order)
  then have "map (NewTransactionFromEnvelop decode) (map ((!) requests) ?order) = map Some (map ((!) ts0) ?order)"
    using map_opt_nth[OF ts0] by simp
  then have build: "map_opt (NewTransactionFromEnvelop decode) (map ((!) requests) ?order)
      = Some (map ((!) ts0) ?order)"
    by (simp only: map_opt_Some)
  have "serial_loop ccs (map ((!) ts0) ?order) db =
      Some (map (\<lambda>i. final (ts ! i)) ?order, commit_all (map ((!) ts) ?order) db)"
    using serial_replay[OF serial_order_replayable[OF assms], of db] by (simp add: comp_def)
  with build show ?thesis
    by (simp add: SerialCoordinator_processValidatedRequests_def serial_order_db[OF tids])
qed

lemma aria_spec_explained:
  assumes "aria_spec decode ccs requests db = Some r"
    and "distinct (map (\<lambda>q. digest (signature q)) requests)" and safe: "careful_registry ccs"
  shows "\<exists>order. explains decode ccs requests db r order"
proof -
  obtain ts0 where ts0: "map_opt (NewTransactionFromEnvelop decode) requests = Some ts0"
    using assms(1) by (auto simp: aria_spec_def split: option.splits)
  then obtain ts where ts: "map_opt (exec_result ccs db) ts0 = Some ts"
    using assms(1) by (auto simp: aria_spec_def split: option.splits)
  let ?rt = "table_of ts ReserveTable_reset"
  let ?us = "map (commit_result ?rt) ts"
  let ?order = "serial_order ts"
  let ?db = "commit_all (filter (wins ?rt) ts) db"
  have r: "r = finish_all ?us ?db"
    using assms(1) ts0 ts by (simp add: aria_spec_def Let_def)
  have "map tid ts = map (\<lambda>q. digest (signature q)) requests"
    using map_opt_fields[OF ts exec_result_fields(1)]
      map_opt_fields[OF ts0, of tid "\<lambda>q. digest (signature q)"] NewTransactionFromEnvelop_Some(1) by simp
  with assms(2) have tids: "distinct (map tid ts)" by simp
  have len: "length ts = length requests"
    using map_opt_length[OF ts0] map_opt_length[OF ts] by simp
  have nth: "\<forall>i \<in> set ?order. i < length (map final ts) \<and> ?us ! i = map final ts ! i"
    by (auto simp: set_serial_order committed_final)
  have flag: "br_results r ! i \<longleftrightarrow> readonly (ts ! i) \<or> wins ?rt (ts ! i)" if "i < length ts" for i
    using that by (simp add: r finish_all_def Let_def finish_txn_def committed_iff DestroyTransaction_def)
  have env: "envelop (ts ! i) = requests ! i" if "i < length requests" for i
    using exec_result_fields(2)[OF map_opt_nth[OF ts, of i]] that len map_opt_length[OF ts0]
      NewTransactionFromEnvelop_Some(2)[OF map_opt_nth[OF ts0 that]] by simp
  have eq: "map ((!) (map final ts)) ?order = map (\<lambda>i. final (ts ! i)) ?order"
    by (simp add: set_serial_order)
  have rws: "map ((!) (br_rwsets r)) ?order
      = br_rwsets (finish_all (map (\<lambda>i. final (ts ! i)) ?order) ?db)"
    unfolding r using finish_all_nth[OF _ nth, of ?db ?db] by (simp only: eq length_map)
  have "finish_all (map (\<lambda>i. final (ts ! i)) ?order) ?db =
      \<lparr>br_ok = True, br_requests = map (Some \<circ> (!) requests) ?order,
       br_rwsets = map ((!) (br_rwsets r)) ?order,
       br_results = replicate (length ?order) True, br_db = br_db r\<rparr>"
    unfolding rws using env len
    by (auto simp: r finish_all_def Let_def finish_txn_def DestroyTransaction_def final_def
        set_serial_order map_replicate_const[symmetric] simp del: map_replicate_const)
  then have "explains decode ccs requests db r ?order"
    unfolding explains_def serial_run_order[OF ts0 ts tids safe]
    using distinct_serial_order flag len by (auto simp: set_serial_order)
  then show ?thesis by blast
qed

end
