(* ===== verification/Decimal.thy ===== *)
theory Decimal
  imports Prelude
begin

text \<open>
  The conversions of the C++ standard library that the chaincodes use on balances and
  record counts: \<^verbatim>\<open>std::to_string\<close>, \<^verbatim>\<open>std::atoi\<close>, \<^verbatim>\<open>std::stoi\<close>, and the 32-bit
  \<^verbatim>\<open>int\<close> they work on (two's complement; a sum outside the range is folded back into
  it, which is what the compiled code does although the standard leaves it undefined).
\<close>

section \<open>32-bit integers\<close>

definition i32 :: "int \<Rightarrow> int" where
  "i32 n = (n + 2147483648) mod 4294967296 - 2147483648"

definition is_i32 :: "int \<Rightarrow> bool" where
  "is_i32 n \<longleftrightarrow> -2147483648 \<le> n \<and> n < 2147483648"

lemma i32_id [simp]: "is_i32 n \<Longrightarrow> i32 n = n"
  by (simp add: is_i32_def i32_def)

lemma is_i32_i32 [simp]: "is_i32 (i32 n)"
  using pos_mod_bound[of 4294967296 "n + 2147483648"] pos_mod_sign[of 4294967296 "n + 2147483648"]
  by (simp add: is_i32_def i32_def)

lemma i32_add: "i32 (i32 a + b) = i32 (a + b)"
proof -
  have "i32 a + b + 2147483648 = (a + 2147483648) mod 4294967296 + b" by (simp add: i32_def)
  then have "(i32 a + b + 2147483648) mod 4294967296 = (a + 2147483648 + b) mod 4294967296"
    by (simp only: mod_add_left_eq)
  also have "a + 2147483648 + b = a + b + 2147483648" by simp
  finally show ?thesis unfolding i32_def[of "i32 a + b"] i32_def[of "a + b"] by (simp only:)
qed

section \<open>Decimal digits\<close>

definition digit_char :: "nat \<Rightarrow> char" where
  "digit_char d = char_of (48 + d)"

definition is_digit :: "char \<Rightarrow> bool" where
  "is_digit c \<longleftrightarrow> (48::nat) \<le> of_char c \<and> (of_char c::nat) \<le> 57"

definition digit_val :: "char \<Rightarrow> int" where
  "digit_val c = int (of_char c) - 48"

definition is_space :: "char \<Rightarrow> bool" where
  "is_space c \<longleftrightarrow> of_char c = (32::nat) \<or> (9::nat) \<le> of_char c \<and> (of_char c::nat) \<le> 13"

fun nat_digits :: "nat \<Rightarrow> string" where
  "nat_digits n = (if n < 10 then [digit_char n] else nat_digits (n div 10) @ [digit_char (n mod 10)])"

declare nat_digits.simps [simp del]

definition to_string :: "int \<Rightarrow> string" where
  "to_string n = (if n < 0 then CHR ''-'' # nat_digits (nat (- n)) else nat_digits (nat n))"

fun read_digits :: "int \<Rightarrow> string \<Rightarrow> int" where
  "read_digits acc [] = acc"
| "read_digits acc (c # cs) =
     (if is_digit c then read_digits (10 * acc + digit_val c) cs else acc)"

definition sign_split :: "string \<Rightarrow> int \<times> string" where
  "sign_split s =
     (case dropWhile is_space s of
        [] \<Rightarrow> (1, [])
      | c # cs \<Rightarrow> if c = CHR ''-'' then (-1, cs) else if c = CHR ''+'' then (1, cs) else (1, c # cs))"

definition atoi :: "string \<Rightarrow> int" where
  "atoi s = (let (sg, ds) = sign_split s in i32 (sg * read_digits 0 ds))"

text \<open>\<^verbatim>\<open>std::stoi\<close> throws when there is no digit or the value is out of range.\<close>

definition stoi :: "string \<Rightarrow> int option" where
  "stoi s =
     (let (sg, ds) = sign_split s; n = sg * read_digits 0 ds in
      if ds = [] \<or> \<not> is_digit (hd ds) \<or> \<not> is_i32 n then None else Some n)"

section \<open>Round trips\<close>

lemma is_digit_char [simp]: "d < 10 \<Longrightarrow> is_digit (digit_char d)"
  by (simp add: is_digit_def digit_char_def)

lemma digit_val_char [simp]: "d < 10 \<Longrightarrow> digit_val (digit_char d) = int d"
  by (simp add: digit_val_def digit_char_def)

lemma nat_digits_read:
  "read_digits 0 (nat_digits n @ rest) = read_digits (int n) rest"
proof (induction n arbitrary: rest rule: nat_digits.induct)
  case (1 n)
  have "10 * (int n div 10) + int n mod 10 = int n" by simp
  with 1 show ?case
    by (subst nat_digits.simps) (simp add: zmod_int zdiv_int)
qed

lemma nat_digits_hd: "nat_digits n \<noteq> [] \<and> is_digit (hd (nat_digits n))"
proof (induction n rule: nat_digits.induct)
  case (1 n)
  show ?case
  proof (cases "n < 10")
    case True
    then show ?thesis by (subst (1 2) nat_digits.simps) simp
  next
    case False
    with 1 have "nat_digits (n div 10) \<noteq> [] \<and> is_digit (hd (nat_digits (n div 10)))" by blast
    with False show ?thesis by (subst (1 2) nat_digits.simps) simp
  qed
qed

lemma digit_not_sign:
  assumes "is_digit c"
  shows "\<not> is_space c" "c \<noteq> CHR ''-''" "c \<noteq> CHR ''+''"
  using assms by (auto simp: is_digit_def is_space_def)

lemma minus_not_space [simp]: "\<not> is_space (CHR ''-'')"
  by (simp add: is_space_def)

lemma sign_split_digits:
  assumes "ds \<noteq> []" and "is_digit (hd ds)"
  shows "sign_split ds = (1, ds)" and "sign_split (CHR ''-'' # ds) = (-1, ds)"
proof -
  obtain c cs where ds: "ds = c # cs" using assms(1) by (cases ds) simp_all
  have "is_digit c" using assms(2) ds by simp
  note no = digit_not_sign[OF this]
  show "sign_split ds = (1, ds)" by (simp add: sign_split_def ds no)
  show "sign_split (CHR ''-'' # ds) = (-1, ds)" by (simp add: sign_split_def)
qed

lemma to_string_split:
  "sign_split (to_string n) = (if n < 0 then -1 else 1, nat_digits (nat \<bar>n\<bar>))"
  using sign_split_digits[of "nat_digits (nat \<bar>n\<bar>)"] nat_digits_hd[of "nat \<bar>n\<bar>"]
  by (auto simp: to_string_def)

lemma to_string_value: "(if n < 0 then -1 else 1) * read_digits 0 (nat_digits (nat \<bar>n\<bar>)) = n"
  using nat_digits_read[of "nat \<bar>n\<bar>" "[]"] by simp

lemma atoi_to_string [simp]: "is_i32 n \<Longrightarrow> atoi (to_string n) = n"
  by (simp add: atoi_def to_string_split to_string_value)

lemma stoi_to_string [simp]: "is_i32 n \<Longrightarrow> stoi (to_string n) = Some n"
  using nat_digits_hd[of "nat \<bar>n\<bar>"]
  by (simp add: stoi_def to_string_split to_string_value)

lemma to_string_not_Nil [simp]: "to_string n \<noteq> []"
  using nat_digits_hd by (simp add: to_string_def)

text \<open>Different numbers have different names, whatever their size.\<close>

lemma to_string_inject [simp]: "to_string a = to_string b \<longleftrightarrow> a = b"
proof
  assume "to_string a = to_string b"
  then have "sign_split (to_string a) = sign_split (to_string b)" by (rule arg_cong)
  then have same: "(if a < 0 then -1 else 1::int) = (if b < 0 then -1 else 1)"
      "nat_digits (nat \<bar>a\<bar>) = nat_digits (nat \<bar>b\<bar>)"
    unfolding to_string_split by blast+
  have "a = (if a < 0 then -1 else 1) * read_digits 0 (nat_digits (nat \<bar>a\<bar>))"
    by (rule to_string_value[symmetric])
  also have "\<dots> = b" unfolding same by (rule to_string_value)
  finally show "a = b" .
qed (rule arg_cong)

end
