(* ===== verification/Chaincodes.thy ===== *)
theory Chaincodes
  imports Orm Decimal
begin

text \<open>
  The chaincodes of \<^verbatim>\<open>peer/chaincode\<close> as programs over the object of \<open>Orm\<close>:
  transfer, session store, vote, hash and the row-level key-value benchmark.

  Arguments and stored values are packed by the serialization library \<^verbatim>\<open>zpp::bits\<close>. The
  decoders and encoders the chaincodes call are the fields of the record \<open>zpp\<close>, which
  every definition takes as an argument.
\<close>

section \<open>The serialization library\<close>

text \<open>
  A string view into a request is not terminated, so the C functions that scan for the
  end of a string, and an index into an empty view, see the bytes that follow the view
  in memory: \<open>after_func\<close> and \<open>after_args\<close>. \<open>out_int\<close> encodes into a buffer with
  contents; \<open>out_map\<close> encodes a hash map.
\<close>

record zpp =
  in_args :: "string \<Rightarrow> string list option"
  in_sv :: "string \<Rightarrow> string option"
  in_sv_sv :: "string \<Rightarrow> (string \<times> string) option"
  in_sv_int :: "string \<Rightarrow> (string \<times> int) option"
  in_int :: "string \<Rightarrow> int option"
  out_int :: "string \<Rightarrow> int \<Rightarrow> string option"
  in_row :: "string \<Rightarrow> (string \<times> string \<times> (string \<times> string) list) option"
  in_fields :: "string \<Rightarrow> (string \<times> string \<times> string list) option"
  in_modify :: "string \<Rightarrow> (string \<times> string \<times> string list \<times> (string \<times> string) list) option"
  in_map :: "string \<Rightarrow> (string \<rightharpoonup> string) option"
  out_map :: "(string \<rightharpoonup> string) \<Rightarrow> string option"
  after_func :: string
  after_args :: string

text \<open>A loop of puts.\<close>

fun put_all :: "(string \<times> string) list \<Rightarrow> prog \<Rightarrow> prog" where
  "put_all [] p = p"
| "put_all ((k, v) # kvs) p = Put k v (put_all kvs p)"

section \<open>Transfer\<close>

definition SimpleTransfer_initDatabase :: "int \<Rightarrow> prog" where
  "SimpleTransfer_initDatabase recordCount =
     put_all (map (\<lambda>i. (to_string (int i), ''0'')) [0..<nat recordCount]) (Return 0)"

definition SimpleTransfer_InvokeChaincode :: "zpp \<Rightarrow> chaincode" where
  "SimpleTransfer_InvokeChaincode z func arg =
     (case in_args z arg of
        None \<Rightarrow> Return (-1)
      | Some args \<Rightarrow>
          if length args \<noteq> 2 then
            (if func = ''init'' \<and> length args = 1
             then (case stoi (args ! 0) of None \<Rightarrow> Throw | Some n \<Rightarrow> SimpleTransfer_initDatabase n)
             else Return (-1))
          else
            (let from = args ! 0; to = args ! 1 in
             if from = to then Return 0
             else Get from (\<lambda>fromBalance.
               case fromBalance of
                 None \<Rightarrow> Return (-1)
               | Some fb \<Rightarrow> Get to (\<lambda>toBalance.
                   case toBalance of
                     None \<Rightarrow> Return (-1)
                   | Some tb \<Rightarrow>
                       (let mfb = i32 (atoi fb - 100); mtb = i32 (atoi tb + 100) in
                        Put from (to_string mfb) (Put to (to_string mtb) (Return 0)))))))"

section \<open>Session store\<close>

definition SimpleSessionStore_initDatabase :: "int \<Rightarrow> prog" where
  "SimpleSessionStore_initDatabase recordCount =
     put_all (map (\<lambda>i. (to_string (int i), ''0'')) [0..<nat recordCount]) (Return 0)"

definition SimpleSessionStore_Set :: "string \<Rightarrow> string \<Rightarrow> prog" where
  "SimpleSessionStore_Set key v = Put key v (Return 0)"

definition SimpleSessionStore_Get :: "string \<Rightarrow> prog" where
  "SimpleSessionStore_Get key = Get key (\<lambda>r. case r of Some _ \<Rightarrow> Return 0 | None \<Rightarrow> Return (-1))"

definition SimpleSessionStore_InvokeChaincode :: "zpp \<Rightarrow> chaincode" where
  "SimpleSessionStore_InvokeChaincode z func arg =
     (case in_args z arg of
        None \<Rightarrow> Return (-1)
      | Some args \<Rightarrow>
          if length args = 1 \<and> func = ''init''
          then (case stoi (args ! 0) of None \<Rightarrow> Throw | Some n \<Rightarrow> SimpleSessionStore_initDatabase n)
          else if length args \<noteq> 2 then Return (-1)
          else
            (let key = args ! 0; v = args ! 1; valueNum = atoi (v @ after_args z) in
             if valueNum mod 2 = 0 then SimpleSessionStore_Get key
             else SimpleSessionStore_Set key v))"

section \<open>Vote\<close>

definition VOTING_CHAINCODE_NAME :: string where "VOTING_CHAINCODE_NAME = ''vote''"
definition VOTING_VOTE :: string where "VOTING_VOTE = ''vote''"
definition VOTING_GET :: string where "VOTING_GET = ''get''"

text \<open>
  The number of candidates comes from the configuration. A failed encoding is only
  logged and the value, empty so far, is stored.
\<close>

definition SimpleVote_InitDatabase :: "zpp \<Rightarrow> int \<Rightarrow> prog" where
  "SimpleVote_InitDatabase z candidate =
     put_all (map (\<lambda>i. (to_string (int i), case out_int z [] 0 of None \<Rightarrow> [] | Some v \<Rightarrow> v))
       [0..<nat candidate]) (Return 0)"

definition SimpleVote_Vote :: "zpp \<Rightarrow> string \<Rightarrow> int \<Rightarrow> prog" where
  "SimpleVote_Vote z candidate cnt = Get candidate (\<lambda>r.
     case r of
       None \<Rightarrow> Return (-2)
     | Some rawValue \<Rightarrow>
         (case in_int z rawValue of
            None \<Rightarrow> Return (-3)
          | Some oldCount \<Rightarrow>
              (case out_int z [] (i32 (oldCount + cnt)) of
                 None \<Rightarrow> Return (-4)
               | Some v \<Rightarrow> Put candidate v (Return 0))))"

definition SimpleVote_Get :: "string \<Rightarrow> prog" where
  "SimpleVote_Get candidate = Get candidate (\<lambda>r.
     case r of Some v \<Rightarrow> SetResult v (Return 0) | None \<Rightarrow> Return (-1))"

definition SimpleVote_InvokeChaincode :: "zpp \<Rightarrow> chaincode" where
  "SimpleVote_InvokeChaincode z func arg =
     (if func = VOTING_GET then SimpleVote_Get arg
      else if func = VOTING_VOTE then
        (case in_sv_int z arg of
           None \<Rightarrow> Return (-1)
         | Some (key, cnt) \<Rightarrow> SimpleVote_Vote z key cnt)
      else Return (-1))"

section \<open>Hash\<close>

definition HashChaincode_Set :: "string \<Rightarrow> string \<Rightarrow> prog" where
  "HashChaincode_Set key v = Put key v (Return 0)"

definition HashChaincode_Get :: "string \<Rightarrow> prog" where
  "HashChaincode_Get key = Get key (\<lambda>r.
     case r of Some v \<Rightarrow> SetResult v (Return 0) | None \<Rightarrow> Return (-1))"

definition HashChaincode_InvokeChaincode :: "zpp \<Rightarrow> chaincode" where
  "HashChaincode_InvokeChaincode z func arg =
     (if func = ''Get'' then
        (case in_sv z arg of None \<Rightarrow> Return (-1) | Some key \<Rightarrow> HashChaincode_Get key)
      else if func = ''Set'' then
        (case in_sv_sv z arg of None \<Rightarrow> Return (-1) | Some (key, v) \<Rightarrow> HashChaincode_Set key v)
      else Return (-1))"

section \<open>Row-level key-value benchmark\<close>

text \<open>A row is one database value: a packed map from field names to field values.\<close>

definition merge_fields :: "(string \<rightharpoonup> string) \<Rightarrow> (string \<times> string) list \<Rightarrow> (string \<rightharpoonup> string)" where
  "merge_fields lhs rhs = fold (\<lambda>(f, v) m. m(f \<mapsto> v)) rhs lhs"

fun insert_fields :: "(string \<rightharpoonup> string) \<Rightarrow> (string \<times> string) list \<Rightarrow> (string \<rightharpoonup> string) option" where
  "insert_fields lhs [] = Some lhs"
| "insert_fields lhs ((f, v) # rhs) =
     (case lhs f of None \<Rightarrow> insert_fields (lhs(f \<mapsto> v)) rhs | Some _ \<Rightarrow> None)"

definition put_row :: "zpp \<Rightarrow> string \<Rightarrow> (string \<rightharpoonup> string) \<Rightarrow> prog" where
  "put_row z key m = (case out_map z m of None \<Rightarrow> Return (-1) | Some raw \<Rightarrow> Put key raw (Return 0))"

definition YCSBRowLevel_updateValue :: "zpp \<Rightarrow> string \<Rightarrow> (string \<times> string) list \<Rightarrow> prog" where
  "YCSBRowLevel_updateValue z key rhs = Get key (\<lambda>r.
     case r of
       None \<Rightarrow> Return (-1)
     | Some raw \<Rightarrow>
         (case in_map z raw of
            None \<Rightarrow> Return (-1)
          | Some lhs \<Rightarrow> put_row z key (merge_fields lhs rhs)))"

definition YCSBRowLevel_modifyValue ::
  "zpp \<Rightarrow> string \<Rightarrow> string list \<Rightarrow> (string \<times> string) list \<Rightarrow> prog" where
  "YCSBRowLevel_modifyValue z key reads rhs = Get key (\<lambda>r.
     case r of
       None \<Rightarrow> Return (-1)
     | Some raw \<Rightarrow>
         (case in_map z raw of
            None \<Rightarrow> Return (-1)
          | Some lhs \<Rightarrow>
              if \<exists>f \<in> set reads. lhs f = None then Return (-1)
              else put_row z key (merge_fields lhs rhs)))"

definition insert_row :: "zpp \<Rightarrow> string \<Rightarrow> (string \<rightharpoonup> string) \<Rightarrow> (string \<times> string) list \<Rightarrow> prog" where
  "insert_row z key lhs rhs =
     (case insert_fields lhs rhs of None \<Rightarrow> Return (-1) | Some m \<Rightarrow> put_row z key m)"

definition YCSBRowLevel_insertValue :: "zpp \<Rightarrow> string \<Rightarrow> (string \<times> string) list \<Rightarrow> prog" where
  "YCSBRowLevel_insertValue z key rhs = Get key (\<lambda>r.
     case r of
       None \<Rightarrow> insert_row z key Map.empty rhs
     | Some raw \<Rightarrow>
         (case in_map z raw of
            None \<Rightarrow> Return (-1)
          | Some lhs \<Rightarrow> insert_row z key lhs rhs))"

definition YCSBRowLevel_update :: "zpp \<Rightarrow> string \<Rightarrow> prog" where
  "YCSBRowLevel_update z arg =
     (case in_row z arg of
        None \<Rightarrow> Return (-1)
      | Some (_, key, args) \<Rightarrow> YCSBRowLevel_updateValue z key args)"

definition YCSBRowLevel_read :: "zpp \<Rightarrow> string \<Rightarrow> prog" where
  "YCSBRowLevel_read z arg =
     (case in_fields z arg of
        None \<Rightarrow> Return (-1)
      | Some (_, key, _) \<Rightarrow> Get key (\<lambda>r. case r of None \<Rightarrow> Return (-1) | Some _ \<Rightarrow> Return 0))"

definition YCSBRowLevel_insert :: "zpp \<Rightarrow> string \<Rightarrow> prog" where
  "YCSBRowLevel_insert z arg =
     (case in_row z arg of
        None \<Rightarrow> Return (-1)
      | Some (_, key, rhs) \<Rightarrow> YCSBRowLevel_insertValue z key rhs)"

definition YCSBRowLevel_remove :: prog where
  "YCSBRowLevel_remove = Return (-1)"

definition YCSBRowLevel_scan :: prog where
  "YCSBRowLevel_scan = Return (-1)"

definition YCSBRowLevel_readModifyWrite :: "zpp \<Rightarrow> string \<Rightarrow> prog" where
  "YCSBRowLevel_readModifyWrite z arg =
     (case in_modify z arg of
        None \<Rightarrow> Return (-1)
      | Some (_, key, reads, writes) \<Rightarrow> YCSBRowLevel_modifyValue z key reads writes)"

definition YCSBRowLevel_InvokeChaincode :: "zpp \<Rightarrow> chaincode" where
  "YCSBRowLevel_InvokeChaincode z func arg =
     (case func @ after_func z of
        [] \<Rightarrow> Return (-1)
      | c # _ \<Rightarrow>
          if c = CHR ''u'' then YCSBRowLevel_update z arg
          else if c = CHR ''i'' then YCSBRowLevel_insert z arg
          else if c = CHR ''r'' then YCSBRowLevel_read z arg
          else if c = CHR ''d'' then YCSBRowLevel_remove
          else if c = CHR ''s'' then YCSBRowLevel_scan
          else if c = CHR ''m'' then YCSBRowLevel_readModifyWrite z arg
          else Return (-1))"

section \<open>Behaviour\<close>

lemma transfer_run:
  assumes "in_args z arg = Some [a, b]" and "a \<noteq> b"
    and "visible db a = Some va" and "visible db b = Some vb"
  shows "outcome (SimpleTransfer_InvokeChaincode z func arg) db =
     (Some 0, db(a \<mapsto> to_string (i32 (atoi va - 100)), b \<mapsto> to_string (i32 (atoi vb + 100))))"
  using assms by (simp add: SimpleTransfer_InvokeChaincode_def run_simps Let_def)

lemma transfer_missing:
  assumes "in_args z arg = Some [a, b]" and "a \<noteq> b"
    and "visible db a = None \<or> visible db b = None"
  shows "outcome (SimpleTransfer_InvokeChaincode z func arg) db = (Some (-1), db)"
  using assms by (auto simp: SimpleTransfer_InvokeChaincode_def run_simps Let_def split: option.split)

lemma vote_run:
  assumes "visible db k = Some raw" and "in_int z raw = Some old"
    and "out_int z [] (i32 (old + cnt)) = Some v" and "v \<noteq> []"
  shows "outcome (SimpleVote_Vote z k cnt) db = (Some 0, db(k \<mapsto> v))"
  using assms by (simp add: SimpleVote_Vote_def run_simps)

lemma merge_fields_lookup:
  "merge_fields lhs rhs f = (case map_of (rev rhs) f of None \<Rightarrow> lhs f | Some v \<Rightarrow> Some v)"
  unfolding merge_fields_def
  by (induction rhs arbitrary: lhs) (auto split: option.splits)

lemma insert_fields_Some:
  "insert_fields lhs rhs = Some m \<longleftrightarrow>
     distinct (map fst rhs) \<and> set (map fst rhs) \<inter> dom lhs = {} \<and> m = lhs ++ map_of rhs"
proof (induction rhs arbitrary: lhs)
  case (Cons fv rhs)
  obtain f v where fv: "fv = (f, v)" by fastforce
  have step: "lhs(f \<mapsto> v) ++ map_of rhs = lhs ++ map_of ((f, v) # rhs)" if "f \<notin> set (map fst rhs)"
  proof -
    have "map_of rhs f = None" using that by (simp add: map_of_eq_None_iff)
    then show ?thesis by (auto simp: fun_eq_iff map_add_def split: option.splits)
  qed
  have split: "set (map fst rhs) \<inter> dom (lhs(f \<mapsto> v)) = {} \<longleftrightarrow>
      f \<notin> set (map fst rhs) \<and> set (map fst rhs) \<inter> dom lhs = {}"
    by auto
  show ?case
  proof (cases "lhs f")
    case None
    then have "insert_fields lhs (fv # rhs) = Some m \<longleftrightarrow>
        distinct (map fst rhs) \<and> (f \<notin> set (map fst rhs) \<and> set (map fst rhs) \<inter> dom lhs = {}) \<and>
        m = lhs(f \<mapsto> v) ++ map_of rhs"
      using Cons.IH[of "lhs(f \<mapsto> v)"] by (simp only: fv insert_fields.simps option.case split)
    moreover have "distinct (map fst (fv # rhs)) \<longleftrightarrow> f \<notin> set (map fst rhs) \<and> distinct (map fst rhs)"
      and "set (map fst (fv # rhs)) \<inter> dom lhs = {} \<longleftrightarrow> set (map fst rhs) \<inter> dom lhs = {}"
      using None by (auto simp: fv)
    ultimately show ?thesis using step fv by metis
  next
    case (Some w)
    then show ?thesis by (auto simp: fv)
  qed
qed auto

lemma ycsb_update_run:
  assumes "visible db key = Some raw" and "in_map z raw = Some lhs"
    and "out_map z (merge_fields lhs rhs) = Some new" and "new \<noteq> []"
  shows "outcome (YCSBRowLevel_updateValue z key rhs) db = (Some 0, db(key \<mapsto> new))"
  using assms by (simp add: YCSBRowLevel_updateValue_def put_row_def run_simps)

lemma ycsb_insert_run:
  assumes "visible db key = None" and "distinct (map fst rhs)"
    and "out_map z (map_of rhs) = Some new" and "new \<noteq> []"
  shows "outcome (YCSBRowLevel_insertValue z key rhs) db = (Some 0, db(key \<mapsto> new))"
  using assms insert_fields_Some[of Map.empty rhs "map_of rhs"]
  by (simp add: YCSBRowLevel_insertValue_def insert_row_def put_row_def run_simps)

lemma ycsb_insert_rejects:
  assumes "visible db key = Some raw" and "in_map z raw = Some lhs"
    and "\<not> distinct (map fst rhs) \<or> set (map fst rhs) \<inter> dom lhs \<noteq> {}"
  shows "outcome (YCSBRowLevel_insertValue z key rhs) db = (Some (-1), db)"
proof -
  have "insert_fields lhs rhs = None"
    using assms(3) insert_fields_Some[of lhs rhs] by (cases "insert_fields lhs rhs") auto
  with assms(1,2) show ?thesis
    by (simp add: YCSBRowLevel_insertValue_def insert_row_def run_simps)
qed

section \<open>Lookups in vain\<close>

lemma put_all_run [simp]:
  "missed (put_all kvs p) db = missed p db"
  "run_writes (put_all kvs p) db ws = run_writes p db (ws @ map (\<lambda>(k, v). KV_of k v) kvs)"
  by (induction kvs arbitrary: ws) (auto simp: case_prod_beta)

lemma careful_transfer: "careful (SimpleTransfer_InvokeChaincode z func arg)"
  by (auto simp: careful_def SimpleTransfer_InvokeChaincode_def SimpleTransfer_initDatabase_def Let_def
      split: option.split)

lemma careful_session: "careful (SimpleSessionStore_InvokeChaincode z func arg)"
  by (auto simp: careful_def SimpleSessionStore_InvokeChaincode_def SimpleSessionStore_initDatabase_def
      SimpleSessionStore_Get_def SimpleSessionStore_Set_def Let_def split: option.split)

lemma careful_vote: "careful (SimpleVote_InvokeChaincode z func arg)"
  by (auto simp: careful_def SimpleVote_InvokeChaincode_def SimpleVote_Get_def SimpleVote_Vote_def
      split: option.split)

lemma careful_hash: "careful (HashChaincode_InvokeChaincode z func arg)"
  by (auto simp: careful_def HashChaincode_InvokeChaincode_def HashChaincode_Get_def HashChaincode_Set_def
      split: option.split)

lemma put_row_run:
  "missed (put_row z k m) db = []"
  "fst (run_writes (put_row z k m) db ws) = Some 0 \<Longrightarrow> k \<in> kvs_keys (snd (run_writes (put_row z k m) db ws))"
  by (auto simp: put_row_def split: option.splits)

lemma careful_ycsb: "careful (YCSBRowLevel_InvokeChaincode z func arg)"
proof -
  have "careful (YCSBRowLevel_updateValue z k rhs)" for k rhs
    by (auto simp: careful_def YCSBRowLevel_updateValue_def put_row_run split: option.split)
  moreover have "careful (YCSBRowLevel_modifyValue z k rs rhs)" for k rs rhs
    by (auto simp: careful_def YCSBRowLevel_modifyValue_def put_row_run split: option.split)
  moreover have "careful (YCSBRowLevel_insertValue z k rhs)" for k rhs
    by (auto simp: careful_def YCSBRowLevel_insertValue_def insert_row_def put_row_run split: option.split)
  moreover have "careful (YCSBRowLevel_read z arg)"
    by (auto simp: careful_def YCSBRowLevel_read_def split: option.split)
  moreover have "careful (Return c)" for c by (simp add: careful_def)
  ultimately show ?thesis
    by (auto simp: YCSBRowLevel_InvokeChaincode_def YCSBRowLevel_update_def YCSBRowLevel_insert_def
        YCSBRowLevel_readModifyWrite_def YCSBRowLevel_remove_def YCSBRowLevel_scan_def
        split: option.split list.split)
qed

end
