(* ===== verification/Crdt.thy ===== *)
theory Crdt
  imports Chaincodes Serial
begin

text \<open>
  Conflict-free chaincodes: the locked database shim and the object of
  \<^verbatim>\<open>chaincode/crdt/crdt_orm.h\<close>, the vote chaincode of \<^verbatim>\<open>crdt_vote_chaincode.h\<close>, the
  worker of \<^verbatim>\<open>concurrency_control/crdt\<close> and its copy in \<^verbatim>\<open>my_cc/crdt\<close>.

  A conflict-free chaincode writes the database while it runs. Each \<^verbatim>\<open>get\<close>, \<^verbatim>\<open>put\<close> and
  \<^verbatim>\<open>del\<close> of the shim holds the lock of its key, and an invocation of the vote chaincode
  makes one such call: an invocation is one atomic step on the database.
\<close>

section \<open>The shim and the object\<close>

definition DBShim_get :: "string \<Rightarrow> DB \<Rightarrow> string option" where
  "DBShim_get key db =
     (case db key of None \<Rightarrow> None | Some v \<Rightarrow> if v = [] then None else Some v)"

text \<open>The callback updates the value in place and reports success.\<close>

definition DBShim_put :: "string \<Rightarrow> (string \<Rightarrow> string option) \<Rightarrow> DB \<Rightarrow> bool \<times> DB" where
  "DBShim_put key callback db =
     (let v = (case db key of None \<Rightarrow> [] | Some v \<Rightarrow> v) in
      case callback v of None \<Rightarrow> (False, db) | Some v' \<Rightarrow> (True, syncPut key v' db))"

definition DBShim_del :: "string \<Rightarrow> DB \<Rightarrow> bool \<times> DB" where
  "DBShim_del key db = (True, syncDelete key db)"

text \<open>An invocation returns its code, the result string and the new database.\<close>

type_synonym crdt_chaincode = "string \<Rightarrow> string \<Rightarrow> DB \<Rightarrow> int \<times> string \<times> DB"

section \<open>The vote chaincode\<close>

definition vote_callback :: "zpp \<Rightarrow> int \<Rightarrow> string \<Rightarrow> string option" where
  "vote_callback z cnt rawValue =
     (case in_int z rawValue of
        None \<Rightarrow> None
      | Some oldCount \<Rightarrow> out_int z rawValue (i32 (oldCount + cnt)))"

definition VoteChaincode_Vote :: "zpp \<Rightarrow> string \<Rightarrow> int \<Rightarrow> DB \<Rightarrow> int \<times> string \<times> DB" where
  "VoteChaincode_Vote z candidate cnt db =
     (case DBShim_put candidate (vote_callback z cnt) db of
        (ok, db') \<Rightarrow> (if ok then 0 else -1, [], db'))"

definition VoteChaincode_Get :: "string \<Rightarrow> DB \<Rightarrow> int \<times> string \<times> DB" where
  "VoteChaincode_Get candidate db =
     (case DBShim_get candidate db of Some v \<Rightarrow> (0, v, db) | None \<Rightarrow> (-1, [], db))"

definition VoteChaincode_InvokeChaincode :: "zpp \<Rightarrow> crdt_chaincode" where
  "VoteChaincode_InvokeChaincode z func arg db =
     (if func = VOTING_GET then VoteChaincode_Get arg db
      else if func = VOTING_VOTE then
        (case in_sv_int z arg of
           None \<Rightarrow> (-1, [], db)
         | Some (key, cnt) \<Rightarrow> VoteChaincode_Vote z key cnt db)
      else (-1, [], db))"

text \<open>The initial load: zero votes for the candidates \<open>i, i + 1, \<dots>\<close>; it stops at a failure.\<close>

fun init_candidates :: "zpp \<Rightarrow> nat list \<Rightarrow> DB \<Rightarrow> int \<times> DB" where
  "init_candidates z [] db = (0, db)"
| "init_candidates z (i # is) db =
     (case DBShim_put (to_string (int i)) (\<lambda>rawValue. out_int z rawValue 0) db of
        (ok, db') \<Rightarrow> if ok then init_candidates z is db' else (-1, db'))"

definition VoteChaincode_InitDatabase :: "zpp \<Rightarrow> int \<Rightarrow> DB \<Rightarrow> int \<times> DB" where
  "VoteChaincode_InitDatabase z candidateCount db = init_candidates z [0..<nat candidateCount] db"

definition crdt_NewChaincodeByName :: "zpp \<Rightarrow> string \<Rightarrow> crdt_chaincode option" where
  "crdt_NewChaincodeByName z name =
     (if name = VOTING_CHAINCODE_NAME then Some (VoteChaincode_InvokeChaincode z) else None)"

definition isCrdtChainCode :: "string \<Rightarrow> bool" where
  "isCrdtChainCode name \<longleftrightarrow> name = VOTING_CHAINCODE_NAME"

section \<open>The worker\<close>

definition setRetValue :: "string \<Rightarrow> Transaction \<Rightarrow> Transaction" where
  "setRetValue v t = t\<lparr>executionResult := (executionResult t)\<lparr>retValue := v\<rparr>\<rparr>"

definition crdt_step :: "zpp \<Rightarrow> Transaction \<Rightarrow> DB \<Rightarrow> (Transaction \<times> DB) option" where
  "crdt_step z txn db =
     (case crdt_NewChaincodeByName z (ccName (userRequest txn)) of
        None \<Rightarrow> None
      | Some cc \<Rightarrow>
          (case cc (funcName (userRequest txn)) (req_args (userRequest txn)) db of
             (ret, res, db') \<Rightarrow>
               (let txn1 = setRetValue res txn in
                if ret \<noteq> 0 then Some (setExecutionResult ABORT_NO_RETRY txn1, db')
                else Some (setExecutionResult COMMIT txn1, db'))))"

fun CRDTWorkerFSM_OnExecuteTransaction ::
  "zpp \<Rightarrow> Transaction list \<Rightarrow> DB \<Rightarrow> (Transaction list \<times> DB) option" where
  "CRDTWorkerFSM_OnExecuteTransaction z [] db = Some ([], db)"
| "CRDTWorkerFSM_OnExecuteTransaction z (t # ts) db =
     (case crdt_step z t db of
        None \<Rightarrow> None
      | Some (t', db') \<Rightarrow>
          (case CRDTWorkerFSM_OnExecuteTransaction z ts db' of
             None \<Rightarrow> None
           | Some (ts', db'') \<Rightarrow> Some (t' # ts', db'')))"

text \<open>The workers of a phase one after the other.\<close>

fun crdt_exec_phase ::
  "zpp \<Rightarrow> Transaction list list \<Rightarrow> DB \<Rightarrow> (Transaction list list \<times> DB) option" where
  "crdt_exec_phase z [] db = Some ([], db)"
| "crdt_exec_phase z (p # ps) db =
     (case CRDTWorkerFSM_OnExecuteTransaction z p db of
        None \<Rightarrow> None
      | Some (p', db') \<Rightarrow>
          (case crdt_exec_phase z ps db' of
             None \<Rightarrow> None
           | Some (ps', db'') \<Rightarrow> Some (p' # ps', db'')))"

text \<open>
  \<^verbatim>\<open>CrdtCoordinator::processValidatedRequests\<close> of \<^verbatim>\<open>my_cc/crdt\<close>: the transactions are
  moved to the workers, executed and moved back. The flag is the result of
  \<^verbatim>\<open>processSync\<close>, which has no commit phase.
\<close>

definition CrdtCoordinator_processTransactions ::
  "zpp \<Rightarrow> nat \<Rightarrow> Transaction list \<Rightarrow> DB \<Rightarrow> (bool \<times> Transaction list \<times> DB) option" where
  "CrdtCoordinator_processTransactions z workers txns db =
     (case crdt_exec_phase z (map (\<lambda>w. deal workers w txns) [0..<workers]) db of
        None \<Rightarrow> None
      | Some (parts, db') \<Rightarrow>
          Some (processParallel_ok workers START READY \<and> processParallel_ok workers EXEC FINISH_EXEC,
                collect workers parts txns, db'))"

section \<open>Votes commute\<close>

text \<open>
  Documented behaviour of the encoding of integers: nothing is read from an empty
  buffer, encoding does not fail, and what was written into a buffer is read back,
  whatever the buffer held.
\<close>

definition int_codec :: "zpp \<Rightarrow> bool" where
  "int_codec z \<longleftrightarrow> in_int z [] = None \<and>
     (\<forall>buf n. is_i32 n \<longrightarrow>
        (\<exists>v. out_int z buf n = Some v \<and> v \<noteq> [] \<and> in_int z v = Some n \<and>
           (\<forall>m. is_i32 m \<longrightarrow> out_int z v m = out_int z buf m)))"

text \<open>The effect of a transaction on the database, and whether it commits.\<close>

definition crdt_db :: "zpp \<Rightarrow> Transaction \<Rightarrow> DB \<Rightarrow> DB" where
  "crdt_db z t db = (case crdt_step z t db of None \<Rightarrow> db | Some (_, db') \<Rightarrow> db')"

definition crdt_ok :: "zpp \<Rightarrow> Transaction \<Rightarrow> DB \<Rightarrow> bool" where
  "crdt_ok z t db = (case crdt_step z t db of None \<Rightarrow> False | Some (t', _) \<Rightarrow> hasResult t' COMMIT)"

definition vote_db :: "zpp \<Rightarrow> string \<Rightarrow> int \<Rightarrow> DB \<Rightarrow> DB" where
  "vote_db z k cnt db = snd (DBShim_put k (vote_callback z cnt) db)"

lemma vote_callback_twice:
  assumes "int_codec z" and "vote_callback z a v = Some v1"
  shows "v1 \<noteq> []" and "vote_callback z b v1 = out_int z v (i32 (the (in_int z v) + a + b))"
    and "vote_callback z b v \<noteq> None"
proof -
  obtain n where n: "in_int z v = Some n" "out_int z v (i32 (n + a)) = Some v1"
    using assms(2) by (auto simp: vote_callback_def split: option.splits)
  obtain v1' where "out_int z v (i32 (n + a)) = Some v1'" "v1' \<noteq> []" "in_int z v1' = Some (i32 (n + a))"
      "\<forall>m. is_i32 m \<longrightarrow> out_int z v1' m = out_int z v m"
    using assms(1) is_i32_i32 unfolding int_codec_def by metis
  with n show "v1 \<noteq> []" and "vote_callback z b v1 = out_int z v (i32 (the (in_int z v) + a + b))"
    by (simp_all add: vote_callback_def i32_add)
  obtain v2 where "out_int z v (i32 (n + b)) = Some v2"
    using assms(1) is_i32_i32 unfolding int_codec_def by metis
  with n show "vote_callback z b v \<noteq> None" by (simp add: vote_callback_def)
qed

lemma vote_callback_None:
  assumes "int_codec z"
  shows "vote_callback z a v = None \<longleftrightarrow> in_int z v = None"
  using assms is_i32_i32 unfolding int_codec_def vote_callback_def
  by (metis option.case_eq_if option.distinct(1) option.case(1))

abbreviation stored :: "DB \<Rightarrow> string \<Rightarrow> string" where
  "stored db k \<equiv> case db k of None \<Rightarrow> [] | Some v \<Rightarrow> v"

lemma vote_db_apply:
  "vote_db z k a db = (case vote_callback z a (stored db k) of None \<Rightarrow> db | Some v \<Rightarrow> db(k \<mapsto> v))"
  by (simp add: vote_db_def DBShim_put_def syncPut_def Let_def split: option.split)

lemma vote_db_twice:
  assumes "int_codec z"
  shows "vote_db z k b (vote_db z k a db) =
     (case in_int z (stored db k) of None \<Rightarrow> db
      | Some n \<Rightarrow> db(k := out_int z (stored db k) (i32 (n + a + b))))"
proof (cases "in_int z (stored db k)")
  case None
  then have "vote_callback z a (stored db k) = None" "vote_callback z b (stored db k) = None"
    by (simp_all only: vote_callback_None[OF assms])
  with None show ?thesis by (simp add: vote_db_apply)
next
  case (Some n)
  then obtain v1 where v1: "vote_callback z a (stored db k) = Some v1"
    using vote_callback_None[OF assms, of a "stored db k"] by (cases "vote_callback z a (stored db k)") auto
  have "\<exists>v. out_int z (stored db k) (i32 (n + a + b)) = Some v"
    using assms is_i32_i32 unfolding int_codec_def by metis
  with Some v1 vote_callback_twice(2)[OF assms v1, of b] show ?thesis
    by (auto simp: vote_db_apply)
qed

lemma vote_db_commute:
  assumes "int_codec z"
  shows "vote_db z k a (vote_db z l b db) = vote_db z l b (vote_db z k a db)"
proof (cases "k = l")
  case True
  then show ?thesis
    by (simp add: vote_db_twice[OF assms] ac_simps split: option.split)
next
  case False
  then show ?thesis
    by (auto simp: vote_db_apply fun_upd_twist split: option.split)
qed

section \<open>Schedules\<close>

text \<open>The vote a transaction casts, if it casts one.\<close>

definition txn_vote :: "zpp \<Rightarrow> Transaction \<Rightarrow> (string \<times> int) option" where
  "txn_vote z t =
     (if isCrdtChainCode (ccName (userRequest t)) \<and> funcName (userRequest t) = VOTING_VOTE
      then in_sv_int z (req_args (userRequest t)) else None)"

lemma crdt_db_vote:
  "crdt_db z t db = (case txn_vote z t of None \<Rightarrow> db | Some (k, c) \<Rightarrow> vote_db z k c db)"
  by (auto simp: crdt_db_def crdt_step_def crdt_NewChaincodeByName_def txn_vote_def isCrdtChainCode_def
      VoteChaincode_InvokeChaincode_def VoteChaincode_Get_def VoteChaincode_Vote_def vote_db_def
      VOTING_GET_def VOTING_VOTE_def case_prod_beta split: option.split)

lemma crdt_db_commute:
  assumes "int_codec z"
  shows "crdt_db z t (crdt_db z u db) = crdt_db z u (crdt_db z t db)"
  by (auto simp: crdt_db_vote vote_db_commute[OF assms] split: option.split)

lemma vote_db_decodes:
  assumes "int_codec z"
  shows "in_int z (stored (vote_db z l b db) k) = None \<longleftrightarrow> in_int z (stored db k) = None"
    and "DBShim_get k (vote_db z l b db) = None \<longleftrightarrow> DBShim_get k db = None"
proof -
  have "in_int z v = None \<longleftrightarrow> in_int z w = None" "w \<noteq> []" "v \<noteq> []"
    if "vote_callback z b v = Some w" for v w
  proof -
    have "vote_callback z b w \<noteq> None"
      using vote_callback_twice(2)[OF assms that, of b] assms is_i32_i32
      unfolding int_codec_def by (metis option.distinct(1))
    then show "in_int z v = None \<longleftrightarrow> in_int z w = None"
      using that vote_callback_None[OF assms] by (metis option.distinct(1))
    show "w \<noteq> []" by (rule vote_callback_twice(1)[OF assms that])
    show "v \<noteq> []" using that assms by (auto simp: vote_callback_def int_codec_def)
  qed
  moreover have "vote_callback z b [] = None"
    using assms by (simp add: int_codec_def vote_callback_def)
  ultimately show "in_int z (stored (vote_db z l b db) k) = None \<longleftrightarrow> in_int z (stored db k) = None"
    and "DBShim_get k (vote_db z l b db) = None \<longleftrightarrow> DBShim_get k db = None"
    by (auto simp: vote_db_apply DBShim_get_def split: option.splits)
qed

lemma DBShim_put_vote:
  assumes "int_codec z"
  shows "fst (DBShim_put k (vote_callback z c) db) \<longleftrightarrow> in_int z (stored db k) \<noteq> None"
proof -
  have "fst (DBShim_put k (vote_callback z c) db) \<longleftrightarrow> vote_callback z c (stored db k) \<noteq> None"
    by (cases "vote_callback z c (stored db k)") (simp_all add: DBShim_put_def Let_def)
  then show ?thesis by (simp only: vote_callback_None[OF assms])
qed

lemma crdt_ok_iff:
  assumes "int_codec z" and "isCrdtChainCode (ccName (userRequest t))"
  shows "crdt_ok z t db \<longleftrightarrow>
     (if funcName (userRequest t) = VOTING_GET then DBShim_get (req_args (userRequest t)) db \<noteq> None
      else (case txn_vote z t of None \<Rightarrow> False | Some (k, c) \<Rightarrow> in_int z (stored db k) \<noteq> None))"
proof -
  note unf = crdt_ok_def crdt_step_def crdt_NewChaincodeByName_def txn_vote_def isCrdtChainCode_def
    VoteChaincode_InvokeChaincode_def VoteChaincode_Get_def VoteChaincode_Vote_def
    VOTING_GET_def VOTING_VOTE_def Let_def case_prod_beta DBShim_put_vote[OF assms(1)]
  show ?thesis
    using assms(2)
    by (cases "DBShim_get (req_args (userRequest t)) db"; cases "in_sv_int z (req_args (userRequest t))")
      (simp_all add: unf)
qed

lemma crdt_ok_stable:
  assumes "int_codec z"
  shows "crdt_ok z t (crdt_db z u db) = crdt_ok z t db"
proof (cases "isCrdtChainCode (ccName (userRequest t))")
  case True
  show ?thesis
  proof (cases "txn_vote z u")
    case None
    then show ?thesis by (simp add: crdt_db_vote)
  next
    case (Some lb)
    obtain l b where lb: "lb = (l, b)" by fastforce
    show ?thesis
      by (cases "txn_vote z t")
        (simp_all add: Some lb crdt_db_vote crdt_ok_iff[OF assms True] vote_db_decodes[OF assms]
          case_prod_beta del: not_None_eq)
  qed
next
  case False
  then show ?thesis
    by (simp add: crdt_ok_def crdt_step_def crdt_NewChaincodeByName_def isCrdtChainCode_def)
qed

text \<open>
  A step of a worker: execute the transaction with number \<open>i\<close> on the shared database
  and note whether it commits.
\<close>

definition crdt_act :: "zpp \<Rightarrow> nat \<times> Transaction \<Rightarrow> DB \<times> (nat \<Rightarrow> bool) \<Rightarrow> DB \<times> (nat \<Rightarrow> bool)" where
  "crdt_act z op s = (crdt_db z (snd op) (fst s), (snd s)(fst op := crdt_ok z (snd op) (fst s)))"

lemma crdt_act_commute:
  assumes "int_codec z" and "fst x \<noteq> fst y"
  shows "crdt_act z x \<circ> crdt_act z y = crdt_act z y \<circ> crdt_act z x"
  using assms(2)
  by (simp add: crdt_act_def fun_eq_iff crdt_db_commute[OF assms(1), of "snd x"]
      crdt_ok_stable[OF assms(1)] fun_upd_twist)

lemma crdt_fold:
  assumes "int_codec z" and "distinct (map fst ops)"
  shows "fold (crdt_act z) ops (db, f) =
     (fold (crdt_db z) (map snd ops) db,
      \<lambda>i. case map_of ops i of None \<Rightarrow> f i | Some t \<Rightarrow> crdt_ok z t db)"
  using assms(2)
proof (induction ops arbitrary: db f)
  case (Cons op ops)
  obtain i t where op: "op = (i, t)" by fastforce
  have "map_of ops i = None" using Cons.prems by (simp add: op map_of_eq_None_iff)
  with Cons show ?case
    by (auto simp: op crdt_act_def crdt_ok_stable[OF assms(1)] fun_eq_iff split: option.split)
qed (simp add: fun_eq_iff)

lemma deal_enumerate_disjoint:
  assumes "x \<in> set (deal workers v (enumerate 0 ts))" and "y \<in> set (deal workers w (enumerate 0 ts))"
    and "v < workers" and "w < workers" and "v \<noteq> w"
  shows "fst x \<noteq> fst y"
  using assms by (auto simp: deal_def stride_filter nth_enumerate_eq)

lemma crdt_interleaved:
  assumes "int_codec z" and "0 < workers"
    and "par_run (crdt_act z) ((db, f), map (\<lambda>w. deal workers w (enumerate 0 ts)) [0..<workers]) (s', ws)"
    and "all_done ws"
  shows "fst s' = fold (crdt_db z) ts db"
    and "\<forall>i < length ts. snd s' i = crdt_ok z (ts ! i) db"
proof -
  let ?ws = "map (\<lambda>w. deal workers w (enumerate 0 ts)) [0..<workers]"
  have comm: "ops_commute (crdt_act z) ?ws"
    unfolding ops_commute_def
    by (auto intro!: crdt_act_commute[OF assms(1)] dest: deal_enumerate_disjoint)
  have s': "s' = fold (crdt_act z) (concat ?ws) (db, f)"
    by (rule par_run_sequential[OF assms(3) comm assms(4)])
  have perm: "mset (concat ?ws) = mset (enumerate 0 ts)" by (rule mset_deal[OF assms(2)])
  have dist: "distinct (map fst (enumerate 0 ts))" by simp
  have "fold (crdt_act z) (concat ?ws) = fold (crdt_act z) (enumerate 0 ts)"
  proof (rule fold_multiset_equiv[OF _ perm])
    fix x y assume "x \<in> set (concat ?ws)" "y \<in> set (concat ?ws)"
    then have "x \<in> set (enumerate 0 ts)" "y \<in> set (enumerate 0 ts)"
      by (simp_all only: mset_eq_setD[OF perm])
    then have "x = y \<or> fst x \<noteq> fst y"
      by (auto simp: in_set_enumerate_eq prod_eq_iff)
    then show "crdt_act z x \<circ> crdt_act z y = crdt_act z y \<circ> crdt_act z x"
      using crdt_act_commute[OF assms(1), of x y] by auto
  qed
  with s' have run: "s' = (fold (crdt_db z) ts db,
      \<lambda>i. case map_of (enumerate 0 ts) i of None \<Rightarrow> f i | Some t \<Rightarrow> crdt_ok z t db)"
    by (simp add: crdt_fold[OF assms(1) dist])
  then show "fst s' = fold (crdt_db z) ts db" by simp
  have "map_of (enumerate 0 ts) i = Some (ts ! i)" if "i < length ts" for i
    using that dist by (intro map_of_is_SomeI) (simp_all add: in_set_enumerate_eq)
  note lookup = this
  show "\<forall>i < length ts. snd s' i = crdt_ok z (ts ! i) db" by (simp add: run lookup)
qed

section \<open>No vote is lost\<close>

definition votes_for :: "zpp \<Rightarrow> string \<Rightarrow> Transaction list \<Rightarrow> int" where
  "votes_for z k ts =
     sum_list (map (\<lambda>t. case txn_vote z t of None \<Rightarrow> 0 | Some (l, c) \<Rightarrow> if l = k then c else 0) ts)"

lemma vote_db_count:
  assumes "int_codec z" and "in_int z (stored db k) = Some n"
  shows "in_int z (stored (vote_db z l c db) k) = Some (if l = k then i32 (n + c) else n)"
proof (cases "l = k")
  case True
  obtain v where "out_int z (stored db k) (i32 (n + c)) = Some v" "in_int z v = Some (i32 (n + c))"
    using assms(1) is_i32_i32 unfolding int_codec_def by metis
  with True assms(2) show ?thesis by (simp add: vote_db_apply vote_callback_def)
next
  case False
  with assms(2) show ?thesis
    by (cases "vote_callback z c (stored db l)") (simp_all add: vote_db_apply)
qed

lemma tally:
  assumes "int_codec z" and "in_int z (stored db k) = Some n" and "is_i32 n"
  shows "in_int z (stored (fold (crdt_db z) ts db) k) = Some (i32 (n + votes_for z k ts))"
  using assms(2,3)
proof (induction ts arbitrary: db n)
  case (Cons t ts)
  show ?case
  proof (cases "txn_vote z t")
    case None
    with Cons show ?thesis by (simp add: crdt_db_vote votes_for_def)
  next
    case (Some lc)
    obtain l c where lc: "lc = (l, c)" by fastforce
    let ?m = "if l = k then i32 (n + c) else n"
    have "in_int z (stored (crdt_db z t db) k) = Some ?m"
      using vote_db_count[of z db k n l c, OF assms(1) Cons.prems(1)] by (simp add: crdt_db_vote Some lc)
    from Cons.IH[of "crdt_db z t db" ?m, OF this] Cons.prems(2)
    have "in_int z (stored (fold (crdt_db z) (t # ts) db) k) = Some (i32 (?m + votes_for z k ts))" by simp
    moreover have "i32 (?m + votes_for z k ts) = i32 (n + votes_for z k (t # ts))"
      by (simp add: votes_for_def Some lc i32_add add.assoc)
    ultimately show ?thesis by simp
  qed
qed (simp add: votes_for_def)

section \<open>The coordinator\<close>

definition flags :: "Transaction \<Rightarrow> bool \<times> Envelop" where
  "flags t = (hasResult t COMMIT, envelop t)"

lemma crdt_step_Some:
  assumes "isCrdtChainCode (ccName (userRequest t))"
  shows "\<exists>t'. crdt_step z t db = Some (t', crdt_db z t db) \<and> flags t' = (crdt_ok z t db, envelop t)"
  using assms
  by (auto simp: crdt_step_def crdt_db_def crdt_ok_def flags_def crdt_NewChaincodeByName_def
      isCrdtChainCode_def Let_def case_prod_beta setRetValue_def)

lemma crdt_ok_fold:
  assumes "int_codec z"
  shows "crdt_ok z t (fold (crdt_db z) us db) = crdt_ok z t db"
  by (induction us arbitrary: db) (simp_all add: crdt_ok_stable[OF assms])

lemma crdt_worker_run:
  assumes "int_codec z" and "\<forall>t \<in> set ts. isCrdtChainCode (ccName (userRequest t))"
  shows "\<exists>ts'. CRDTWorkerFSM_OnExecuteTransaction z ts db = Some (ts', fold (crdt_db z) ts db) \<and>
     map flags ts' = map (\<lambda>t. (crdt_ok z t db, envelop t)) ts"
  using assms(2)
proof (induction ts arbitrary: db)
  case (Cons t ts)
  obtain t' where "crdt_step z t db = Some (t', crdt_db z t db)" "flags t' = (crdt_ok z t db, envelop t)"
    using crdt_step_Some Cons.prems by fastforce
  moreover obtain ts' where
    "CRDTWorkerFSM_OnExecuteTransaction z ts (crdt_db z t db) = Some (ts', fold (crdt_db z) ts (crdt_db z t db))"
    "map flags ts' = map (\<lambda>u. (crdt_ok z u (crdt_db z t db), envelop u)) ts"
    using Cons.IH[of "crdt_db z t db"] Cons.prems by auto
  ultimately show ?case by (simp add: crdt_ok_stable[OF assms(1)])
qed simp

lemma crdt_phase_run:
  assumes "int_codec z" and "\<forall>t \<in> set (concat ps). isCrdtChainCode (ccName (userRequest t))"
  shows "\<exists>ps'. crdt_exec_phase z ps db = Some (ps', fold (crdt_db z) (concat ps) db) \<and>
     map (map flags) ps' = map (map (\<lambda>t. (crdt_ok z t db, envelop t))) ps"
  using assms(2)
proof (induction ps arbitrary: db)
  case (Cons p ps)
  let ?db = "fold (crdt_db z) p db"
  obtain p' where "CRDTWorkerFSM_OnExecuteTransaction z p db = Some (p', ?db)"
    "map flags p' = map (\<lambda>t. (crdt_ok z t db, envelop t)) p"
    using crdt_worker_run[OF assms(1), of p db] Cons.prems by auto
  moreover obtain ps' where "crdt_exec_phase z ps ?db = Some (ps', fold (crdt_db z) (concat ps) ?db)"
    "map (map flags) ps' = map (map (\<lambda>t. (crdt_ok z t ?db, envelop t))) ps"
    using Cons.IH[of ?db] Cons.prems by auto
  ultimately show ?case by (simp add: crdt_ok_fold[OF assms(1)])
qed simp

lemma write_back_map: "map g (write_back js ys arr) = write_back js (map g ys) (map g arr)"
  by (induction js ys arr rule: write_back.induct) (simp_all add: map_update)

lemma collect_map:
  assumes "length yss = workers"
  shows "map g (collect workers yss arr) = collect workers (map (map g) yss) (map g arr)"
proof -
  have "map g (fold (\<lambda>w. write_back (stride workers w n) (yss ! w)) ws a)
      = fold (\<lambda>w. write_back (stride workers w n) (map (map g) yss ! w)) ws (map g a)"
    if "set ws \<subseteq> {0..<workers}" for ws a n
    using that assms by (induction ws arbitrary: a) (simp_all add: write_back_map)
  then show ?thesis by (simp add: collect_def)
qed

lemma crdt_coordinator_run:
  assumes "int_codec z" and "0 < workers" and "\<forall>t \<in> set ts. isCrdtChainCode (ccName (userRequest t))"
  shows "\<exists>ts'. CrdtCoordinator_processTransactions z workers ts db = Some (True, ts', fold (crdt_db z) ts db) \<and>
     map flags ts' = map (\<lambda>t. (crdt_ok z t db, envelop t)) ts"
proof -
  let ?ps = "map (\<lambda>w. deal workers w ts) [0..<workers]"
  have perm: "mset (concat ?ps) = mset ts" by (rule mset_deal[OF assms(2)])
  have "\<forall>t \<in> set (concat ?ps). isCrdtChainCode (ccName (userRequest t))"
    using assms(3) by (simp only: mset_eq_setD[OF perm])
  then obtain ps' where ps': "crdt_exec_phase z ?ps db = Some (ps', fold (crdt_db z) (concat ?ps) db)"
    "map (map flags) ps' = map (map (\<lambda>t. (crdt_ok z t db, envelop t))) ?ps"
    using crdt_phase_run[OF assms(1), of ?ps db] by auto
  have "fold (crdt_db z) (concat ?ps) = fold (crdt_db z) ts"
    by (rule fold_multiset_equiv[OF _ perm]) (simp add: fun_eq_iff crdt_db_commute[OF assms(1)])
  moreover have "map flags (collect workers ps' ts) = map (\<lambda>t. (crdt_ok z t db, envelop t)) ts"
  proof -
    have "length ps' = workers" using arg_cong[OF ps'(2), of length] by simp
    then have "map flags (collect workers ps' ts) = collect workers (map (map flags) ps') (map flags ts)"
      by (rule collect_map)
    also have "\<dots> = map (\<lambda>t. (crdt_ok z t db, envelop t)) ts"
      unfolding ps'(2) by (rule collect_deal[OF assms(2)]) simp_all
    finally show ?thesis .
  qed
  ultimately show ?thesis
    by (simp add: CrdtCoordinator_processTransactions_def ps'(1) processParallel_ok_def worker_turn_def
        list_all_iff)
qed

end
