(* ===== verification/Mix.thy ===== *)
theory Mix
  imports AriaSerializable Crdt
begin

text \<open>
  The engines of \<^verbatim>\<open>my_cc\<close>: the deterministic engine (\<^verbatim>\<open>my_cc/deterministic\<close>), shown to
  compute what the engine of \<open>Aria\<close> computes, and the mixed engine (\<^verbatim>\<open>my_cc/mix\<close>),
  which runs conflict-free transactions first and the others on the database they
  leave. The stand-alone coordinator for conflict-free chaincodes
  (\<^verbatim>\<open>crdt/crdt_coordinator.h\<close>) is here too.

  Both callers of the engines check that a transaction could be built, so the null
  transactions that the workers skip do not occur.
\<close>

section \<open>The deterministic engine of my\_cc\<close>

definition updateTable :: "KVList \<Rightarrow> KVList \<Rightarrow> tid_type \<Rightarrow> ReserveTable \<Rightarrow> ReserveTable" where
  "updateTable rs ws t rt =
     (let rt1 = rt\<lparr>readTable := fold (\<lambda>kv. reserve_min (kv_key kv) t) rs (readTable rt)\<rparr>
      in rt1\<lparr>writeTable := fold (\<lambda>kv. reserve_min (kv_key kv) t) ws (writeTable rt1)\<rparr>)"

definition getDependence :: "KVList \<Rightarrow> KVList \<Rightarrow> tid_type \<Rightarrow> ReserveTable \<Rightarrow> Dependency" where
  "getDependence rs ws t rt =
     (let waw = dep_scan (writeTable rt) ws t;
          war = dep_scan (readTable rt) ws t;
          raw = dep_scan (writeTable rt) rs t
      in \<lparr>dep_waw = waw, dep_war = war, dep_raw = raw\<rparr>)"

definition det_exec_step ::
  "registry \<Rightarrow> DB \<Rightarrow> Transaction \<Rightarrow> ReserveTable \<Rightarrow> (Transaction \<times> ReserveTable) option" where
  "det_exec_step ccs db txn rt =
     (case invoke_txn ccs db txn of
        None \<Rightarrow> None
      | Some (ret, txn1) \<Rightarrow>
          if ret \<noteq> 0 then Some (setExecutionResult ABORT_NO_RETRY txn1, rt)
          else if getWrites txn1 = [] then Some (setExecutionResult COMMIT txn1, rt)
          else Some (txn1, updateTable (getReads txn1) (getWrites txn1) (tid txn1) rt))"

fun DeterministicFSM_OnExecuteTransaction ::
  "registry \<Rightarrow> DB \<Rightarrow> Transaction list \<Rightarrow> ReserveTable \<Rightarrow> (Transaction list \<times> ReserveTable) option" where
  "DeterministicFSM_OnExecuteTransaction ccs db [] rt = Some ([], rt)"
| "DeterministicFSM_OnExecuteTransaction ccs db (t # ts) rt =
     (case det_exec_step ccs db t rt of
        None \<Rightarrow> None
      | Some (t', rt') \<Rightarrow>
          (case DeterministicFSM_OnExecuteTransaction ccs db ts rt' of
             None \<Rightarrow> None
           | Some (ts', rt'') \<Rightarrow> Some (t' # ts', rt'')))"

definition det_commit_step :: "ReserveTable \<Rightarrow> Transaction \<Rightarrow> WriteBatch \<Rightarrow> Transaction \<times> WriteBatch" where
  "det_commit_step rt txn b =
     (if hasResult txn ABORT_NO_RETRY then (txn, b)
      else if hasResult txn COMMIT then (txn, b)
      else
        (let dep = getDependence (getReads txn) (getWrites txn) (tid txn) rt in
         if dep_waw dep then (setExecutionResult ABORT txn, b)
         else if dep_war dep \<and> dep_raw dep then (setExecutionResult ABORT txn, b)
         else (setExecutionResult COMMIT txn, batch_kvs (getWrites txn) b)))"

fun det_commit_loop :: "ReserveTable \<Rightarrow> Transaction list \<Rightarrow> WriteBatch \<Rightarrow> Transaction list \<times> WriteBatch" where
  "det_commit_loop rt [] b = ([], b)"
| "det_commit_loop rt (t # ts) b =
     (let (t', b') = det_commit_step rt t b; (ts', b'') = det_commit_loop rt ts b' in (t' # ts', b''))"

definition DeterministicFSM_OnCommitTransaction ::
  "ReserveTable \<Rightarrow> Transaction list \<Rightarrow> DB \<Rightarrow> Transaction list \<times> DB" where
  "DeterministicFSM_OnCommitTransaction rt txns db =
     (fst (det_commit_loop rt txns empty_batch),
      snd (syncWriteBatch (\<lambda>b. (True, snd (det_commit_loop rt txns b))) db))"

fun det_exec_phase ::
  "registry \<Rightarrow> DB \<Rightarrow> Transaction list list \<Rightarrow> ReserveTable \<Rightarrow>
     (Transaction list list \<times> ReserveTable) option" where
  "det_exec_phase ccs db [] rt = Some ([], rt)"
| "det_exec_phase ccs db (p # ps) rt =
     (case DeterministicFSM_OnExecuteTransaction ccs db p rt of
        None \<Rightarrow> None
      | Some (p', rt') \<Rightarrow>
          (case det_exec_phase ccs db ps rt' of
             None \<Rightarrow> None
           | Some (ps', rt'') \<Rightarrow> Some (p' # ps', rt'')))"

fun det_commit_phase :: "ReserveTable \<Rightarrow> Transaction list list \<Rightarrow> DB \<Rightarrow> Transaction list list \<times> DB" where
  "det_commit_phase rt [] db = ([], db)"
| "det_commit_phase rt (p # ps) db =
     (let (p', db') = DeterministicFSM_OnCommitTransaction rt p db;
          (ps', db'') = det_commit_phase rt ps db'
      in (p' # ps', db''))"

text \<open>\<^verbatim>\<open>processSync\<close> on the parts of the workers.\<close>

definition det_processSync ::
  "registry \<Rightarrow> Transaction list list \<Rightarrow> DB \<Rightarrow> (Transaction list list \<times> DB) option" where
  "det_processSync ccs parts db =
     (case det_exec_phase ccs db parts ReserveTable_reset of
        None \<Rightarrow> None
      | Some (parts1, rt) \<Rightarrow> Some (det_commit_phase rt parts1 db))"

definition DeterministicCoordinator_processTransactions ::
  "registry \<Rightarrow> nat \<Rightarrow> Transaction list \<Rightarrow> DB \<Rightarrow> (bool \<times> Transaction list \<times> DB) option" where
  "DeterministicCoordinator_processTransactions ccs workers txns db =
     (case det_processSync ccs (map (\<lambda>w. deal workers w txns) [0..<workers]) db of
        None \<Rightarrow> None
      | Some (parts, db') \<Rightarrow> Some (processSync_ok workers, collect workers parts txns, db'))"

definition DeterministicCoordinator_processValidatedRequests ::
  "(string \<Rightarrow> UserRequest option) \<Rightarrow> registry \<Rightarrow> nat \<Rightarrow> Envelop list \<Rightarrow> DB \<Rightarrow> batch_result option" where
  "DeterministicCoordinator_processValidatedRequests decode ccs workers requests db =
     (case start_phase decode workers requests of
        None \<Rightarrow> None
      | Some parts \<Rightarrow>
          (case det_processSync ccs parts db of
             None \<Rightarrow> None
           | Some (parts', db') \<Rightarrow> Some (collect_results workers (length requests) parts' db')))"

section \<open>The stand-alone coordinator for conflict-free chaincodes\<close>

definition CRDTCoordinator_processValidatedRequests ::
  "(string \<Rightarrow> UserRequest option) \<Rightarrow> zpp \<Rightarrow> nat \<Rightarrow> Envelop list \<Rightarrow> DB \<Rightarrow> batch_result option" where
  "CRDTCoordinator_processValidatedRequests decode z workers requests db =
     (case start_phase decode workers requests of
        None \<Rightarrow> None
      | Some parts \<Rightarrow>
          (case crdt_exec_phase z parts db of
             None \<Rightarrow> None
           | Some (parts', db') \<Rightarrow> Some (collect_results workers (length requests) parts' db')))"

section \<open>The mixed engine\<close>

fun mix_merge :: "bool list \<Rightarrow> Transaction list \<Rightarrow> Transaction list \<Rightarrow> Transaction list" where
  "mix_merge (True # bs) (c # cs) ds = c # mix_merge bs cs ds"
| "mix_merge (False # bs) cs (d # ds) = d # mix_merge bs cs ds"
| "mix_merge _ _ _ = []"

text \<open>
  The vectors when a phase fails: the requests were moved into transactions and the
  results hold their initial values.
\<close>

definition mix_failed :: "nat \<Rightarrow> DB \<Rightarrow> batch_result" where
  "mix_failed n db =
     \<lparr>br_ok = False, br_requests = replicate n None, br_rwsets = replicate n None,
      br_results = replicate n False, br_db = db\<rparr>"

definition is_crdt_txn :: "Transaction \<Rightarrow> bool" where
  "is_crdt_txn t = isCrdtChainCode (ccName (userRequest t))"

definition MixCoordinator_processValidatedRequests ::
  "bool \<Rightarrow> (string \<Rightarrow> UserRequest option) \<Rightarrow> zpp \<Rightarrow> registry \<Rightarrow> nat \<Rightarrow> Envelop list \<Rightarrow> DB \<Rightarrow>
     batch_result option" where
  "MixCoordinator_processValidatedRequests enableMix decode z ccs workers requests db =
     (if \<not> enableMix then DeterministicCoordinator_processValidatedRequests decode ccs workers requests db
      else
        (case map_opt (NewTransactionFromEnvelop decode) requests of
           None \<Rightarrow> None
         | Some txns \<Rightarrow>
             (let isCrdtTxn = map is_crdt_txn txns;
                  crdtTxn = filter is_crdt_txn txns;
                  deterministicTxn = filter (\<lambda>t. \<not> is_crdt_txn t) txns
              in case CrdtCoordinator_processTransactions z workers crdtTxn db of
                   None \<Rightarrow> None
                 | Some (ok, crdtTxn', db') \<Rightarrow>
                     if \<not> ok then Some (mix_failed (length requests) db')
                     else
                       (case DeterministicCoordinator_processTransactions ccs workers deterministicTxn db' of
                          None \<Rightarrow> None
                        | Some (ok', deterministicTxn', db'') \<Rightarrow>
                            if \<not> ok' then Some (mix_failed (length requests) db'')
                            else Some (finish_all (mix_merge isCrdtTxn crdtTxn' deterministicTxn') db'')))))"

section \<open>The deterministic engine computes the reference\<close>

lemma updateTable_eq: "updateTable = reserveRWSets"
  by (intro ext) (simp add: updateTable_def reserveRWSets_def Let_def)

lemma getDependence_eq: "getDependence = analysisDependent"
  by (intro ext) (simp add: getDependence_def analysisDependent_def Let_def)

lemma det_exec_step_eq: "det_exec_step = exec_step"
  unfolding det_exec_step_def exec_step_def updateTable_eq by (rule refl)

lemma det_exec_eq: "DeterministicFSM_OnExecuteTransaction ccs db ts rt = OnExecuteTransaction ccs db ts rt"
  by (induction ts arbitrary: rt) (simp_all add: det_exec_step_eq split: option.split)

lemma det_exec_phase_eq: "det_exec_phase ccs db ps rt = exec_phase ccs db ps rt"
  by (induction ps arbitrary: rt) (simp_all add: det_exec_eq split: option.split)

text \<open>
  After execution a transaction is marked committed exactly if it succeeded and writes
  nothing.
\<close>

definition settled :: "Transaction \<Rightarrow> bool" where
  "settled t \<longleftrightarrow> (hasResult t COMMIT \<longleftrightarrow> \<not> hasResult t ABORT_NO_RETRY \<and> getWrites t = [])"

lemma exec_result_settled:
  assumes "pending t" and "exec_result ccs db t = Some t'"
  shows "settled t'"
proof -
  obtain ret t1 where inv: "invoke_txn ccs db t = Some (ret, t1)"
    using assms(2) by (auto simp: exec_result_def exec_step_def split: option.splits)
  then have "hasResult t1 PENDING"
    using assms(1) by (simp add: invoke_txn_fields(4) pending_def)
  then have "\<not> hasResult t1 COMMIT" by (auto dest: hasResult_unique)
  with inv assms(2) show ?thesis
    by (auto simp: exec_result_def exec_step_def settled_def split: if_splits)
qed

lemma setExecutionResult_same: "hasResult t r \<Longrightarrow> setExecutionResult r t = t"
  by (simp add: hasResult_def setExecutionResult_def)

lemma det_commit_step_eq:
  assumes "settled t"
  shows "det_commit_step rt t b = commit_step rt t b"
  using assms
  by (auto simp: det_commit_step_def commit_step_def settled_def getDependence_eq Let_def
      setExecutionResult_same)

lemma det_commit_loop_eq:
  "\<forall>t \<in> set ts. settled t \<Longrightarrow> det_commit_loop rt ts b = commit_loop rt ts b"
  by (induction ts arbitrary: b) (simp_all add: det_commit_step_eq case_prod_beta)

lemma det_commit_phase_eq:
  assumes "\<forall>p \<in> set ps. \<forall>t \<in> set p. settled t"
  shows "det_commit_phase rt ps db = commit_phase rt ps db"
  using assms
proof (induction ps arbitrary: db)
  case (Cons p ps)
  then have "DeterministicFSM_OnCommitTransaction rt p db = OnCommitTransaction rt p db"
    by (simp add: DeterministicFSM_OnCommitTransaction_def OnCommitTransaction_def det_commit_loop_eq)
  with Cons show ?case by (simp add: case_prod_beta)
qed simp

lemma exec_phase_settled:
  assumes "\<forall>p \<in> set parts. \<forall>t \<in> set p. pending t" and "exec_phase ccs db parts rt0 = Some (parts1, rt)"
  shows "\<forall>p \<in> set parts1. \<forall>t \<in> set p. settled t"
proof (intro ballI)
  fix p' t' assume p': "p' \<in> set parts1" and t': "t' \<in> set p'"
  have "map_opt (map_opt (exec_result ccs db)) parts = Some parts1"
    using assms by (auto simp: exec_phase_split split: option.splits)
  then have "Some p' \<in> set (map (map_opt (exec_result ccs db)) parts)"
    using p' by (simp only: map_opt_Some) simp
  then obtain p where p: "p \<in> set parts" "map_opt (exec_result ccs db) p = Some p'" by auto
  then have "Some t' \<in> set (map (exec_result ccs db) p)"
    using t' by (simp only: map_opt_Some) simp
  then obtain t where "t \<in> set p" "exec_result ccs db t = Some t'" by auto
  with p(1) assms(1) show "settled t'" using exec_result_settled by blast
qed

lemma det_processSync_eq:
  assumes "\<forall>p \<in> set parts. \<forall>t \<in> set p. pending t"
  shows "det_processSync ccs parts db =
     (case exec_phase ccs db parts ReserveTable_reset of
        None \<Rightarrow> None
      | Some (parts1, rt) \<Rightarrow> Some (commit_phase rt parts1 db))"
  using exec_phase_settled[OF assms, of ccs db ReserveTable_reset]
  by (auto simp: det_processSync_def det_exec_phase_eq det_commit_phase_eq split: option.split)

lemma det_requests_eq:
  assumes "0 < workers"
  shows "DeterministicCoordinator_processValidatedRequests decode ccs workers requests db
     = CoordinatorImpl_processValidatedRequests decode ccs workers requests db"
proof (cases "map_opt (NewTransactionFromEnvelop decode) requests")
  case None
  with assms show ?thesis
    by (simp add: CoordinatorImpl_processValidatedRequests_def
        DeterministicCoordinator_processValidatedRequests_def start_phase_def map_opt_deal)
next
  case (Some ts)
  have "start_phase decode workers requests = Some (map (\<lambda>w. deal workers w ts) [0..<workers])"
    using assms Some by (simp add: start_phase_def map_opt_deal)
  moreover note det_processSync_eq[OF deal_all[OF NewTransaction_pending[OF Some] assms], of ccs db]
  ultimately show ?thesis
    by (simp add: CoordinatorImpl_processValidatedRequests_def
        DeterministicCoordinator_processValidatedRequests_def case_prod_beta Let_def split: option.split)
qed

text \<open>The reference for transactions that are handed over already built.\<close>

definition aria_txns ::
  "registry \<Rightarrow> Transaction list \<Rightarrow> DB \<Rightarrow> (Transaction list \<times> DB) option" where
  "aria_txns ccs ts0 db =
     (case map_opt (exec_result ccs db) ts0 of
        None \<Rightarrow> None
      | Some ts \<Rightarrow>
          (let rt = table_of ts ReserveTable_reset
           in Some (map (commit_result rt) ts, commit_all (filter (wins rt) ts) db)))"

lemma aria_spec_txns:
  assumes "map_opt (NewTransactionFromEnvelop decode) requests = Some ts0"
  shows "aria_spec decode ccs requests db = map_option (\<lambda>(ts, db'). finish_all ts db') (aria_txns ccs ts0 db)"
  by (simp add: aria_spec_def aria_txns_def assms Let_def split: option.split)

lemma det_transactions_spec:
  assumes "0 < workers" and "\<forall>t \<in> set ts0. pending t" and "distinct (map tid ts0)"
  shows "DeterministicCoordinator_processTransactions ccs workers ts0 db =
     map_option (\<lambda>(ts, db'). (True, ts, db')) (aria_txns ccs ts0 db)"
proof -
  have ok: "processSync_ok workers"
    by (simp add: processSync_ok_def processParallel_ok_def worker_turn_def list_all_iff)
  have "collect workers (map (\<lambda>w. deal workers w ts) [0..<workers]) ts0 = ts" if "length ts = length ts0" for ts
    using collect_deal[OF assms(1), of ts0 ts _ id] that by simp
  moreover note det_processSync_eq[OF deal_all[OF assms(2,1)], of ccs db]
    phases_dealt[OF assms, where ccs = ccs and db = db]
  moreover have "length ts = length ts0" if "map_opt (exec_result ccs db) ts0 = Some ts" for ts
    using that by (rule map_opt_length)
  ultimately show ?thesis
    by (simp add: DeterministicCoordinator_processTransactions_def aria_txns_def ok Let_def split: option.split)
qed

section \<open>What the mixed engine returns\<close>

text \<open>The entries of a vector at the positions where the request satisfies \<open>P\<close>.\<close>

definition select :: "('a \<Rightarrow> bool) \<Rightarrow> 'a list \<Rightarrow> 'b list \<Rightarrow> 'b list" where
  "select P xs ys = map snd (filter (P \<circ> fst) (zip xs ys))"

lemma select_map: "select P xs (map h ys) = map h (select P xs ys)"
  by (simp add: select_def zip_map2 filter_map comp_def case_prod_beta)

lemma mix_merge_select:
  assumes "length cs = length (filter P xs)" and "length ds = length (filter (\<lambda>x. \<not> P x) xs)"
  shows "select P xs (mix_merge (map P xs) cs ds) = cs"
    and "select (\<lambda>x. \<not> P x) xs (mix_merge (map P xs) cs ds) = ds"
    and "length (mix_merge (map P xs) cs ds) = length xs"
  using assms
proof (induction xs arbitrary: cs ds)
  case (Cons x xs)
  {
    case 1
    with Cons(1)[of "tl cs" ds] Cons(1)[of cs "tl ds"] show ?case
      by (cases "P x"; cases cs; cases ds) (auto simp: select_def)
  next
    case 2
    with Cons(2)[of "tl cs" ds] Cons(2)[of cs "tl ds"] show ?case
      by (cases "P x"; cases cs; cases ds) (auto simp: select_def)
  next
    case 3
    with Cons(3)[of "tl cs" ds] Cons(3)[of cs "tl ds"] show ?case
      by (cases "P x"; cases cs; cases ds) auto
  }
qed (simp_all add: select_def)

lemma select_flags: "select P xs ys = map snd (filter fst (zip (map P xs) ys))"
  by (simp add: select_def zip_map1 filter_map comp_def case_prod_beta)

lemma select_cong:
  assumes "map P xs = map Q ys"
  shows "select P xs zs = select Q ys zs"
  unfolding select_flags assms by (rule refl)

lemma select_self: "select P xs xs = filter P xs"
  by (induction xs) (auto simp: select_def)

lemma select_eqI:
  assumes "select P xs ys = select P xs zs" and "select (\<lambda>x. \<not> P x) xs ys = select (\<lambda>x. \<not> P x) xs zs"
    and "length ys = length xs" and "length zs = length xs"
  shows "ys = zs"
  using assms
proof (induction xs arbitrary: ys zs)
  case (Cons x xs)
  then obtain y ys' z zs' where l: "ys = y # ys'" "zs = z # zs'"
    by (cases ys; cases zs) auto
  with Cons.prems have "y = z" "select P xs ys' = select P xs zs'"
    "select (\<lambda>x. \<not> P x) xs ys' = select (\<lambda>x. \<not> P x) xs zs'"
    by (auto simp: select_def split: if_splits)
  with Cons.IH[of ys' zs'] Cons.prems(3,4) l show ?case by simp
qed simp

lemma map_opt_filter:
  assumes "map_opt f xs = Some ys" and "\<And>x y. f x = Some y \<Longrightarrow> P y = Q x"
  shows "map_opt f (filter Q xs) = Some (filter P ys)" and "map Q xs = map P ys"
  using assms(1)
proof (induction xs arbitrary: ys)
  case (Cons x xs)
  { case 1 with Cons(1) assms(2) show ?case by (auto split: option.splits)
  next case 2 with Cons(2) assms(2) show ?case by (auto split: option.splits) }
qed auto

definition crdt_request :: "(string \<Rightarrow> UserRequest option) \<Rightarrow> Envelop \<Rightarrow> bool" where
  "crdt_request decode q =
     (case decode (payload q) of None \<Rightarrow> False | Some u \<Rightarrow> isCrdtChainCode (ccName u))"

lemma crdt_request_txn:
  "NewTransactionFromEnvelop decode q = Some t \<Longrightarrow> is_crdt_txn t = crdt_request decode q"
  by (auto simp: crdt_request_def is_crdt_txn_def dest: NewTransactionFromEnvelop_Some(3))

lemma NewTransaction_envelops:
  assumes "map_opt (NewTransactionFromEnvelop decode) requests = Some ts"
  shows "map envelop ts = requests"
  using map_opt_fields[OF assms, of envelop id] NewTransactionFromEnvelop_Some(2) by simp

lemma NewTransaction_tids:
  assumes "map_opt (NewTransactionFromEnvelop decode) requests = Some ts"
  shows "map tid ts = map (\<lambda>q. digest (signature q)) requests"
  using map_opt_fields[OF assms, of tid "\<lambda>q. digest (signature q)"] NewTransactionFromEnvelop_Some(1) by simp

lemma aria_txns_envelops:
  assumes "aria_txns ccs ts0 db = Some (ts, db')"
  shows "map envelop ts = map envelop ts0"
proof -
  obtain ts1 where ts1: "map_opt (exec_result ccs db) ts0 = Some ts1"
    and ts: "ts = map (commit_result (table_of ts1 ReserveTable_reset)) ts1"
    using assms by (auto simp: aria_txns_def Let_def split: option.splits)
  have "map envelop ts1 = map envelop ts0"
    by (rule map_opt_fields[OF ts1]) (rule exec_result_fields(2))
  then show ?thesis by (simp add: ts comp_def commit_result_finish)
qed

text \<open>
  What a successful run of the mixed engine returns, in terms of the transactions the
  requests stand for.
\<close>

lemma mix_run:
  fixes db :: DB
  assumes "int_codec z" and "0 < workers" and "distinct (map (\<lambda>q. digest (signature q)) requests)"
    and "map_opt (NewTransactionFromEnvelop decode) requests = Some txns"
  defines "db1 \<equiv> fold (crdt_db z) (filter is_crdt_txn txns) db"
  shows "case aria_txns ccs (filter (\<lambda>t. \<not> is_crdt_txn t) txns) db1 of
       None \<Rightarrow> MixCoordinator_processValidatedRequests True decode z ccs workers requests db = None
     | Some (ds, db2) \<Rightarrow>
         \<exists>cs. map flags cs = map (\<lambda>t. (crdt_ok z t db, envelop t)) (filter is_crdt_txn txns) \<and>
           MixCoordinator_processValidatedRequests True decode z ccs workers requests db =
             Some (finish_all (mix_merge (map is_crdt_txn txns) cs ds) db2)"
proof -
  let ?crdt = "filter is_crdt_txn txns" and ?det = "filter (\<lambda>t. \<not> is_crdt_txn t) txns"
  obtain cs where cs: "CrdtCoordinator_processTransactions z workers ?crdt db = Some (True, cs, db1)"
    "map flags cs = map (\<lambda>t. (crdt_ok z t db, envelop t)) ?crdt"
    using crdt_coordinator_run[OF assms(1,2), of ?crdt db] by (auto simp: db1_def is_crdt_txn_def)
  have "distinct (map tid ?det)"
    using assms(3) by (simp add: NewTransaction_tids[OF assms(4), symmetric] distinct_map_filter)
  moreover have "\<forall>t \<in> set ?det. pending t"
    using NewTransaction_pending[OF assms(4)] by simp
  ultimately have det: "DeterministicCoordinator_processTransactions ccs workers ?det db1 =
      map_option (\<lambda>(ts, db'). (True, ts, db')) (aria_txns ccs ?det db1)"
    using assms(2) by (intro det_transactions_spec)
  show ?thesis
    using cs det assms(4)
    by (auto simp: MixCoordinator_processValidatedRequests_def Let_def split: option.split)
qed

text \<open>
  The positions of a batch result: the conflict-free requests got the flags that the
  conflict-free engine decides on the initial database, and the others got what the
  reference engine computes for them alone on the database the former leave.
\<close>

definition mix_explained ::
  "(string \<Rightarrow> UserRequest option) \<Rightarrow> zpp \<Rightarrow> registry \<Rightarrow> Envelop list \<Rightarrow> DB \<Rightarrow>
     Transaction list \<Rightarrow> batch_result \<Rightarrow> batch_result \<Rightarrow> bool" where
  "mix_explained decode z ccs requests db crdts rd r \<longleftrightarrow>
     br_ok r \<and> br_requests r = map Some requests \<and>
     map_opt (NewTransactionFromEnvelop decode) (filter (crdt_request decode) requests) = Some crdts \<and>
     select (crdt_request decode) requests (br_results r) = map (\<lambda>t. crdt_ok z t db) crdts \<and>
     aria_spec decode ccs (filter (\<lambda>q. \<not> crdt_request decode q) requests)
       (fold (crdt_db z) crdts db) = Some rd \<and>
     select (\<lambda>q. \<not> crdt_request decode q) requests (br_results r) = br_results rd \<and>
     select (\<lambda>q. \<not> crdt_request decode q) requests (br_rwsets r) = br_rwsets rd \<and>
     br_db r = br_db rd"

lemma finish_all_fields:
  "br_ok (finish_all ts db) = True" "br_db (finish_all ts db) = db"
  "br_requests (finish_all ts db) = map (Some \<circ> envelop) ts"
  "br_rwsets (finish_all ts db) = map (Some \<circ> executionResult) ts"
  "br_results (finish_all ts db) = map (\<lambda>t. hasResult t COMMIT) ts"
  by (simp_all add: finish_all_def finish_txn_def DestroyTransaction_def Let_def)

lemma mix_outcome:
  assumes "int_codec z" and "0 < workers" and "distinct (map (\<lambda>q. digest (signature q)) requests)"
    and mix: "MixCoordinator_processValidatedRequests True decode z ccs workers requests db = Some r"
  shows "\<exists>crdts rd. mix_explained decode z ccs requests db crdts rd r"
proof -
  obtain txns where txns: "map_opt (NewTransactionFromEnvelop decode) requests = Some txns"
    using mix by (auto simp: MixCoordinator_processValidatedRequests_def split: option.splits)
  let ?C = "crdt_request decode" and ?crdts = "filter is_crdt_txn txns"
  let ?dets = "filter (\<lambda>t. \<not> is_crdt_txn t) txns"
  let ?db1 = "fold (crdt_db z) ?crdts db"
  note run = mix_run[OF assms(1-3) txns, where ccs = ccs and db = db]
  obtain ds db2 where ds: "aria_txns ccs ?dets ?db1 = Some (ds, db2)"
    using run mix by (auto split: option.splits)
  then obtain cs where cs: "map flags cs = map (\<lambda>t. (crdt_ok z t db, envelop t)) ?crdts"
    and r: "r = finish_all (mix_merge (map is_crdt_txn txns) cs ds) db2"
    using run mix by auto
  let ?m = "mix_merge (map is_crdt_txn txns) cs ds"
  have len: "length cs = length ?crdts" "length ds = length ?dets"
    using arg_cong[OF cs, of length] arg_cong[OF aria_txns_envelops[OF ds], of length] by simp_all
  have sel: "select ?C requests ys = select is_crdt_txn txns ys"
    "select (\<lambda>q. \<not> ?C q) requests ys = select (\<lambda>t. \<not> is_crdt_txn t) txns ys" for ys :: "'x list"
    using map_opt_filter(2)[OF txns, of is_crdt_txn ?C] map_opt_filter(2)[OF txns, of "\<lambda>t. \<not> is_crdt_txn t" "\<lambda>q. \<not> ?C q"]
      crdt_request_txn by (auto intro!: select_cong)
  note merged = mix_merge_select[of cs is_crdt_txn txns ds, OF len]
  have crdts: "map_opt (NewTransactionFromEnvelop decode) (filter ?C requests) = Some ?crdts"
    by (rule map_opt_filter(1)[OF txns]) (rule crdt_request_txn)
  have dets: "map_opt (NewTransactionFromEnvelop decode) (filter (\<lambda>q. \<not> ?C q) requests) = Some ?dets"
    by (rule map_opt_filter(1)[OF txns]) (simp add: crdt_request_txn)
  have ok: "map (\<lambda>t. hasResult t COMMIT) cs = map (\<lambda>t. crdt_ok z t db) ?crdts"
    using arg_cong[OF cs, of "map fst"] by (simp add: flags_def comp_def)
  have "map envelop ?m = requests"
  proof (rule select_eqI[of is_crdt_txn txns])
    have "map envelop cs = map envelop ?crdts"
      using arg_cong[OF cs, of "map snd"] by (simp add: flags_def comp_def)
    then show "select is_crdt_txn txns (map envelop ?m) = select is_crdt_txn txns requests"
      by (simp add: select_map merged select_self flip: NewTransaction_envelops[OF txns])
    show "select (\<lambda>t. \<not> is_crdt_txn t) txns (map envelop ?m) = select (\<lambda>t. \<not> is_crdt_txn t) txns requests"
      using aria_txns_envelops[OF ds]
      by (simp add: select_map merged select_self flip: NewTransaction_envelops[OF txns])
  qed (use merged(3) map_opt_length[OF txns] in simp_all)
  then have "map (Some \<circ> envelop) ?m = map Some requests" by (simp flip: map_map)
  then have "mix_explained decode z ccs requests db ?crdts (finish_all ds db2) r"
    by (simp add: mix_explained_def r finish_all_fields crdts sel select_map merged
        aria_spec_txns[OF dets] ds ok)
  then show ?thesis by blast
qed

end
