(* ===== verification/AriaConcurrent.thy ===== *)
theory AriaConcurrent
  imports Aria
begin

text \<open>
  The phases of the deterministic engine under concurrency. During the execution phase
  the database is only read and the workers share the reserve table; each
  \<^verbatim>\<open>try_emplace_l\<close> is atomic (it holds the lock of the key's bucket). During the
  commit phase the table is only read and the workers share the database; each
  insertion or removal of a key is atomic. Whatever the interleaving, the phases end
  in the states that the sequential definitions of \<open>Aria\<close> compute.
\<close>

section \<open>Execution phase\<close>

datatype table_op = ReserveRead string tid_type | ReserveWrite string tid_type

primrec table_act :: "table_op \<Rightarrow> ReserveTable \<Rightarrow> ReserveTable" where
  "table_act (ReserveRead k t) rt = rt\<lparr>readTable := reserve_min k t (readTable rt)\<rparr>"
| "table_act (ReserveWrite k t) rt = rt\<lparr>writeTable := reserve_min k t (writeTable rt)\<rparr>"

text \<open>The reservations an executed transaction makes, in the order of \<^verbatim>\<open>reserveRWSets\<close>.\<close>

definition txn_ops :: "Transaction \<Rightarrow> table_op list" where
  "txn_ops t =
     (if reserving t
      then map (\<lambda>kv. ReserveRead (kv_key kv) (tid t)) (getReads t) @
           map (\<lambda>kv. ReserveWrite (kv_key kv) (tid t)) (getWrites t)
      else [])"

definition exec_ops :: "Transaction list \<Rightarrow> table_op list" where
  "exec_ops ts = concat (map txn_ops ts)"

lemma table_act_commute: "table_act x \<circ> table_act y = table_act y \<circ> table_act x"
  by (cases x; cases y) (auto simp: fun_eq_iff rmin.reserve_commute)

lemma fold_ReserveRead:
  "fold table_act (map (\<lambda>kv. ReserveRead (kv_key kv) t) kvs) rt =
     rt\<lparr>readTable := fold (\<lambda>kv. reserve_min (kv_key kv) t) kvs (readTable rt)\<rparr>"
  by (induction kvs arbitrary: rt) auto

lemma fold_ReserveWrite:
  "fold table_act (map (\<lambda>kv. ReserveWrite (kv_key kv) t) kvs) rt =
     rt\<lparr>writeTable := fold (\<lambda>kv. reserve_min (kv_key kv) t) kvs (writeTable rt)\<rparr>"
  by (induction kvs arbitrary: rt) auto

lemma fold_txn_ops: "fold table_act (txn_ops t) rt = table_of [t] rt"
  by (simp add: txn_ops_def fold_ReserveRead fold_ReserveWrite reserveRWSets_def)

lemma fold_exec_ops: "fold table_act (exec_ops ts) rt = table_of ts rt"
proof (induction ts arbitrary: rt)
  case (Cons t ts)
  have "fold table_act (exec_ops (t # ts)) rt = fold table_act (exec_ops ts) (fold table_act (txn_ops t) rt)"
    by (simp add: exec_ops_def)
  also have "\<dots> = table_of ts (table_of [t] rt)" by (simp only: Cons.IH fold_txn_ops)
  finally show ?case by simp
qed (simp add: exec_ops_def)

lemma exec_ops_concat: "concat (map exec_ops ps) = exec_ops (concat ps)"
  by (induction ps) (simp_all add: exec_ops_def)

lemma exec_interleaved:
  assumes "par_run table_act (rt, map exec_ops parts) (rt', ws)" and "all_done ws"
  shows "rt' = table_of (concat parts) rt"
proof -
  have "ops_commute table_act (map exec_ops parts)"
    unfolding ops_commute_def by (simp only: table_act_commute simp_thms)
  with assms have "rt' = fold table_act (concat (map exec_ops parts)) rt"
    by (intro par_run_sequential)
  then show ?thesis by (simp add: exec_ops_concat fold_exec_ops)
qed

section \<open>Commit phase\<close>

definition db_act :: "string \<times> string option \<Rightarrow> DB \<Rightarrow> DB" where
  "db_act op db = db(fst op := snd op)"

definition batch_ops :: "WriteBatch \<Rightarrow> (string \<times> string option) list" where
  "batch_ops b = map (\<lambda>(k, v). (k, Some v)) (batch_writes b) @ map (\<lambda>k. (k, None)) (batch_deletes b)"

definition commit_ops :: "ReserveTable \<Rightarrow> Transaction list \<Rightarrow> (string \<times> string option) list" where
  "commit_ops rt ts = batch_ops (snd (commit_loop rt ts empty_batch))"

lemma fold_batch_ops: "fold db_act (batch_ops b) db = apply_batch b db"
proof -
  have "fold db_act (map (\<lambda>(k, v). (k, Some v)) kvs) d = fold (\<lambda>(k, v). syncPut k v) kvs d" for kvs d
    by (induction kvs arbitrary: d) (auto simp: db_act_def syncPut_def)
  moreover have "fold db_act (map (\<lambda>k. (k, None)) ks) d = fold syncDelete ks d" for ks d
    by (induction ks arbitrary: d) (auto simp: db_act_def syncDelete_def)
  ultimately show ?thesis by (simp add: batch_ops_def apply_batch_def)
qed

lemma commit_ops_keys:
  "fst ` set (commit_ops rt ts) \<subseteq> kvs_keys (concat (map getWrites (filter (wins rt) ts)))"
  by (auto simp: commit_ops_def commit_loop_split batch_ops_def batch_kvs_lists empty_batch_def
      kvs_keys_def)

lemma fold_commit_ops: "fold db_act (commit_ops rt p) db = snd (OnCommitTransaction rt p db)"
  by (simp add: commit_ops_def fold_batch_ops OnCommitTransaction_def syncWriteBatch_def)

lemma fold_commit_phase:
  "fold db_act (concat (map (commit_ops rt) parts)) db = snd (commit_phase rt parts db)"
  by (induction parts arbitrary: db) (simp_all add: fold_commit_ops case_prod_beta Let_def)

lemma distinct_concat_nth:
  assumes "distinct (concat xss)" and "i < length xss" and "j < length xss" and "i \<noteq> j"
  shows "set (xss ! i) \<inter> set (xss ! j) = {}"
  using assms
proof (induction xss arbitrary: i j)
  case (Cons xs xss)
  have away: "set xs \<inter> set (xss ! k) = {}" if "k < length xss" for k
    using Cons.prems(1) nth_mem[OF that] by auto
  show ?case
    using Cons away by (cases i; cases j) auto
qed simp

lemma commit_ops_commute:
  assumes "distinct (map tid (concat parts))" and "rt = table_of (concat parts) ReserveTable_reset"
  shows "ops_commute db_act (map (commit_ops rt) parts)"
  unfolding ops_commute_def
proof (intro allI impI)
  fix i j x y
  assume ij: "i < length (map (commit_ops rt) parts)" "j < length (map (commit_ops rt) parts)" "i \<noteq> j"
    and x: "x \<in> set (map (commit_ops rt) parts ! i)" and y: "y \<in> set (map (commit_ops rt) parts ! j)"
  obtain t where t: "t \<in> set (parts ! i)" "wins rt t" "fst x \<in> write_keys t"
    using commit_ops_keys[of rt "parts ! i"] x ij(1) by (force simp: write_keys_def kvs_keys_def)
  obtain u where u: "u \<in> set (parts ! j)" "wins rt u" "fst y \<in> write_keys u"
    using commit_ops_keys[of rt "parts ! j"] y ij(2) by (force simp: write_keys_def kvs_keys_def)
  have "distinct (concat parts)" using assms(1) by (simp add: distinct_map)
  then have "t \<noteq> u"
    using distinct_concat_nth[of parts i j] ij t(1) u(1) by auto
  moreover have "t \<in> set (concat parts)" "u \<in> set (concat parts)"
    using t(1) u(1) ij(1,2) by (simp_all add: bexI[OF _ nth_mem])
  ultimately have "write_keys t \<inter> write_keys u = {}"
    using winners_disjoint[OF assms(1), of t u] t(2) u(2) assms(2) by simp
  with t(3) u(3) have "fst x \<noteq> fst y" by (auto simp: disjoint_iff)
  then show "db_act x \<circ> db_act y = db_act y \<circ> db_act x"
    by (simp add: db_act_def comp_def fun_upd_twist)
qed

lemma commit_interleaved:
  assumes "distinct (map tid (concat parts))" and "rt = table_of (concat parts) ReserveTable_reset"
    and "par_run db_act (db, map (commit_ops rt) parts) (db', ws)" and "all_done ws"
  shows "db' = snd (commit_phase rt parts db)"
  using par_run_sequential[OF assms(3) commit_ops_commute[OF assms(1,2)] assms(4)]
  by (simp add: fold_commit_phase)

end
