(* ===== verification/WriteBased.thy ===== *)
theory WriteBased
  imports Aria
begin

text \<open>
  The write-based engine, \<^verbatim>\<open>deterministic/write_based\<close>. Only write sets are reserved, a
  transaction is aborted only for reading a key that a smaller identifier reserved, and
  the commit phase runs twice: the first run decides and reserves the writes of the
  committed transactions in a second table, the second run writes the database.
\<close>

section \<open>Tables\<close>

record WBReserveTable =
  rsTable :: table
  cmtTable :: table

definition WBReserveTable_reset :: WBReserveTable where
  "WBReserveTable_reset = \<lparr>rsTable = Map.empty, cmtTable = Map.empty\<rparr>"

definition reserveWrites :: "KVList \<Rightarrow> tid_type \<Rightarrow> WBReserveTable \<Rightarrow> WBReserveTable" where
  "reserveWrites ws t wt = wt\<lparr>rsTable := fold (\<lambda>kv. reserve_min (kv_key kv) t) ws (rsTable wt)\<rparr>"

fun detectRAW :: "KVList \<Rightarrow> tid_type \<Rightarrow> WBReserveTable \<Rightarrow> bool" where
  "detectRAW [] t wt = False"
| "detectRAW (kv # kvs) t wt =
     (if (case rsTable wt (kv_key kv) of None \<Rightarrow> False | Some u \<Rightarrow> CompareTID u t < 0) then True
      else detectRAW kvs t wt)"

text \<open>\<^verbatim>\<open>try_emplace_l\<close> with the opposite comparison: the largest identifier stays.\<close>

definition reserve_max :: "string \<Rightarrow> tid_type \<Rightarrow> table \<Rightarrow> table" where
  "reserve_max k t m =
     (case m k of
        None \<Rightarrow> m(k \<mapsto> t)
      | Some u \<Rightarrow> if 0 \<le> CompareTID u t then m else m(k \<mapsto> t))"

definition mvccReserveWrites :: "KVList \<Rightarrow> tid_type \<Rightarrow> WBReserveTable \<Rightarrow> WBReserveTable" where
  "mvccReserveWrites ws t wt = wt\<lparr>cmtTable := fold (\<lambda>kv. reserve_max (kv_key kv) t) ws (cmtTable wt)\<rparr>"

text \<open>The entries of a write set for which \<^verbatim>\<open>updateDB\<close> runs its callback.\<close>

definition updateDB :: "KVList \<Rightarrow> tid_type \<Rightarrow> WBReserveTable \<Rightarrow> KVList" where
  "updateDB ws t wt =
     filter (\<lambda>kv. case rsTable wt (kv_key kv) of None \<Rightarrow> False | Some u \<Rightarrow> CompareTID u t = 0) ws"

interpretation rmax: keyed_reservation "(\<ge>)" reserve_max
  by unfold_locales (auto simp: reserve_max_def cc_simps split: option.splits)

section \<open>The worker\<close>

definition wb_exec_step ::
  "registry \<Rightarrow> DB \<Rightarrow> Transaction \<Rightarrow> WBReserveTable \<Rightarrow> (Transaction \<times> WBReserveTable) option" where
  "wb_exec_step ccs db txn wt =
     (case invoke_txn ccs db txn of
        None \<Rightarrow> None
      | Some (ret, txn1) \<Rightarrow>
          if ret \<noteq> 0 then Some (setExecutionResult ABORT_NO_RETRY txn1, wt)
          else if getWrites txn1 = [] then Some (txn1, wt)
          else Some (txn1, reserveWrites (getWrites txn1) (tid txn1) wt))"

fun WBWorkerFSM_OnExecuteTransaction ::
  "registry \<Rightarrow> DB \<Rightarrow> Transaction list \<Rightarrow> WBReserveTable \<Rightarrow> (Transaction list \<times> WBReserveTable) option" where
  "WBWorkerFSM_OnExecuteTransaction ccs db [] wt = Some ([], wt)"
| "WBWorkerFSM_OnExecuteTransaction ccs db (t # ts) wt =
     (case wb_exec_step ccs db t wt of
        None \<Rightarrow> None
      | Some (t', wt') \<Rightarrow>
          (case WBWorkerFSM_OnExecuteTransaction ccs db ts wt' of
             None \<Rightarrow> None
           | Some (ts', wt'') \<Rightarrow> Some (t' # ts', wt'')))"

definition first_commit_step :: "Transaction \<Rightarrow> WBReserveTable \<Rightarrow> Transaction \<times> WBReserveTable" where
  "first_commit_step txn wt =
     (if hasResult txn ABORT_NO_RETRY then (txn, wt)
      else if getWrites txn = [] then (setExecutionResult COMMIT txn, wt)
      else if detectRAW (getReads txn) (tid txn) wt then (setExecutionResult ABORT txn, wt)
      else (setExecutionResult COMMIT txn, mvccReserveWrites (getWrites txn) (tid txn) wt))"

fun onFirstCommit :: "Transaction list \<Rightarrow> WBReserveTable \<Rightarrow> Transaction list \<times> WBReserveTable" where
  "onFirstCommit [] wt = ([], wt)"
| "onFirstCommit (t # ts) wt =
     (let (t', wt') = first_commit_step t wt; (ts', wt'') = onFirstCommit ts wt' in (t' # ts', wt''))"

definition second_commit_step :: "WBReserveTable \<Rightarrow> Transaction \<Rightarrow> WriteBatch \<Rightarrow> WriteBatch" where
  "second_commit_step wt txn b =
     (if hasResult txn ABORT_NO_RETRY \<or> hasResult txn ABORT then b
      else batch_kvs (updateDB (getWrites txn) (tid txn) wt) b)"

definition onSecondCommit :: "WBReserveTable \<Rightarrow> Transaction list \<Rightarrow> DB \<Rightarrow> DB" where
  "onSecondCommit wt ts db = snd (syncWriteBatch (\<lambda>b. (True, fold (second_commit_step wt) ts b)) db)"

text \<open>
  \<^verbatim>\<open>OnCommitTransaction\<close> alternates between the two by a flag of the worker.
\<close>

definition WBWorkerFSM_OnCommitTransaction ::
  "bool \<Rightarrow> Transaction list \<Rightarrow> WBReserveTable \<Rightarrow> DB \<Rightarrow> bool \<times> Transaction list \<times> WBReserveTable \<times> DB" where
  "WBWorkerFSM_OnCommitTransaction firstCommit ts wt db =
     (if firstCommit
      then (let (ts', wt') = onFirstCommit ts wt in (\<not> firstCommit, ts', wt', db))
      else (\<not> firstCommit, ts, wt, onSecondCommit wt ts db))"

section \<open>The coordinator\<close>

fun wb_exec_phase ::
  "registry \<Rightarrow> DB \<Rightarrow> Transaction list list \<Rightarrow> WBReserveTable \<Rightarrow>
     (Transaction list list \<times> WBReserveTable) option" where
  "wb_exec_phase ccs db [] wt = Some ([], wt)"
| "wb_exec_phase ccs db (p # ps) wt =
     (case WBWorkerFSM_OnExecuteTransaction ccs db p wt of
        None \<Rightarrow> None
      | Some (p', wt') \<Rightarrow>
          (case wb_exec_phase ccs db ps wt' of
             None \<Rightarrow> None
           | Some (ps', wt'') \<Rightarrow> Some (p' # ps', wt'')))"

fun wb_commit_phase ::
  "(bool \<times> Transaction list) list \<Rightarrow> WBReserveTable \<Rightarrow> DB \<Rightarrow>
     (bool \<times> Transaction list) list \<times> WBReserveTable \<times> DB" where
  "wb_commit_phase [] wt db = ([], wt, db)"
| "wb_commit_phase ((first, p) # ps) wt db =
     (let (first', p', wt', db') = WBWorkerFSM_OnCommitTransaction first p wt db;
          (ps', wt'', db'') = wb_commit_phase ps wt' db'
      in ((first', p') # ps', wt'', db''))"

text \<open>\<^verbatim>\<open>processSync\<close>; the flags of the workers are carried from batch to batch.\<close>

definition wb_processSync ::
  "registry \<Rightarrow> bool list \<Rightarrow> Transaction list list \<Rightarrow> DB \<Rightarrow>
     ((bool \<times> Transaction list) list \<times> DB) option" where
  "wb_processSync ccs firsts parts db =
     (case wb_exec_phase ccs db parts WBReserveTable_reset of
        None \<Rightarrow> None
      | Some (parts1, wt) \<Rightarrow>
          (let (ws1, wt1, db1) = wb_commit_phase (zip firsts parts1) wt db;
               (ws2, wt2, db2) = wb_commit_phase ws1 wt1 db1
           in Some (ws2, db2)))"

definition WBCoordinator_processValidatedRequests ::
  "(string \<Rightarrow> UserRequest option) \<Rightarrow> registry \<Rightarrow> bool list \<Rightarrow> Envelop list \<Rightarrow> DB \<Rightarrow>
     (bool list \<times> batch_result) option" where
  "WBCoordinator_processValidatedRequests decode ccs firsts requests db =
     (case start_phase decode (length firsts) requests of
        None \<Rightarrow> None
      | Some parts \<Rightarrow>
          (case wb_processSync ccs firsts parts db of
             None \<Rightarrow> None
           | Some (ws, db') \<Rightarrow>
               Some (map fst ws,
                     collect_results (length firsts) (length requests) (map snd ws) db')))"

section \<open>One pass\<close>

definition wb_exec_result :: "registry \<Rightarrow> DB \<Rightarrow> Transaction \<Rightarrow> Transaction option" where
  "wb_exec_result ccs db t = map_option fst (wb_exec_step ccs db t WBReserveTable_reset)"

definition rs_table :: "Transaction list \<Rightarrow> table" where
  "rs_table ts = writeTable (table_of ts ReserveTable_reset)"

definition wb_decide :: "table \<Rightarrow> Transaction \<Rightarrow> Transaction" where
  "wb_decide rs t = fst (first_commit_step t \<lparr>rsTable = rs, cmtTable = Map.empty\<rparr>)"

text \<open>The part of a write set that reaches the database.\<close>

definition effective :: "table \<Rightarrow> Transaction \<Rightarrow> KVList" where
  "effective rs t =
     (if hasResult (wb_decide rs t) COMMIT then filter (\<lambda>kv. rs (kv_key kv) = Some (tid t)) (getWrites t)
      else [])"

definition wb_spec ::
  "(string \<Rightarrow> UserRequest option) \<Rightarrow> registry \<Rightarrow> Envelop list \<Rightarrow> DB \<Rightarrow> batch_result option" where
  "wb_spec decode ccs requests db =
     (case map_opt (NewTransactionFromEnvelop decode) requests of
        None \<Rightarrow> None
      | Some ts0 \<Rightarrow>
          (case map_opt (wb_exec_result ccs db) ts0 of
             None \<Rightarrow> None
           | Some ts \<Rightarrow>
               Some (finish_all (map (wb_decide (rs_table ts)) ts)
                      (fold apply_writes (map (effective (rs_table ts)) ts) db))))"

section \<open>The engine computes the one-pass specification\<close>

definition wb_table :: "Transaction list \<Rightarrow> WBReserveTable \<Rightarrow> WBReserveTable" where
  "wb_table ts wt = fold (\<lambda>t. if reserving t then reserveWrites (getWrites t) (tid t) else id) ts wt"

lemma wb_table_simps [simp]:
  "wb_table [] wt = wt"
  "wb_table (t # ts) wt = wb_table ts (if reserving t then reserveWrites (getWrites t) (tid t) wt else wt)"
  "wb_table (ts @ us) wt = wb_table us (wb_table ts wt)"
  by (simp_all add: wb_table_def)

lemma wb_exec_step_split:
  assumes "pending t"
  shows "wb_exec_step ccs db t wt =
     (case wb_exec_result ccs db t of None \<Rightarrow> None | Some t' \<Rightarrow> Some (t', wb_table [t'] wt))"
proof (cases "invoke_txn ccs db t")
  case None
  then show ?thesis by (simp add: wb_exec_step_def wb_exec_result_def)
next
  case (Some rt1)
  obtain ret t1 where rt1: "rt1 = (ret, t1)" by fastforce
  have "\<not> hasResult t1 ABORT_NO_RETRY"
    using invoke_txn_fields(4)[of ccs db t ret t1 ABORT_NO_RETRY] Some rt1 assms
    by (auto simp: pending_def dest: hasResult_unique)
  with Some rt1 show ?thesis
    by (simp add: wb_exec_step_def wb_exec_result_def reserving_def)
qed

lemma wb_exec_split:
  assumes "\<forall>t \<in> set ts. pending t"
  shows "WBWorkerFSM_OnExecuteTransaction ccs db ts wt =
     (case map_opt (wb_exec_result ccs db) ts of None \<Rightarrow> None | Some ts' \<Rightarrow> Some (ts', wb_table ts' wt))"
  using assms
proof (induction ts arbitrary: wt)
  case (Cons t ts)
  then show ?case by (auto simp: wb_exec_step_split split: option.splits)
qed simp

lemma wb_exec_phase_split:
  assumes "\<forall>p \<in> set parts. \<forall>t \<in> set p. pending t"
  shows "wb_exec_phase ccs db parts wt =
     (case map_opt (map_opt (wb_exec_result ccs db)) parts of None \<Rightarrow> None
      | Some parts' \<Rightarrow> Some (parts', wb_table (concat parts') wt))"
  using assms
proof (induction parts arbitrary: wt)
  case (Cons p parts)
  then show ?case by (auto simp: wb_exec_split split: option.splits)
qed simp

lemma wb_table_rs:
  assumes "rsTable wt = writeTable rt"
  shows "rsTable (wb_table ts wt) = writeTable (table_of ts rt)"
  using assms
proof (induction ts arbitrary: wt rt)
  case (Cons t ts)
  have "rsTable (if reserving t then reserveWrites (getWrites t) (tid t) wt else wt) =
      writeTable (if reserving t then reserveRWSets (getReads t) (getWrites t) (tid t) rt else rt)"
    using Cons.prems by (simp add: reserveWrites_def reserveRWSets_def)
  from Cons.IH[OF this] show ?case by simp
qed simp

lemma rs_table_of: "rsTable (wb_table ts WBReserveTable_reset) = rs_table ts"
  unfolding rs_table_def
  by (rule wb_table_rs) (simp add: WBReserveTable_reset_def ReserveTable_reset_def)

lemma detectRAW_scan: "detectRAW kvs t wt = dep_scan (rsTable wt) kvs t"
  by (induction kvs) simp_all

lemma first_commit_decide: "fst (first_commit_step t wt) = wb_decide (rsTable wt) t"
  by (simp add: wb_decide_def first_commit_step_def detectRAW_scan)

lemma first_commit_rs: "rsTable (snd (first_commit_step t wt)) = rsTable wt"
  by (simp add: first_commit_step_def mvccReserveWrites_def)

lemma onFirstCommit_split:
  "fst (onFirstCommit ts wt) = map (wb_decide (rsTable wt)) ts"
  "rsTable (snd (onFirstCommit ts wt)) = rsTable wt"
  by (induction ts arbitrary: wt)
    (simp_all add: first_commit_decide first_commit_rs case_prod_beta Let_def)

lemma wb_first_phase:
  "\<exists>wt'. wb_commit_phase (map (Pair True) ps) wt db =
     (map (\<lambda>p. (False, map (wb_decide (rsTable wt)) p)) ps, wt', db) \<and> rsTable wt' = rsTable wt"
proof (induction ps arbitrary: wt)
  case (Cons p ps)
  obtain wt' where "wb_commit_phase (map (Pair True) ps) (snd (onFirstCommit p wt)) db =
      (map (\<lambda>p. (False, map (wb_decide (rsTable wt)) p)) ps, wt', db)" "rsTable wt' = rsTable wt"
    using Cons.IH[of "snd (onFirstCommit p wt)"] by (auto simp: onFirstCommit_split)
  then show ?case
    by (simp add: WBWorkerFSM_OnCommitTransaction_def case_prod_beta Let_def onFirstCommit_split)
qed simp

lemma wb_second_phase:
  "wb_commit_phase (map (Pair False) ps) wt db = (map (Pair True) ps, wt, fold (onSecondCommit wt) ps db)"
  by (induction ps arbitrary: db) (simp_all add: WBWorkerFSM_OnCommitTransaction_def)

lemma wb_decide_fields [simp]:
  "tid (wb_decide rs t) = tid t" "getWrites (wb_decide rs t) = getWrites t"
  "getReads (wb_decide rs t) = getReads t" "envelop (wb_decide rs t) = envelop t"
  by (simp_all add: wb_decide_def first_commit_step_def)

lemma wb_decide_result:
  "hasResult (wb_decide rs t) ABORT_NO_RETRY \<or> hasResult (wb_decide rs t) ABORT \<longleftrightarrow>
     \<not> hasResult (wb_decide rs t) COMMIT"
  by (auto simp: wb_decide_def first_commit_step_def dest: hasResult_unique)

lemma updateDB_owned: "updateDB ws t wt = filter (\<lambda>kv. rsTable wt (kv_key kv) = Some t) ws"
  unfolding updateDB_def by (rule filter_cong) (auto simp: cc_simps split: option.splits)

lemma second_commit_effective:
  "fold (second_commit_step wt) (map (wb_decide (rsTable wt)) ts) b =
     batch_kvs (concat (map (effective (rsTable wt)) ts)) b"
proof (induction ts arbitrary: b)
  case (Cons t ts)
  have "second_commit_step wt (wb_decide (rsTable wt) t) b = batch_kvs (effective (rsTable wt) t) b"
    by (simp add: second_commit_step_def effective_def updateDB_owned wb_decide_result batch_kvs_def)
  with Cons show ?case by (simp add: batch_kvs_append)
qed (simp add: batch_kvs_def)

lemma effective_disjoint:
  "tid t \<noteq> tid u \<Longrightarrow> kvs_keys (effective rs t) \<inter> kvs_keys (effective rs u) = {}"
  by (auto simp: effective_def kvs_keys_def)

lemma effective_concat:
  assumes "distinct (map tid ts)"
  shows "apply_writes (concat (map (effective rs) ts)) db = fold apply_writes (map (effective rs) ts) db"
  using assms
proof (induction ts arbitrary: db)
  case (Cons t ts)
  have "kvs_keys (effective rs t) \<inter> kvs_keys (effective rs u) = {}" if "u \<in> set ts" for u
    using Cons.prems that by (intro effective_disjoint) auto
  then have "kvs_keys (effective rs t) \<inter> kvs_keys (concat (map (effective rs) ts)) = {}"
    by (fastforce simp: kvs_keys_def)
  with Cons show ?case by (simp add: apply_writes_append)
qed simp

lemma effective_perm:
  assumes "mset ts = mset us" and "distinct (map tid ts)"
  shows "fold apply_writes (map (effective rs) ts) db = fold apply_writes (map (effective rs) us) db"
proof -
  have "fold (\<lambda>t. apply_writes (effective rs t)) ts = fold (\<lambda>t. apply_writes (effective rs t)) us"
  proof (rule fold_multiset_equiv[OF _ assms(1)])
    fix t u assume "t \<in> set ts" "u \<in> set ts"
    with assms(2) have "t = u \<or> tid t \<noteq> tid u" by (auto simp: distinct_map inj_on_def)
    then show "apply_writes (effective rs t) \<circ> apply_writes (effective rs u)
        = apply_writes (effective rs u) \<circ> apply_writes (effective rs t)"
      using apply_writes_commute[OF effective_disjoint[of t u rs]] by (auto simp: fun_eq_iff)
  qed
  then show ?thesis by (simp add: fold_map comp_def)
qed

lemma onSecondCommit_effective:
  assumes "distinct (map tid ts)" and "rsTable wt = rs"
  shows "onSecondCommit wt (map (wb_decide rs) ts) db = fold apply_writes (map (effective rs) ts) db"
  using second_commit_effective[of wt ts] assms(2)
  by (simp add: onSecondCommit_def syncWriteBatch_kvs effective_concat[OF assms(1)])

lemma second_parts:
  assumes "distinct (map tid (concat ps))" and "rsTable wt = rs"
  shows "fold (onSecondCommit wt) (map (map (wb_decide rs)) ps) db
     = fold apply_writes (map (effective rs) (concat ps)) db"
  using assms(1)
proof (induction ps arbitrary: db)
  case (Cons p ps)
  then show ?case by (simp add: onSecondCommit_effective[OF _ assms(2)])
qed simp

lemma wb_exec_result_fields:
  assumes "wb_exec_result ccs db t = Some t'"
  shows "tid t' = tid t" "envelop t' = envelop t"
  using assms invoke_txn_fields
  by (auto simp: wb_exec_result_def wb_exec_step_def split: option.splits if_splits)

lemma wb_phases_dealt:
  fixes workers :: nat
  defines "parts \<equiv> \<lambda>ts. map (\<lambda>w. deal workers w ts) [0..<workers]"
  assumes "0 < workers" and "\<forall>t \<in> set ts0. pending t" and "distinct (map tid ts0)"
  shows "wb_processSync ccs (replicate workers True) (parts ts0) db =
     (case map_opt (wb_exec_result ccs db) ts0 of
       None \<Rightarrow> None
     | Some ts \<Rightarrow>
         Some (map (Pair True) (parts (map (wb_decide (rs_table ts)) ts)),
               fold apply_writes (map (effective (rs_table ts)) ts) db))"
proof (cases "map_opt (wb_exec_result ccs db) ts0")
  case None
  then show ?thesis
    using wb_exec_phase_split[OF deal_all[OF assms(3,2)]] assms(2)
    by (simp add: wb_processSync_def parts_def map_opt_map map_opt_deal)
next
  case (Some ts)
  let ?wt = "wb_table (concat (parts ts)) WBReserveTable_reset" and ?rs = "rs_table ts"
  have exec: "wb_exec_phase ccs db (parts ts0) WBReserveTable_reset = Some (parts ts, ?wt)"
    using wb_exec_phase_split[OF deal_all[OF assms(3,2)]] assms(2) Some
    by (simp add: parts_def map_opt_map map_opt_deal)
  have perm: "mset (concat (parts ts)) = mset ts"
    unfolding parts_def by (rule mset_deal[OF assms(2)])
  have rs: "rsTable ?wt = ?rs"
    unfolding rs_table_of unfolding rs_table_def by (simp only: table_of_perm[OF perm])
  have "map tid ts = map tid ts0"
    by (rule map_opt_fields[OF Some]) (rule wb_exec_result_fields(1))
  with assms(4) have tids: "distinct (map tid ts)" by simp
  have ids: "mset (map tid (concat (parts ts))) = mset (map tid ts)" by (simp only: mset_map perm)
  from tids have tids': "distinct (map tid (concat (parts ts)))"
    by (simp only: mset_eq_imp_distinct_iff[OF ids])
  obtain wt' where first: "wb_commit_phase (map (Pair True) (parts ts)) ?wt db =
      (map (\<lambda>p. (False, map (wb_decide ?rs) p)) (parts ts), wt', db)" "rsTable wt' = ?rs"
    using wb_first_phase[of "parts ts" ?wt db] rs by auto
  have zipped: "zip (replicate workers True) (parts ts) = map (Pair True) (parts ts)"
    by (simp add: zip_replicate1 parts_def)
  have second: "wb_commit_phase (map (\<lambda>p. (False, map (wb_decide ?rs) p)) (parts ts)) wt' db =
      (map (Pair True) (map (map (wb_decide ?rs)) (parts ts)), wt',
       fold apply_writes (map (effective ?rs) (concat (parts ts))) db)"
    using wb_second_phase[of "map (map (wb_decide ?rs)) (parts ts)" wt' db]
    by (simp add: second_parts[OF tids' first(2)] comp_def)
  have "map (map (wb_decide ?rs)) (parts ts) = parts (map (wb_decide ?rs) ts)"
    by (simp add: parts_def deal_map)
  moreover have "fold apply_writes (map (effective ?rs) (concat (parts ts))) db =
      fold apply_writes (map (effective ?rs) ts) db"
    by (rule effective_perm[OF perm tids'])
  ultimately show ?thesis
    unfolding wb_processSync_def
    by (simp only: exec zipped first(1) second Some option.case prod.case Let_def)
qed

lemma wb_refines_spec:
  assumes "0 < workers" and "distinct (map (\<lambda>r. digest (signature r)) requests)"
  shows "WBCoordinator_processValidatedRequests decode ccs (replicate workers True) requests db
     = map_option (Pair (replicate workers True)) (wb_spec decode ccs requests db)"
proof (cases "map_opt (NewTransactionFromEnvelop decode) requests")
  case None
  with assms(1) show ?thesis
    by (simp add: WBCoordinator_processValidatedRequests_def start_phase_def map_opt_deal wb_spec_def)
next
  case (Some ts0)
  have start: "start_phase decode workers requests = Some (map (\<lambda>w. deal workers w ts0) [0..<workers])"
    using assms(1) Some by (simp add: start_phase_def map_opt_deal)
  have "map tid ts0 = map (\<lambda>r. digest (signature r)) requests"
    by (rule map_opt_fields[OF Some]) (rule NewTransactionFromEnvelop_Some(1))
  with assms(2) have "distinct (map tid ts0)" by simp
  note run = wb_phases_dealt[OF assms(1) NewTransaction_pending[OF Some] this, where ccs = ccs and db = db]
  show ?thesis
  proof (cases "map_opt (wb_exec_result ccs db) ts0")
    case None
    then show ?thesis
      by (simp add: WBCoordinator_processValidatedRequests_def start run wb_spec_def Some)
  next
    case ts: (Some ts)
    have "length (map (wb_decide (rs_table ts)) ts) = length requests"
      using map_opt_length[OF Some] map_opt_length[OF ts] by simp
    note res = collect_results_deal[OF assms(1) this]
    have flags: "map fst (map (Pair True) (map (\<lambda>w. f w) [0..<workers])) = replicate workers True" for f :: "nat \<Rightarrow> Transaction list"
      by (simp add: comp_def map_replicate_const)
    have snds: "map snd (map (Pair True) xs) = xs" for xs :: "Transaction list list" by (simp add: comp_def)
    show ?thesis
      unfolding WBCoordinator_processValidatedRequests_def wb_spec_def
      by (simp only: length_replicate start run Some ts option.case option.map prod.case flags snds res)
  qed
qed

section \<open>What reaches the database\<close>

lemma effective_other: "rs k \<noteq> Some (tid t) \<Longrightarrow> k \<notin> kvs_keys (effective rs t)"
  by (auto simp: effective_def kvs_keys_def)

lemma effective_owner:
  assumes "rs k = Some (tid t)" and "hasResult (wb_decide rs t) COMMIT"
  shows "apply_writes (effective rs t) db k = apply_writes (getWrites t) db k"
proof -
  have "filter (\<lambda>kv. kv_key kv = k) (effective rs t) = filter (\<lambda>kv. kv_key kv = k) (getWrites t)"
    using assms by (auto simp: effective_def intro!: filter_cong)
  then show ?thesis by (simp add: apply_writes_effect kvs_effect_filter)
qed

lemma fold_effective_other:
  assumes "\<forall>t \<in> set ts. k \<notin> kvs_keys (effective rs t)"
  shows "fold apply_writes (map (effective rs) ts) db k = db k"
  using assms by (induction ts arbitrary: db) (simp_all add: apply_writes_other)

text \<open>
  A key ends with what the smallest identifier that reserved it wrote, if that
  transaction commits, and is unchanged otherwise, whoever else committed a write to it.
\<close>

lemma wb_final_value:
  assumes "distinct (map tid ts)" and "t \<in> set ts" and "rs k = Some (tid t)"
  shows "fold apply_writes (map (effective rs) ts) db k =
     (if hasResult (wb_decide rs t) COMMIT then apply_writes (getWrites t) db k else db k)"
proof -
  obtain us vs where ts: "ts = us @ t # vs" using assms(2) by (meson split_list)
  have others: "\<forall>u \<in> set us \<union> set vs. k \<notin> kvs_keys (effective rs u)"
    using assms(1,3) ts by (intro ballI effective_other) auto
  have "fold apply_writes (map (effective rs) ts) db k = apply_writes (effective rs t) (fold apply_writes (map (effective rs) us) db) k"
    using others by (simp add: ts fold_effective_other)
  also have "\<dots> = apply_writes (effective rs t) db k"
    using others by (simp add: apply_writes_effect fold_effective_other cong: option.case_cong)
  also have "\<dots> = (if hasResult (wb_decide rs t) COMMIT then apply_writes (getWrites t) db k else db k)"
    using effective_owner[of rs k t db, OF assms(3)]
    by (cases "hasResult (wb_decide rs t) COMMIT") (simp_all, simp add: effective_def)
  finally show ?thesis .
qed

end
