(* ===== verification/SmallBank.thy ===== *)
theory SmallBank
  imports Orm
begin

text \<open>
  The banking chaincode, \<^verbatim>\<open>src/peer/chaincode/small_bank_chaincode.cpp\<close>. Every customer
  has a name, a savings and a checking balance under three key prefixes.

  Balances are \<^verbatim>\<open>double\<close>. Nothing below depends on how floating point rounds: the
  type of balances and its operations are fields of the record \<open>sb\<close>, next to the
  \<^verbatim>\<open>zpp::bits\<close> decoders and encoders that the chaincode calls.
\<close>

section \<open>Codec and arithmetic\<close>

record 'd sb =
  in_acct :: "string \<Rightarrow> int option"
  in_acct_amount :: "string \<Rightarrow> (int \<times> 'd) option"
  in_acct_acct :: "string \<Rightarrow> (int \<times> int) option"
  out_key :: "string \<Rightarrow> int \<Rightarrow> string option"
  in_name :: "string \<Rightarrow> string option"
  out_name :: "string \<Rightarrow> string option"
  in_double :: "string \<Rightarrow> 'd option"
  out_double :: "'d \<Rightarrow> string option"
  out_acct_double :: "int \<Rightarrow> 'd \<Rightarrow> string option"
  d_add :: "'d \<Rightarrow> 'd \<Rightarrow> 'd"
  d_sub :: "'d \<Rightarrow> 'd \<Rightarrow> 'd"
  d_less :: "'d \<Rightarrow> 'd \<Rightarrow> bool"
  d_zero :: 'd
  d_one :: 'd

definition ACCOUNTS :: string where "ACCOUNTS = ''a_''"
definition SAVINGS :: string where "SAVINGS = ''s_''"
definition CHECKING :: string where "CHECKING = ''c_''"

section \<open>Table access\<close>

text \<open>
  The helpers return false on a missing row or a codec failure and every caller returns
  false at once; \<^verbatim>\<open>InvokeChaincode\<close> turns false into the return code -1.
\<close>

definition getValue ::
  "'d sb \<Rightarrow> (string \<Rightarrow> 'v option) \<Rightarrow> string \<Rightarrow> int \<Rightarrow> ('v \<Rightarrow> prog) \<Rightarrow> prog" where
  "getValue b dec tablePrefix key k =
     (case out_key b tablePrefix key of
        None \<Rightarrow> Return (-1)
      | Some keyRaw \<Rightarrow> Get keyRaw (\<lambda>r.
          case r of
            None \<Rightarrow> Return (-1)
          | Some valueSV \<Rightarrow>
              (case dec valueSV of None \<Rightarrow> Return (-1) | Some v \<Rightarrow> k v)))"

definition insertIntoTable ::
  "'d sb \<Rightarrow> ('v \<Rightarrow> string option) \<Rightarrow> string \<Rightarrow> int \<Rightarrow> 'v \<Rightarrow> prog \<Rightarrow> prog" where
  "insertIntoTable b enc tablePrefix key v k =
     (case out_key b tablePrefix key of
        None \<Rightarrow> Return (-1)
      | Some keyRaw \<Rightarrow>
          (case enc v of None \<Rightarrow> Return (-1) | Some valueRaw \<Rightarrow> Put keyRaw valueRaw k))"

section \<open>Operations\<close>

definition balance :: "'d sb \<Rightarrow> string \<Rightarrow> prog" where
  "balance b arg =
     (case in_acct b arg of
        None \<Rightarrow> Return (-1)
      | Some acctId \<Rightarrow>
          getValue b (in_name b) ACCOUNTS acctId (\<lambda>_.
          getValue b (in_double b) SAVINGS acctId (\<lambda>savingsBalance.
          getValue b (in_double b) CHECKING acctId (\<lambda>checkingBalance.
          case out_acct_double b acctId (d_add b savingsBalance checkingBalance) of
            None \<Rightarrow> Return (-1)
          | Some ret \<Rightarrow> SetResult ret (Return 0)))))"

definition depositChecking :: "'d sb \<Rightarrow> string \<Rightarrow> prog" where
  "depositChecking b arg =
     (case in_acct_amount b arg of
        None \<Rightarrow> Return (-1)
      | Some (acctId, amount) \<Rightarrow>
          if d_less b amount (d_zero b) then Return (-1)
          else
            getValue b (in_name b) ACCOUNTS acctId (\<lambda>_.
            getValue b (in_double b) CHECKING acctId (\<lambda>bal.
            insertIntoTable b (out_double b) CHECKING acctId (d_add b bal amount) (Return 0))))"

definition transactSavings :: "'d sb \<Rightarrow> string \<Rightarrow> prog" where
  "transactSavings b arg =
     (case in_acct_amount b arg of
        None \<Rightarrow> Return (-1)
      | Some (acctId, amount) \<Rightarrow>
          getValue b (in_name b) ACCOUNTS acctId (\<lambda>_.
          getValue b (in_double b) SAVINGS acctId (\<lambda>bal.
          let bal' = d_add b bal amount in
          if d_less b bal' (d_zero b) then Return (-1)
          else insertIntoTable b (out_double b) SAVINGS acctId bal' (Return 0))))"

definition amalgamate :: "'d sb \<Rightarrow> string \<Rightarrow> prog" where
  "amalgamate b arg =
     (case in_acct_acct b arg of
        None \<Rightarrow> Return (-1)
      | Some (accId0, accId1) \<Rightarrow>
          getValue b (in_name b) ACCOUNTS accId0 (\<lambda>_.
          getValue b (in_name b) ACCOUNTS accId1 (\<lambda>_.
          getValue b (in_double b) SAVINGS accId0 (\<lambda>savings0.
          getValue b (in_double b) CHECKING accId0 (\<lambda>checking0.
          insertIntoTable b (out_double b) SAVINGS accId0 (d_zero b) (
          insertIntoTable b (out_double b) CHECKING accId0 (d_zero b) (
          getValue b (in_double b) CHECKING accId1 (\<lambda>checking1.
          insertIntoTable b (out_double b) CHECKING accId1
            (d_add b checking1 (d_add b savings0 checking0)) (Return 0)))))))))"

definition writeCheck :: "'d sb \<Rightarrow> string \<Rightarrow> prog" where
  "writeCheck b arg =
     (case in_acct_amount b arg of
        None \<Rightarrow> Return (-1)
      | Some (acctId, amount) \<Rightarrow>
          getValue b (in_name b) ACCOUNTS acctId (\<lambda>_.
          getValue b (in_double b) SAVINGS acctId (\<lambda>savings.
          getValue b (in_double b) CHECKING acctId (\<lambda>checking.
          let sum = d_add b checking savings;
              checking' = (if d_less b sum amount then d_sub b checking (d_add b amount (d_one b))
                           else d_sub b checking amount)
          in insertIntoTable b (out_double b) CHECKING acctId checking' (Return 0)))))"

definition SmallBank_InvokeChaincode :: "'d sb \<Rightarrow> chaincode" where
  "SmallBank_InvokeChaincode b func arg =
     (if func = ''bal'' then balance b arg
      else if func = ''dc'' then depositChecking b arg
      else if func = ''ts'' then transactSavings b arg
      else if func = ''amg'' then amalgamate b arg
      else if func = ''wc'' then writeCheck b arg
      else Return (-1))"

text \<open>
  The initial load. The generator of names and balances is seeded with a constant; the
  list it produces, one entry per account, is an argument.
\<close>

fun load_accounts :: "'d sb \<Rightarrow> int \<Rightarrow> (string \<times> 'd \<times> 'd) list \<Rightarrow> prog" where
  "load_accounts b acctId [] = Return 0"
| "load_accounts b acctId ((acctName, checkingBalance, savingsBalance) # rest) =
     insertIntoTable b (out_name b) ACCOUNTS acctId acctName (
     insertIntoTable b (out_double b) CHECKING acctId checkingBalance (
     insertIntoTable b (out_double b) SAVINGS acctId savingsBalance (
     load_accounts b (acctId + 1) rest)))"

definition SmallBank_InitDatabase :: "'d sb \<Rightarrow> (string \<times> 'd \<times> 'd) list \<Rightarrow> prog" where
  "SmallBank_InitDatabase b accounts = load_accounts b 0 accounts"

section \<open>The bank the chaincode implements\<close>

text \<open>
  Documented behaviour of the codec that the correctness statement needs: encoding does
  not fail, different rows have different keys, and a balance can be read back.
\<close>

definition sb_laws :: "'d sb \<Rightarrow> bool" where
  "sb_laws b \<longleftrightarrow>
     (\<forall>p i. out_key b p i \<noteq> None) \<and>
     (\<forall>p \<in> {ACCOUNTS, SAVINGS, CHECKING}. \<forall>q \<in> {ACCOUNTS, SAVINGS, CHECKING}. \<forall>i j.
        out_key b p i = out_key b q j \<longrightarrow> p = q \<and> i = j) \<and>
     (\<forall>d. out_double b d \<noteq> None \<and> out_double b d \<noteq> Some [] \<and>
        in_double b (the (out_double b d)) = Some d)"

definition row :: "'d sb \<Rightarrow> (string \<Rightarrow> 'v option) \<Rightarrow> string \<Rightarrow> DB \<Rightarrow> int \<Rightarrow> 'v option" where
  "row b dec p db i =
     (case out_key b p i of None \<Rightarrow> None
      | Some k \<Rightarrow> (case visible db k of None \<Rightarrow> None | Some v \<Rightarrow> dec v))"

type_synonym 'd bank = "int \<rightharpoonup> 'd \<times> 'd"

text \<open>The bank a database stores: savings and checking balance of every named customer.\<close>

definition bank_of :: "'d sb \<Rightarrow> DB \<Rightarrow> 'd bank" where
  "bank_of b db i =
     (case row b (in_name b) ACCOUNTS db i of None \<Rightarrow> None
      | Some _ \<Rightarrow>
          (case row b (in_double b) SAVINGS db i of None \<Rightarrow> None
           | Some s \<Rightarrow>
               (case row b (in_double b) CHECKING db i of None \<Rightarrow> None | Some c \<Rightarrow> Some (s, c))))"

text \<open>Every named customer has both balances.\<close>

definition bank_wf :: "'d sb \<Rightarrow> DB \<Rightarrow> bool" where
  "bank_wf b db \<longleftrightarrow>
     (\<forall>i. row b (in_name b) ACCOUNTS db i \<noteq> None \<longrightarrow>
        row b (in_double b) SAVINGS db i \<noteq> None \<and> row b (in_double b) CHECKING db i \<noteq> None)"

text \<open>
  The operations as \<^verbatim>\<open>small_bank_helper.h\<close> documents them, on a bank; \<^const>\<open>None\<close> is a
  transaction that rolls back.
\<close>

definition bank_deposit :: "'d sb \<Rightarrow> int \<Rightarrow> 'd \<Rightarrow> 'd bank \<Rightarrow> 'd bank option" where
  "bank_deposit b i v bank =
     (case bank i of None \<Rightarrow> None
      | Some (s, c) \<Rightarrow> if d_less b v (d_zero b) then None else Some (bank(i \<mapsto> (s, d_add b c v))))"

definition bank_savings :: "'d sb \<Rightarrow> int \<Rightarrow> 'd \<Rightarrow> 'd bank \<Rightarrow> 'd bank option" where
  "bank_savings b i v bank =
     (case bank i of None \<Rightarrow> None
      | Some (s, c) \<Rightarrow>
          if d_less b (d_add b s v) (d_zero b) then None else Some (bank(i \<mapsto> (d_add b s v, c))))"

definition bank_amalgamate :: "'d sb \<Rightarrow> int \<Rightarrow> int \<Rightarrow> 'd bank \<Rightarrow> 'd bank option" where
  "bank_amalgamate b i j bank =
     (case bank i of None \<Rightarrow> None
      | Some (s0, c0) \<Rightarrow>
          (let bank1 = bank(i \<mapsto> (d_zero b, d_zero b)) in
           case bank1 j of None \<Rightarrow> None
           | Some (s1, c1) \<Rightarrow> Some (bank1(j \<mapsto> (s1, d_add b c1 (d_add b s0 c0))))))"

definition bank_check :: "'d sb \<Rightarrow> int \<Rightarrow> 'd \<Rightarrow> 'd bank \<Rightarrow> 'd bank option" where
  "bank_check b i v bank =
     (case bank i of None \<Rightarrow> None
      | Some (s, c) \<Rightarrow>
          (let debit = (if d_less b (d_add b c s) v then d_add b v (d_one b) else v)
           in Some (bank(i \<mapsto> (s, d_sub b c debit)))))"

section \<open>Refinement\<close>

lemma run_getValue:
  "run_writes (getValue b dec p i k) db ws =
     (case row b dec p db i of None \<Rightarrow> (Some (-1), ws) | Some v \<Rightarrow> run_writes (k v) db ws)"
  by (auto simp: getValue_def row_def split: option.splits)

definition key_of :: "'d sb \<Rightarrow> string \<Rightarrow> int \<Rightarrow> string" where
  "key_of b p i = the (out_key b p i)"

definition enc_of :: "'d sb \<Rightarrow> 'd \<Rightarrow> string" where
  "enc_of b d = the (out_double b d)"

lemma out_key_Some: "sb_laws b \<Longrightarrow> out_key b p i = Some (key_of b p i)"
  unfolding sb_laws_def key_of_def by (metis option.collapse)

lemma out_double_Some: "sb_laws b \<Longrightarrow> out_double b d = Some (enc_of b d)"
  unfolding sb_laws_def enc_of_def by (metis option.collapse)

lemma run_insert:
  assumes "sb_laws b"
  shows "run_writes (insertIntoTable b (out_double b) p i v k) db ws =
     run_writes k db (ws @ [KV_of (key_of b p i) (enc_of b v)])"
  by (simp add: insertIntoTable_def out_key_Some[OF assms] out_double_Some[OF assms])

lemma enc_of_not_Nil: "sb_laws b \<Longrightarrow> enc_of b v \<noteq> []"
  using out_double_Some[of b v] by (auto simp: sb_laws_def)

lemma prefixes_distinct [simp]:
  "ACCOUNTS \<noteq> SAVINGS" "SAVINGS \<noteq> ACCOUNTS" "ACCOUNTS \<noteq> CHECKING" "CHECKING \<noteq> ACCOUNTS"
  "SAVINGS \<noteq> CHECKING" "CHECKING \<noteq> SAVINGS"
  by (simp_all add: ACCOUNTS_def SAVINGS_def CHECKING_def)

lemma key_of_eq_iff:
  assumes "sb_laws b" and "p \<in> {ACCOUNTS, SAVINGS, CHECKING}" and "q \<in> {ACCOUNTS, SAVINGS, CHECKING}"
  shows "key_of b p i = key_of b q j \<longleftrightarrow> p = q \<and> i = j"
proof
  assume "key_of b p i = key_of b q j"
  then have "out_key b p i = out_key b q j" by (simp add: out_key_Some[OF assms(1)])
  with assms show "p = q \<and> i = j" unfolding sb_laws_def by blast
qed simp

lemma row_update:
  assumes "sb_laws b" and "p \<in> {ACCOUNTS, SAVINGS, CHECKING}" and "q \<in> {ACCOUNTS, SAVINGS, CHECKING}"
    and "v \<noteq> []"
  shows "row b dec p (db(key_of b q j \<mapsto> v)) i = (if p = q \<and> i = j then dec v else row b dec p db i)"
  using key_of_eq_iff[OF assms(1-3), of i j] assms(4)
  by (auto simp: row_def visible_def out_key_Some[OF assms(1)])

lemma in_enc: "sb_laws b \<Longrightarrow> in_double b (enc_of b v) = Some v"
  by (simp add: sb_laws_def enc_of_def)

lemmas row_update_simps = row_update enc_of_not_Nil in_enc

lemma put_checking:
  assumes "sb_laws b" and "bank_of b db i = Some (s, c)"
  shows "bank_of b (db(key_of b CHECKING i \<mapsto> enc_of b d)) = (bank_of b db)(i \<mapsto> (s, d))"
  using assms by (auto simp: fun_eq_iff bank_of_def row_update_simps split: option.splits)

lemma put_savings:
  assumes "sb_laws b" and "bank_of b db i = Some (s, c)"
  shows "bank_of b (db(key_of b SAVINGS i \<mapsto> enc_of b d)) = (bank_of b db)(i \<mapsto> (d, c))"
  using assms by (auto simp: fun_eq_iff bank_of_def row_update_simps split: option.splits)

lemma put_wf:
  assumes "sb_laws b" and "bank_wf b db" and "p \<in> {SAVINGS, CHECKING}"
  shows "bank_wf b (db(key_of b p i \<mapsto> enc_of b d))"
  using assms by (auto simp: bank_wf_def row_update_simps)

lemma bank_rows:
  assumes "bank_wf b db"
  shows "bank_of b db i = None \<longleftrightarrow> row b (in_name b) ACCOUNTS db i = None"
    and "bank_of b db i = Some (s, c) \<Longrightarrow>
      row b (in_double b) SAVINGS db i = Some s \<and> row b (in_double b) CHECKING db i = Some c \<and>
      (\<exists>n. row b (in_name b) ACCOUNTS db i = Some n)"
  using assms by (auto simp: bank_of_def bank_wf_def split: option.splits)

text \<open>
  An invocation implements an operation of the bank: it fails and changes nothing where
  the operation rolls back, else it succeeds and stores the new bank.
\<close>

definition implements :: "'d sb \<Rightarrow> DB \<Rightarrow> int option \<times> DB \<Rightarrow> 'd bank option \<Rightarrow> bool" where
  "implements b db out spec =
     (case spec of
        None \<Rightarrow> out = (Some (-1), db)
      | Some bank' \<Rightarrow> fst out = Some 0 \<and> bank_of b (snd out) = bank' \<and> bank_wf b (snd out))"

lemmas sb_run = outcome_writes run_getValue run_insert apply_writes_puts syncPut_def enc_of_not_Nil Let_def

lemma outcome_put:
  assumes "sb_laws b" and "run_writes p db [] = (Some 0, [KV_of (key_of b q i) (enc_of b d)])"
  shows "outcome p db = (Some 0, db(key_of b q i \<mapsto> enc_of b d))"
  using assms(2) by (simp add: sb_run enc_of_not_Nil[OF assms(1)])

lemma deposit_implements:
  assumes "sb_laws b" and "bank_wf b db" and "in_acct_amount b arg = Some (i, v)"
  shows "implements b db (outcome (depositChecking b arg) db) (bank_deposit b i v (bank_of b db))"
proof (cases "bank_of b db i")
  case None
  with assms bank_rows(1)[OF assms(2), of i] show ?thesis
    by (simp add: implements_def bank_deposit_def depositChecking_def sb_run)
next
  case (Some sc)
  obtain s c where sc: "sc = (s, c)" by fastforce
  note rows = bank_rows(2)[OF assms(2) Some[unfolded sc]]
  show ?thesis
  proof (cases "d_less b v (d_zero b)")
    case True
    with Some assms sc show ?thesis
      by (simp add: implements_def bank_deposit_def depositChecking_def sb_run)
  next
    case False
    with rows assms have "outcome (depositChecking b arg) db
        = (Some 0, db(key_of b CHECKING i \<mapsto> enc_of b (d_add b c v)))"
      by (intro outcome_put) (auto simp: depositChecking_def run_getValue run_insert)
    with False Some sc assms show ?thesis
      by (simp add: implements_def bank_deposit_def put_checking put_wf)
  qed
qed

lemma savings_implements:
  assumes "sb_laws b" and "bank_wf b db" and "in_acct_amount b arg = Some (i, v)"
  shows "implements b db (outcome (transactSavings b arg) db) (bank_savings b i v (bank_of b db))"
proof (cases "bank_of b db i")
  case None
  with assms bank_rows(1)[OF assms(2), of i] show ?thesis
    by (simp add: implements_def bank_savings_def transactSavings_def sb_run)
next
  case (Some sc)
  obtain s c where sc: "sc = (s, c)" by fastforce
  note rows = bank_rows(2)[OF assms(2) Some[unfolded sc]]
  show ?thesis
  proof (cases "d_less b (d_add b s v) (d_zero b)")
    case True
    with rows Some assms sc show ?thesis
      by (auto simp: implements_def bank_savings_def transactSavings_def sb_run)
  next
    case False
    with rows assms have "outcome (transactSavings b arg) db
        = (Some 0, db(key_of b SAVINGS i \<mapsto> enc_of b (d_add b s v)))"
      by (intro outcome_put) (auto simp: transactSavings_def run_getValue run_insert)
    with False Some sc assms show ?thesis
      by (simp add: implements_def bank_savings_def put_savings put_wf)
  qed
qed

lemma check_implements:
  assumes "sb_laws b" and "bank_wf b db" and "in_acct_amount b arg = Some (i, v)"
  shows "implements b db (outcome (writeCheck b arg) db) (bank_check b i v (bank_of b db))"
proof (cases "bank_of b db i")
  case None
  with assms bank_rows(1)[OF assms(2), of i] show ?thesis
    by (simp add: implements_def bank_check_def writeCheck_def sb_run)
next
  case (Some sc)
  obtain s c where sc: "sc = (s, c)" by fastforce
  note rows = bank_rows(2)[OF assms(2) Some[unfolded sc]]
  let ?debit = "if d_less b (d_add b c s) v then d_add b v (d_one b) else v"
  have "outcome (writeCheck b arg) db = (Some 0, db(key_of b CHECKING i \<mapsto> enc_of b (d_sub b c ?debit)))"
    using rows assms by (intro outcome_put) (auto simp: writeCheck_def run_getValue run_insert)
  with Some sc assms show ?thesis
    by (simp add: implements_def bank_check_def put_checking put_wf)
qed

text \<open>What \<^verbatim>\<open>amalgamate\<close> writes, whether or not the two customers differ.\<close>

lemma amalgamate_run:
  assumes "sb_laws b" and "bank_wf b db" and "in_acct_acct b arg = Some (i, j)"
    and "bank_of b db i = Some (s0, c0)" and "bank_of b db j = Some (s1, c1)"
  shows "outcome (amalgamate b arg) db = (Some 0,
     db(key_of b SAVINGS i \<mapsto> enc_of b (d_zero b), key_of b CHECKING i \<mapsto> enc_of b (d_zero b),
        key_of b CHECKING j \<mapsto> enc_of b (d_add b c1 (d_add b s0 c0))))"
  using bank_rows(2)[OF assms(2) assms(4)] bank_rows(2)[OF assms(2) assms(5)] assms(3)
    enc_of_not_Nil[OF assms(1)]
  by (auto simp: amalgamate_def sb_run run_insert[OF assms(1)])

lemma amalgamate_implements:
  assumes "sb_laws b" and "bank_wf b db" and "in_acct_acct b arg = Some (i, j)" and "i \<noteq> j"
  shows "implements b db (outcome (amalgamate b arg) db) (bank_amalgamate b i j (bank_of b db))"
proof (cases "bank_of b db i = None \<or> bank_of b db j = None")
  case True
  then have "row b (in_name b) ACCOUNTS db i = None \<or> row b (in_name b) ACCOUNTS db j = None"
    by (simp only: bank_rows(1)[OF assms(2)])
  then have "outcome (amalgamate b arg) db = (Some (-1), db)"
    using assms(3) by (auto simp: amalgamate_def outcome_writes run_getValue split: option.split)
  moreover have "bank_amalgamate b i j (bank_of b db) = None"
    using True assms(4) by (auto simp: bank_amalgamate_def Let_def split: option.split)
  ultimately show ?thesis by (simp add: implements_def)
next
  case False
  then obtain s0 c0 s1 c1 where ij: "bank_of b db i = Some (s0, c0)" "bank_of b db j = Some (s1, c1)"
    by auto
  let ?db1 = "db(key_of b SAVINGS i \<mapsto> enc_of b (d_zero b))"
  let ?db2 = "?db1(key_of b CHECKING i \<mapsto> enc_of b (d_zero b))"
  have b1: "bank_of b ?db1 = (bank_of b db)(i \<mapsto> (d_zero b, c0))"
    by (rule put_savings[OF assms(1) ij(1)])
  then have b2: "bank_of b ?db2 = (bank_of b db)(i \<mapsto> (d_zero b, d_zero b))"
    using put_checking[OF assms(1), of ?db1 i "d_zero b" c0] by simp
  with ij(2) assms(4) have "bank_of b ?db2 j = Some (s1, c1)" by simp
  from put_checking[OF assms(1) this] b2 ij assms(4) put_wf[OF assms(1)] assms(2) show ?thesis
    by (simp add: implements_def amalgamate_run[OF assms(1-3) ij] bank_amalgamate_def Let_def)
qed

text \<open>With equal customers the checking balance is counted twice.\<close>

lemma amalgamate_self:
  assumes "sb_laws b" and "bank_wf b db" and "in_acct_acct b arg = Some (i, i)"
    and "bank_of b db i = Some (s, c)"
  shows "fst (outcome (amalgamate b arg) db) = Some 0"
    and "bank_of b (snd (outcome (amalgamate b arg) db)) =
       (bank_of b db)(i \<mapsto> (d_zero b, d_add b c (d_add b s c)))"
proof -
  let ?db1 = "db(key_of b SAVINGS i \<mapsto> enc_of b (d_zero b))"
  have "bank_of b ?db1 = (bank_of b db)(i \<mapsto> (d_zero b, c))"
    by (rule put_savings[OF assms(1,4)])
  with put_checking[OF assms(1), of ?db1 i "d_zero b" c]
  show "bank_of b (snd (outcome (amalgamate b arg) db)) =
       (bank_of b db)(i \<mapsto> (d_zero b, d_add b c (d_add b s c)))"
    by (simp add: amalgamate_run[OF assms(1-3) assms(4,4)])
  show "fst (outcome (amalgamate b arg) db) = Some 0"
    by (simp add: amalgamate_run[OF assms(1-3) assms(4,4)])
qed

text \<open>A balance query changes nothing.\<close>

lemma balance_readonly: "snd (run_writes (balance b arg) db []) = []"
  by (auto simp: balance_def run_getValue split: option.split)

text \<open>Every operation fails at its first lookup in vain.\<close>

lemma strict_getValue: "(\<And>v. strict_at db (k v)) \<Longrightarrow> strict_at db (getValue b dec p i k)"
  by (auto simp: strict_at_def getValue_def split: option.split)

lemma strict_insert: "strict_at db k \<Longrightarrow> strict_at db (insertIntoTable b enc p i v k)"
  by (auto simp: strict_at_def insertIntoTable_def split: option.split)

lemma careful_smallbank: "careful (SmallBank_InvokeChaincode b func arg)"
  unfolding SmallBank_InvokeChaincode_def balance_def depositChecking_def transactSavings_def
    amalgamate_def writeCheck_def Let_def
  by (intro strict_careful strict_getValue strict_insert strict_leaf strict_branch)

end
