(* ===== verification/TpccSchema.thy ===== *)
theory TpccSchema
  imports Orm Decimal
begin

text \<open>
  The data of the order-entry benchmark: the rows and keys of
  \<^verbatim>\<open>include/client/tpcc/tpcc_schema.h\<close>, the requests of \<^verbatim>\<open>tpcc_proto.h\<close>, the
  bounded strings of \<^verbatim>\<open>tpcc_types.h\<close> and the constants of \<^verbatim>\<open>tpcc_helper.h\<close>.

  A key structure is a tuple of its members in their order. \<^verbatim>\<open>Numeric\<close> is
  \<^verbatim>\<open>double\<close>; its type \<open>'d\<close> and its operations are fields of the record \<open>tpcc\<close>,
  next to the \<^verbatim>\<open>zpp::bits\<close> encoders and decoders that the chaincode calls.
\<close>

section \<open>Types\<close>

type_synonym Integer = int
type_synonym Timestamp = nat

text \<open>
  A bounded string is a length and an array that always has the maximal length; the
  serialization writes both. The constructors copy a text to the front of the array and
  leave the bytes behind it as the memory has them, here the argument \<open>memory\<close>.
\<close>

record varchar =
  vc_length :: nat
  vc_data :: string

definition Varchar_of :: "string \<Rightarrow> string \<Rightarrow> varchar" where
  "Varchar_of memory str = \<lparr>vc_length = length str, vc_data = str @ drop (length str) memory\<rparr>"

definition Varchar_toString :: "varchar \<Rightarrow> string" where
  "Varchar_toString v = take (vc_length v) (vc_data v)"

definition Varchar_append :: "char \<Rightarrow> varchar \<Rightarrow> varchar" where
  "Varchar_append x v = \<lparr>vc_length = vc_length v + 1, vc_data = (vc_data v)[vc_length v := x]\<rparr>"

definition Varchar_resize :: "nat \<Rightarrow> varchar \<Rightarrow> varchar" where
  "Varchar_resize n v = v\<lparr>vc_length := n\<rparr>"

text \<open>Concatenation builds a new object, whose array starts out as \<open>memory\<close>.\<close>

definition Varchar_plus :: "string \<Rightarrow> varchar \<Rightarrow> string \<Rightarrow> varchar" where
  "Varchar_plus memory v rhs = Varchar_of memory (Varchar_toString v @ rhs)"

definition Varchar_eq :: "varchar \<Rightarrow> string \<Rightarrow> bool" where
  "Varchar_eq v rhs = (vc_length v = length rhs \<and> Varchar_toString v = rhs)"

section \<open>Rows\<close>

type_synonym warehouse_key = Integer

record 'd warehouse_t =
  w_name :: varchar
  w_street_1 :: varchar
  w_street_2 :: varchar
  w_city :: varchar
  w_state :: varchar
  w_zip :: varchar
  w_tax :: 'd
  w_ytd :: 'd

type_synonym district_key = "Integer \<times> Integer"

record 'd district_t =
  d_name :: varchar
  d_street_1 :: varchar
  d_street_2 :: varchar
  d_city :: varchar
  d_state :: varchar
  d_zip :: varchar
  d_tax :: 'd
  d_ytd :: 'd
  d_next_o_id :: Integer

type_synonym customer_key = "Integer \<times> Integer \<times> Integer"

record 'd customer_t =
  c_first :: varchar
  c_middle :: varchar
  c_last :: varchar
  c_street_1 :: varchar
  c_street_2 :: varchar
  c_city :: varchar
  c_state :: varchar
  c_zip :: varchar
  c_phone :: varchar
  c_since :: Timestamp
  c_credit :: varchar
  c_credit_lim :: 'd
  c_discount :: 'd
  c_balance :: 'd
  c_ytd_payment :: 'd
  c_payment_cnt :: 'd
  c_delivery_cnt :: 'd
  c_data :: varchar

type_synonym customer_wdl_key = "Integer \<times> Integer \<times> varchar"

record customer_wdl_t =
  wdl_c_id :: Integer

type_synonym history_key = "Integer \<times> Integer \<times> Integer \<times> Integer \<times> Integer \<times> Timestamp"

record 'd history_t =
  h_amount :: 'd
  h_data :: varchar

type_synonym new_order_key = "Integer \<times> Integer \<times> Integer"

record new_order_t =
  no_dummy :: Integer

type_synonym order_key = "Integer \<times> Integer \<times> Integer"

record 'd order_t =
  o_c_id :: Integer
  o_entry_d :: Timestamp
  o_carrier_id :: Integer
  o_ol_cnt :: 'd
  o_all_local :: 'd

text \<open>A row of \<^verbatim>\<open>order_wdc_t\<close> has no members.\<close>

type_synonym order_wdc_key = "Integer \<times> Integer \<times> Integer \<times> Integer"
type_synonym order_wdc_t = unit

type_synonym order_line_key = "Integer \<times> Integer \<times> Integer \<times> Integer"

record 'd order_line_t =
  ol_i_id :: Integer
  ol_supply_w_id :: Integer
  ol_delivery_d :: Timestamp
  ol_quantity :: 'd
  ol_amount :: 'd
  ol_dist_info :: varchar

type_synonym item_key = Integer

record 'd item_t =
  i_im_id :: Integer
  i_name :: varchar
  i_price :: 'd
  i_data :: varchar

type_synonym stock_key = "Integer \<times> Integer"

record 'd stock_t =
  s_quantity :: 'd
  s_dist_01 :: varchar
  s_dist_02 :: varchar
  s_dist_03 :: varchar
  s_dist_04 :: varchar
  s_dist_05 :: varchar
  s_dist_06 :: varchar
  s_dist_07 :: varchar
  s_dist_08 :: varchar
  s_dist_09 :: varchar
  s_dist_10 :: varchar
  s_ytd :: 'd
  s_order_cnt :: 'd
  s_remote_cnt :: 'd
  s_data :: varchar

section \<open>Requests\<close>

record NewOrder =
  no_warehouseId :: Integer
  no_districtId :: Integer
  no_customerId :: Integer
  orderLineCount :: Integer
  orderLineNumbers :: "Integer list"
  supplierWarehouse :: "Integer list"
  itemIds :: "Integer list"
  quantities :: "Integer list"
  no_timestamp :: Timestamp

record 'd Payment =
  warehouseId :: Integer
  districtId :: Integer
  customerWarehouseId :: Integer
  customerDistrictId :: Integer
  homeOrderTotalAmount :: 'd
  homeOrderTotalDate :: Timestamp
  timestamp :: Timestamp
  isPaymentById :: bool
  customerLastName :: varchar
  customerId :: Integer

section \<open>Codec and arithmetic\<close>

text \<open>The encoder of the keys of a table, the decoder and the encoder of its rows.\<close>

record ('k, 'v) codec =
  enc_key :: "'k \<Rightarrow> string option"
  dec_row :: "string \<Rightarrow> 'v option"
  enc_row :: "'v \<Rightarrow> string option"

record 'd tpcc =
  in_NewOrder :: "string \<Rightarrow> NewOrder option"
  in_Payment :: "string \<Rightarrow> 'd Payment option"
  out_c_data :: "Integer \<Rightarrow> 'd Payment \<Rightarrow> varchar \<Rightarrow> varchar \<Rightarrow> varchar \<Rightarrow> string option"
  warehouse_c :: "(warehouse_key, 'd warehouse_t) codec"
  district_c :: "(district_key, 'd district_t) codec"
  customer_c :: "(customer_key, 'd customer_t) codec"
  customer_wdl_c :: "(customer_wdl_key, customer_wdl_t) codec"
  history_c :: "(history_key, 'd history_t) codec"
  new_order_c :: "(new_order_key, new_order_t) codec"
  order_c :: "(order_key, 'd order_t) codec"
  order_wdc_c :: "(order_wdc_key, order_wdc_t) codec"
  order_line_c :: "(order_line_key, 'd order_line_t) codec"
  item_c :: "(item_key, 'd item_t) codec"
  stock_c :: "(stock_key, 'd stock_t) codec"
  n_int :: "int \<Rightarrow> 'd"
  n_add :: "'d \<Rightarrow> 'd \<Rightarrow> 'd"
  n_sub :: "'d \<Rightarrow> 'd \<Rightarrow> 'd"
  n_mul :: "'d \<Rightarrow> 'd \<Rightarrow> 'd"
  n_le :: "'d \<Rightarrow> 'd \<Rightarrow> bool"

section \<open>Constants\<close>

definition P_WAREHOUSE :: string where "P_WAREHOUSE = ''w_''"
definition P_DISTRICT :: string where "P_DISTRICT = ''d_''"
definition P_CUSTOMER :: string where "P_CUSTOMER = ''c_''"
definition P_CUSTOMER_WDL :: string where "P_CUSTOMER_WDL = ''c-wdl_''"
definition P_HISTORY :: string where "P_HISTORY = ''h_''"
definition P_NEW_ORDER :: string where "P_NEW_ORDER = ''n_''"
definition P_ORDER :: string where "P_ORDER = ''o_''"
definition P_ORDER_WDC :: string where "P_ORDER_WDC = ''o-wdc_''"
definition P_ORDER_LINE :: string where "P_ORDER_LINE = ''ol_''"
definition P_ITEM :: string where "P_ITEM = ''i_''"
definition P_STOCK :: string where "P_STOCK = ''s_''"

lemmas table_prefixes = P_WAREHOUSE_def P_DISTRICT_def P_CUSTOMER_def P_CUSTOMER_WDL_def
  P_HISTORY_def P_NEW_ORDER_def P_ORDER_def P_ORDER_WDC_def P_ORDER_LINE_def P_ITEM_def P_STOCK_def

definition ITEMS_COUNT :: int where "ITEMS_COUNT = 100000"
definition DISTRICT_COUNT :: int where "DISTRICT_COUNT = 10"
definition ORIGINAL_STR :: string where "ORIGINAL_STR = ''ORIGINAL''"

definition lastNames :: "string list" where
  "lastNames = [''BAR'', ''OUGHT'', ''ABLE'', ''PRI'', ''PRES'',
                ''ESE'', ''ANTI'', ''CALLY'', ''ATION'', ''EING'']"

text \<open>The argument is between 0 and 999; the bytes behind the name are \<open>memory\<close>.\<close>

definition GenerateLastName :: "string \<Rightarrow> nat \<Rightarrow> varchar" where
  "GenerateLastName memory n =
     Varchar_of memory
       (take 16 (lastNames ! (n div 100) @ lastNames ! (n div 10 mod 10) @ lastNames ! (n mod 10)))"

text \<open>Four digits of a number below 10000, then five ones.\<close>

definition randomZipCode :: "string \<Rightarrow> string \<Rightarrow> nat \<Rightarrow> varchar" where
  "randomZipCode memory memory' zid =
     Varchar_plus memory'
       (Varchar_append (char_of (48 + zid mod 10))
        (Varchar_append (char_of (48 + zid div 10 mod 10))
         (Varchar_append (char_of (48 + zid div 100 mod 10))
          (Varchar_append (char_of (48 + zid div 1000))
            \<lparr>vc_length = 0, vc_data = memory\<rparr>))))
       ''11111''"

text \<open>The warehouses of a node; the first components count from 0.\<close>

definition CalculatePartition :: "nat \<Rightarrow> nat \<Rightarrow> nat \<Rightarrow> nat \<times> nat" where
  "CalculatePartition myId nodesCount warehouseCount =
     (let blockSize = warehouseCount div nodesCount; begin' = myId * blockSize in
      (begin', if myId = nodesCount - 1 then warehouseCount else begin' + blockSize))"

section \<open>Properties of the data\<close>

lemma Varchar_toString_of [simp]: "Varchar_toString (Varchar_of memory str) = str"
  by (simp add: Varchar_toString_def Varchar_of_def)

lemma Varchar_length_data:
  "length str \<le> length memory \<Longrightarrow> length (vc_data (Varchar_of memory str)) = length memory"
  by (simp add: Varchar_of_def)

text \<open>
  The array of a text is determined by the text only if the text fills it: the same text
  in two places of memory is two different values.
\<close>

lemma Varchar_of_eq_iff:
  assumes "length m = length m'"
  shows "Varchar_of m s = Varchar_of m' s \<longleftrightarrow> drop (length s) m = drop (length s) m'"
  by (simp add: Varchar_of_def)

text \<open>The partitions of the nodes follow each other and cover all warehouses.\<close>

lemma CalculatePartition_adjacent:
  assumes "Suc i < n"
  shows "snd (CalculatePartition i n w) = fst (CalculatePartition (Suc i) n w)"
  using assms by (auto simp: CalculatePartition_def Let_def)

lemma CalculatePartition_ends:
  assumes "0 < n"
  shows "fst (CalculatePartition 0 n w) = 0" "snd (CalculatePartition (n - 1) n w) = w"
  using assms by (simp_all add: CalculatePartition_def Let_def)

end
