(* ===== verification/Tpcc.thy ===== *)
theory Tpcc
  imports TpccSchema
begin

text \<open>
  The order-entry chaincode, \<^verbatim>\<open>src/peer/chaincode/tpcc_chaincode.cpp\<close>: the new-order
  and the payment transaction. The helpers return false on a missing row or a codec
  failure and every caller returns false at once, which \<^verbatim>\<open>InvokeChaincode\<close> turns into
  the return code -1.
\<close>

section \<open>Table access\<close>

definition TPCC_getValue :: "('k, 'v) codec \<Rightarrow> string \<Rightarrow> 'k \<Rightarrow> ('v \<Rightarrow> prog) \<Rightarrow> prog" where
  "TPCC_getValue c tablePrefix key k =
     (case enc_key c key of
        None \<Rightarrow> Return (-1)
      | Some raw \<Rightarrow> Get (tablePrefix @ raw) (\<lambda>r.
          case r of
            None \<Rightarrow> Return (-1)
          | Some valueSV \<Rightarrow>
              (case dec_row c valueSV of None \<Rightarrow> Return (-1) | Some v \<Rightarrow> k v)))"

definition TPCC_insertIntoTable :: "('k, 'v) codec \<Rightarrow> string \<Rightarrow> 'k \<Rightarrow> 'v \<Rightarrow> prog \<Rightarrow> prog" where
  "TPCC_insertIntoTable c tablePrefix key v k =
     (case enc_key c key of
        None \<Rightarrow> Return (-1)
      | Some raw \<Rightarrow>
          (case enc_row c v of
             None \<Rightarrow> Return (-1)
           | Some valueRaw \<Rightarrow> Put (tablePrefix @ raw) valueRaw k))"

section \<open>New order\<close>

text \<open>The quantity rule and the counters of a stock row.\<close>

definition stock_update :: "'d tpcc \<Rightarrow> Integer \<Rightarrow> bool \<Rightarrow> 'd stock_t \<Rightarrow> 'd stock_t" where
  "stock_update tp quantity remote stockValue =
     (let v1 = (if n_le tp (n_int tp (i32 (quantity + 10))) (s_quantity stockValue)
                then stockValue\<lparr>s_quantity := n_sub tp (s_quantity stockValue) (n_int tp quantity)\<rparr>
                else stockValue\<lparr>s_quantity :=
                  n_add tp (s_quantity stockValue) (n_int tp (i32 (91 - quantity)))\<rparr>);
          v2 = (if remote then v1\<lparr>s_remote_cnt := n_add tp (s_remote_cnt v1) (n_int tp 1)\<rparr> else v1)
      in v2\<lparr>s_order_cnt := n_add tp (s_order_cnt v2) (n_int tp 1),
            s_ytd := n_add tp (s_ytd v2) (n_int tp quantity)\<rparr>)"

text \<open>The switch on the district; \<^const>\<open>None\<close> is the failing check of its default.\<close>

definition s_dist :: "Integer \<Rightarrow> 'd stock_t \<Rightarrow> varchar option" where
  "s_dist district v =
     (if district = 1 then Some (s_dist_01 v)
      else if district = 2 then Some (s_dist_02 v)
      else if district = 3 then Some (s_dist_03 v)
      else if district = 4 then Some (s_dist_04 v)
      else if district = 5 then Some (s_dist_05 v)
      else if district = 6 then Some (s_dist_06 v)
      else if district = 7 then Some (s_dist_07 v)
      else if district = 8 then Some (s_dist_08 v)
      else if district = 9 then Some (s_dist_09 v)
      else if district = 10 then Some (s_dist_10 v)
      else None)"

text \<open>The price of a line with taxes and discount.\<close>

definition line_amount :: "'d tpcc \<Rightarrow> 'd \<Rightarrow> 'd \<Rightarrow> 'd \<Rightarrow> Integer \<Rightarrow> 'd \<Rightarrow> 'd" where
  "line_amount tp w_tax' d_tax' discount quantity price =
     n_mul tp (n_mul tp (n_mul tp (n_int tp quantity) price)
                 (n_add tp (n_add tp (n_int tp 1) w_tax') d_tax'))
       (n_sub tp (n_int tp 1) discount)"

text \<open>
  One iteration of the loop over the lines, continued by \<open>k\<close>. An index behind the end of
  one of the four vectors is undefined behaviour of the program and ends the model's run
  like a failed check.
\<close>

definition new_order_line ::
  "'d tpcc \<Rightarrow> NewOrder \<Rightarrow> 'd \<Rightarrow> 'd \<Rightarrow> 'd \<Rightarrow> nat \<Rightarrow> prog \<Rightarrow> prog" where
  "new_order_line tp newOrder w_tax' d_tax' discount i k =
     (if length (itemIds newOrder) \<le> i \<or> length (quantities newOrder) \<le> i \<or>
         length (supplierWarehouse newOrder) \<le> i \<or> length (orderLineNumbers newOrder) \<le> i
      then Throw
      else
        let item = itemIds newOrder ! i; quantity = quantities newOrder ! i;
            supply = supplierWarehouse newOrder ! i; line_number = orderLineNumbers newOrder ! i;
            w = no_warehouseId newOrder; d = no_districtId newOrder;
            rest = (\<lambda>price stockValue.
              case s_dist d stockValue of
                None \<Rightarrow> Throw
              | Some dist \<Rightarrow>
                  TPCC_insertIntoTable (order_line_c tp) P_ORDER_LINE (w, d, d, line_number)
                    \<lparr>ol_i_id = item, ol_supply_w_id = supply, ol_delivery_d = 0,
                     ol_quantity = n_int tp quantity,
                     ol_amount = line_amount tp w_tax' d_tax' discount quantity price,
                     ol_dist_info = dist\<rparr> k)
        in
          TPCC_getValue (item_c tp) P_ITEM item (\<lambda>itemValue.
          TPCC_getValue (stock_c tp) P_STOCK (supply, item) (\<lambda>stockValue.
          let stockValue' = stock_update tp quantity (supply \<noteq> w) stockValue in
          TPCC_insertIntoTable (stock_c tp) P_STOCK (supply, item) stockValue' (
          if supply \<noteq> w
          then TPCC_getValue (stock_c tp) P_STOCK (w, item) (\<lambda>other. rest (i_price itemValue) other)
          else rest (i_price itemValue) stockValue'))))"

definition executeNewOrder :: "'d tpcc \<Rightarrow> string \<Rightarrow> prog" where
  "executeNewOrder tp arg =
     (case in_NewOrder tp arg of
        None \<Rightarrow> Return (-1)
      | Some newOrder \<Rightarrow>
          let w = no_warehouseId newOrder; d = no_districtId newOrder; c = no_customerId newOrder in
          TPCC_getValue (warehouse_c tp) P_WAREHOUSE w (\<lambda>wValue.
          TPCC_getValue (district_c tp) P_DISTRICT (w, d) (\<lambda>dValue.
          let oid = d_next_o_id dValue in
          TPCC_insertIntoTable (district_c tp) P_DISTRICT (w, d) (dValue\<lparr>d_next_o_id := i32 (oid + 1)\<rparr>) (
          TPCC_getValue (customer_c tp) P_CUSTOMER (w, d, c) (\<lambda>cValue.
          let all_local = (if \<exists>sw \<in> set (supplierWarehouse newOrder). sw \<noteq> w then 0 else 1) in
          TPCC_insertIntoTable (order_c tp) P_ORDER (w, d, oid)
            \<lparr>o_c_id = c, o_entry_d = no_timestamp newOrder, o_carrier_id = 0,
             o_ol_cnt = n_int tp (orderLineCount newOrder), o_all_local = n_int tp all_local\<rparr> (
          TPCC_insertIntoTable (order_wdc_c tp) P_ORDER_WDC (w, d, c, oid) () (
          TPCC_insertIntoTable (new_order_c tp) P_NEW_ORDER (w, d, oid) \<lparr>no_dummy = 0\<rparr> (
          foldr (new_order_line tp newOrder (w_tax wValue) (d_tax dValue) (c_discount cValue))
            [0..<nat (orderLineCount newOrder)] (Return 0)))))))))"

section \<open>Payment\<close>

definition string_resize :: "nat \<Rightarrow> string \<Rightarrow> string" where
  "string_resize n s = take n s @ replicate (n - length s) (CHR 0x00)"

text \<open>
  The new data of a customer with bad credit: the payment in front of the old data, cut
  to the size of the field. The text fills the field, no byte of memory shows.
\<close>

definition credit_data ::
  "'d tpcc \<Rightarrow> Integer \<Rightarrow> 'd Payment \<Rightarrow> varchar \<Rightarrow> varchar \<Rightarrow> 'd customer_t \<Rightarrow> 'd customer_t option" where
  "credit_data tp cid payment wname dname cValue =
     (if vc_data (c_credit cValue) ! 0 = CHR ''B'' \<and> vc_data (c_credit cValue) ! 1 = CHR ''C''
      then map_option (\<lambda>valueRaw. cValue\<lparr>c_data := Varchar_of [] (string_resize 500 valueRaw)\<rparr>)
             (out_c_data tp cid payment wname dname (c_data cValue))
      else Some cValue)"

definition customer_pay :: "'d tpcc \<Rightarrow> 'd \<Rightarrow> 'd customer_t \<Rightarrow> 'd customer_t" where
  "customer_pay tp amount cValue =
     cValue\<lparr>c_balance := n_sub tp (c_balance cValue) amount,
            c_ytd_payment := n_add tp (c_ytd_payment cValue) amount,
            c_payment_cnt := n_add tp (c_payment_cnt cValue) (n_int tp 1)\<rparr>"

definition history_data :: "string \<Rightarrow> varchar \<Rightarrow> varchar \<Rightarrow> varchar" where
  "history_data memory wname dname =
     Varchar_of memory (take 24 (Varchar_toString wname @ ''    '' @ Varchar_toString dname))"

text \<open>\<open>memory\<close> is what the array of the new history row holds before it is filled.\<close>

definition executePayment :: "'d tpcc \<Rightarrow> string \<Rightarrow> string \<Rightarrow> prog" where
  "executePayment tp memory arg =
     (case in_Payment tp arg of
        None \<Rightarrow> Return (-1)
      | Some payment \<Rightarrow>
          let w = warehouseId payment; d = districtId payment; amount = homeOrderTotalAmount payment;
              cw = customerWarehouseId payment; cd = customerDistrictId payment in
          TPCC_getValue (warehouse_c tp) P_WAREHOUSE w (\<lambda>wValue.
          TPCC_insertIntoTable (warehouse_c tp) P_WAREHOUSE w
            (wValue\<lparr>w_ytd := n_add tp (w_ytd wValue) amount\<rparr>) (
          TPCC_getValue (district_c tp) P_DISTRICT (w, d) (\<lambda>dValue.
          TPCC_insertIntoTable (district_c tp) P_DISTRICT (w, d)
            (dValue\<lparr>d_ytd := n_add tp (d_ytd dValue) amount\<rparr>) (
          let pay = (\<lambda>cid.
            TPCC_getValue (customer_c tp) P_CUSTOMER (cw, cd, cid) (\<lambda>cValue.
            case credit_data tp cid payment (w_name wValue) (d_name dValue) cValue of
              None \<Rightarrow> Return (-1)
            | Some cValue' \<Rightarrow>
                TPCC_insertIntoTable (customer_c tp) P_CUSTOMER (cw, cd, cid)
                  (customer_pay tp amount cValue') (
                TPCC_insertIntoTable (history_c tp) P_HISTORY (cid, cd, cw, d, w, timestamp payment)
                  \<lparr>h_amount = amount, h_data = history_data memory (w_name wValue) (d_name dValue)\<rparr>
                  (Return 0))))
          in
            if isPaymentById payment then pay (customerId payment)
            else
              TPCC_getValue (customer_wdl_c tp) P_CUSTOMER_WDL (cw, cd, customerLastName payment)
                (\<lambda>wdlValue. pay (wdl_c_id wdlValue)))))))"

definition TPCC_InvokeChaincode :: "'d tpcc \<Rightarrow> string \<Rightarrow> chaincode" where
  "TPCC_InvokeChaincode tp memory func arg =
     (if func = ''n'' then executeNewOrder tp arg
      else if func = ''p'' then executePayment tp memory arg
      else Return (-1))"

section \<open>Every operation fails at its first lookup in vain\<close>

lemma strict_TPCC_getValue:
  "(\<And>v. strict_at db (k v)) \<Longrightarrow> strict_at db (TPCC_getValue c p i k)"
  by (auto simp: strict_at_def TPCC_getValue_def split: option.split)

lemma strict_TPCC_insert: "strict_at db k \<Longrightarrow> strict_at db (TPCC_insertIntoTable c p i v k)"
  by (auto simp: strict_at_def TPCC_insertIntoTable_def split: option.split)

lemma strict_new_order_line:
  "strict_at db k \<Longrightarrow> strict_at db (new_order_line tp newOrder wt dt disc i k)"
  unfolding new_order_line_def Let_def
  by (intro strict_branch strict_leaf strict_TPCC_getValue strict_TPCC_insert)

lemma strict_new_order_lines:
  "strict_at db k \<Longrightarrow> strict_at db (foldr (new_order_line tp newOrder wt dt disc) xs k)"
  by (induction xs) (simp_all add: strict_new_order_line)

lemma careful_tpcc: "careful (TPCC_InvokeChaincode tp memory func arg)"
  unfolding TPCC_InvokeChaincode_def executeNewOrder_def executePayment_def Let_def
  by (intro strict_careful strict_branch strict_leaf strict_TPCC_getValue strict_TPCC_insert
      strict_new_order_lines)

end
