(* ===== verification/TpccSpec.thy ===== *)
theory TpccSpec
  imports Tpcc
begin

text \<open>
  What the order-entry chaincode does, on tables: the database as a map per table, the
  two transactions as functions on tables, and the lemmas that tie the chaincode's runs
  over raw keys and values to them.
\<close>

section \<open>Laws of the codec\<close>

text \<open>
  Documented behaviour of the serialization library: encoding does not fail, different
  keys have different encodings, and a row is encoded by at least one byte and can be
  read back. A row without members is encoded by no byte.
\<close>

definition key_laws :: "('k, 'v) codec \<Rightarrow> bool" where
  "key_laws c \<longleftrightarrow> (\<forall>k. enc_key c k \<noteq> None) \<and> inj (enc_key c)"

definition row_laws :: "('k, 'v) codec \<Rightarrow> bool" where
  "row_laws c \<longleftrightarrow> (\<forall>v. \<exists>s. enc_row c v = Some s \<and> s \<noteq> [] \<and> dec_row c s = Some v)"

definition tpcc_laws :: "'d tpcc \<Rightarrow> bool" where
  "tpcc_laws tp \<longleftrightarrow>
     key_laws (warehouse_c tp) \<and> key_laws (district_c tp) \<and> key_laws (customer_c tp) \<and>
     key_laws (customer_wdl_c tp) \<and> key_laws (history_c tp) \<and> key_laws (new_order_c tp) \<and>
     key_laws (order_c tp) \<and> key_laws (order_wdc_c tp) \<and> key_laws (order_line_c tp) \<and>
     key_laws (item_c tp) \<and> key_laws (stock_c tp) \<and>
     row_laws (warehouse_c tp) \<and> row_laws (district_c tp) \<and> row_laws (customer_c tp) \<and>
     row_laws (customer_wdl_c tp) \<and> row_laws (history_c tp) \<and> row_laws (new_order_c tp) \<and>
     row_laws (order_c tp) \<and> row_laws (order_line_c tp) \<and> row_laws (item_c tp) \<and>
     row_laws (stock_c tp) \<and> enc_row (order_wdc_c tp) () = Some []"

section \<open>Tables\<close>

record 'd tables =
  warehouses :: "warehouse_key \<rightharpoonup> 'd warehouse_t"
  districts :: "district_key \<rightharpoonup> 'd district_t"
  customers :: "customer_key \<rightharpoonup> 'd customer_t"
  customer_index :: "customer_wdl_key \<rightharpoonup> customer_wdl_t"
  histories :: "history_key \<rightharpoonup> 'd history_t"
  new_orders :: "new_order_key \<rightharpoonup> new_order_t"
  orders :: "order_key \<rightharpoonup> 'd order_t"
  order_index :: "order_wdc_key \<rightharpoonup> order_wdc_t"
  order_lines :: "order_line_key \<rightharpoonup> 'd order_line_t"
  items :: "item_key \<rightharpoonup> 'd item_t"
  stocks :: "stock_key \<rightharpoonup> 'd stock_t"

definition table :: "('k, 'v) codec \<Rightarrow> string \<Rightarrow> DB \<Rightarrow> 'k \<Rightarrow> 'v option" where
  "table c p db k =
     (case enc_key c k of None \<Rightarrow> None
      | Some raw \<Rightarrow> (case visible db (p @ raw) of None \<Rightarrow> None | Some s \<Rightarrow> dec_row c s))"

definition tables_of :: "'d tpcc \<Rightarrow> DB \<Rightarrow> 'd tables" where
  "tables_of tp db =
     \<lparr>warehouses = table (warehouse_c tp) P_WAREHOUSE db,
      districts = table (district_c tp) P_DISTRICT db,
      customers = table (customer_c tp) P_CUSTOMER db,
      customer_index = table (customer_wdl_c tp) P_CUSTOMER_WDL db,
      histories = table (history_c tp) P_HISTORY db,
      new_orders = table (new_order_c tp) P_NEW_ORDER db,
      orders = table (order_c tp) P_ORDER db,
      order_index = table (order_wdc_c tp) P_ORDER_WDC db,
      order_lines = table (order_line_c tp) P_ORDER_LINE db,
      items = table (item_c tp) P_ITEM db,
      stocks = table (stock_c tp) P_STOCK db\<rparr>"

section \<open>The transactions on tables\<close>

text \<open>A transaction rolls back, ends the process, or commits a result.\<close>

datatype 'a txn = Rollback | Crash | Commit 'a

fun bind_txn :: "'a txn \<Rightarrow> ('a \<Rightarrow> 'b txn) \<Rightarrow> 'b txn" where
  "bind_txn Rollback f = Rollback"
| "bind_txn Crash f = Crash"
| "bind_txn (Commit a) f = f a"

definition need :: "'a option \<Rightarrow> ('a \<Rightarrow> 'b txn) \<Rightarrow> 'b txn" where
  "need x f = (case x of None \<Rightarrow> Rollback | Some a \<Rightarrow> f a)"

text \<open>
  A line of a new order. Reads see the tables as they were before the transaction
  (\<open>t0\<close>), writes go to \<open>t\<close>.
\<close>

definition line_spec ::
  "'d tpcc \<Rightarrow> NewOrder \<Rightarrow> 'd \<Rightarrow> 'd \<Rightarrow> 'd \<Rightarrow> 'd tables \<Rightarrow> nat \<Rightarrow> 'd tables \<Rightarrow> 'd tables txn" where
  "line_spec tp newOrder w_tax' d_tax' discount t0 i t =
     (if min (min (length (itemIds newOrder)) (length (quantities newOrder)))
           (min (length (supplierWarehouse newOrder)) (length (orderLineNumbers newOrder))) \<le> i
      then Crash
      else
        let item = itemIds newOrder ! i; quantity = quantities newOrder ! i;
            supply = supplierWarehouse newOrder ! i; w = no_warehouseId newOrder;
            d = no_districtId newOrder in
        need (items t0 item) (\<lambda>itemValue.
        need (stocks t0 (supply, item)) (\<lambda>stock.
        let stock' = stock_update tp quantity (supply \<noteq> w) stock in
        need (if supply \<noteq> w then stocks t0 (w, item) else Some stock') (\<lambda>home.
        case s_dist d home of
          None \<Rightarrow> Crash
        | Some dist \<Rightarrow>
            Commit (t\<lparr>stocks := (stocks t)((supply, item) \<mapsto> stock'),
              order_lines := (order_lines t)((w, d, d, orderLineNumbers newOrder ! i) \<mapsto>
                \<lparr>ol_i_id = item, ol_supply_w_id = supply, ol_delivery_d = 0,
                 ol_quantity = n_int tp quantity,
                 ol_amount = line_amount tp w_tax' d_tax' discount quantity (i_price itemValue),
                 ol_dist_info = dist\<rparr>)\<rparr>)))))"

fun lines_spec ::
  "'d tpcc \<Rightarrow> NewOrder \<Rightarrow> 'd \<Rightarrow> 'd \<Rightarrow> 'd \<Rightarrow> 'd tables \<Rightarrow> nat list \<Rightarrow> 'd tables \<Rightarrow> 'd tables txn" where
  "lines_spec tp newOrder wt dt disc t0 [] t = Commit t"
| "lines_spec tp newOrder wt dt disc t0 (i # is) t =
     bind_txn (line_spec tp newOrder wt dt disc t0 i t) (lines_spec tp newOrder wt dt disc t0 is)"

text \<open>The row of the customer's order index has no bytes: writing it deletes it.\<close>

definition new_order_header :: "'d tpcc \<Rightarrow> NewOrder \<Rightarrow> 'd district_t \<Rightarrow> 'd tables \<Rightarrow> 'd tables" where
  "new_order_header tp newOrder dv t =
     (let w = no_warehouseId newOrder; d = no_districtId newOrder; c = no_customerId newOrder;
          oid = d_next_o_id dv in
      t\<lparr>districts := (districts t)((w, d) \<mapsto> dv\<lparr>d_next_o_id := i32 (oid + 1)\<rparr>),
        orders := (orders t)((w, d, oid) \<mapsto>
          \<lparr>o_c_id = c, o_entry_d = no_timestamp newOrder, o_carrier_id = 0,
           o_ol_cnt = n_int tp (orderLineCount newOrder),
           o_all_local = n_int tp (if list_all ((=) w) (supplierWarehouse newOrder) then 1 else 0)\<rparr>),
        order_index := (order_index t)((w, d, c, oid) := None),
        new_orders := (new_orders t)((w, d, oid) \<mapsto> \<lparr>no_dummy = 0\<rparr>)\<rparr>)"

definition new_order_spec :: "'d tpcc \<Rightarrow> NewOrder \<Rightarrow> 'd tables \<Rightarrow> 'd tables txn" where
  "new_order_spec tp newOrder t =
     need (warehouses t (no_warehouseId newOrder)) (\<lambda>wv.
     need (districts t (no_warehouseId newOrder, no_districtId newOrder)) (\<lambda>dv.
     need (customers t (no_warehouseId newOrder, no_districtId newOrder, no_customerId newOrder)) (\<lambda>cv.
     lines_spec tp newOrder (w_tax wv) (d_tax dv) (c_discount cv) t
       [0..<nat (orderLineCount newOrder)] (new_order_header tp newOrder dv t))))"

definition payment_spec :: "'d tpcc \<Rightarrow> string \<Rightarrow> 'd Payment \<Rightarrow> 'd tables \<Rightarrow> 'd tables txn" where
  "payment_spec tp memory p t =
     (let w = warehouseId p; d = districtId p; cw = customerWarehouseId p; cd = customerDistrictId p;
          amount = homeOrderTotalAmount p in
      need (warehouses t w) (\<lambda>wv.
      need (districts t (w, d)) (\<lambda>dv.
      need (if isPaymentById p then Some (customerId p)
            else map_option wdl_c_id (customer_index t (cw, cd, customerLastName p))) (\<lambda>c.
      need (customers t (cw, cd, c)) (\<lambda>cv.
      need (credit_data tp c p (w_name wv) (d_name dv) cv) (\<lambda>cv'.
      Commit (t\<lparr>warehouses := (warehouses t)(w \<mapsto> wv\<lparr>w_ytd := n_add tp (w_ytd wv) amount\<rparr>),
        districts := (districts t)((w, d) \<mapsto> dv\<lparr>d_ytd := n_add tp (d_ytd dv) amount\<rparr>),
        customers := (customers t)((cw, cd, c) \<mapsto> customer_pay tp amount cv'),
        histories := (histories t)((c, cd, cw, d, w, timestamp p) \<mapsto>
          \<lparr>h_amount = amount, h_data = history_data memory (w_name wv) (d_name dv)\<rparr>)\<rparr>)))))))"

text \<open>An invocation does what a transaction on tables says.\<close>

definition implements_txn :: "'d tpcc \<Rightarrow> DB \<Rightarrow> int option \<times> DB \<Rightarrow> 'd tables txn \<Rightarrow> bool" where
  "implements_txn tp db out spec =
     (case spec of
        Rollback \<Rightarrow> out = (Some (-1), db)
      | Crash \<Rightarrow> out = (None, db)
      | Commit t \<Rightarrow> fst out = Some 0 \<and> tables_of tp (snd out) = t)"

section \<open>Runs and tables\<close>

lemma run_TPCC_getValue:
  "run_writes (TPCC_getValue c p i k) db ws =
     (case table c p db i of None \<Rightarrow> (Some (-1), ws) | Some v \<Rightarrow> run_writes (k v) db ws)"
  by (auto simp: TPCC_getValue_def table_def split: option.splits)

definition key_bytes :: "('k, 'v) codec \<Rightarrow> 'k \<Rightarrow> string" where
  "key_bytes c k = the (enc_key c k)"

definition row_bytes :: "('k, 'v) codec \<Rightarrow> 'v \<Rightarrow> string" where
  "row_bytes c v = the (enc_row c v)"

lemma enc_key_Some: "key_laws c \<Longrightarrow> enc_key c k = Some (key_bytes c k)"
  unfolding key_laws_def key_bytes_def by (metis option.collapse)

lemma key_bytes_inject: "key_laws c \<Longrightarrow> key_bytes c k = key_bytes c k' \<longleftrightarrow> k = k'"
  unfolding key_laws_def key_bytes_def inj_def by (metis option.expand)

lemma enc_row_Some:
  assumes "row_laws c"
  shows "enc_row c v = Some (row_bytes c v)" "row_bytes c v \<noteq> []" "dec_row c (row_bytes c v) = Some v"
  using assms unfolding row_laws_def row_bytes_def by (metis option.sel)+

lemma run_TPCC_insert:
  assumes "key_laws c" and "row_laws c"
  shows "run_writes (TPCC_insertIntoTable c p i v k) db ws =
     run_writes k db (ws @ [KV_of (p @ key_bytes c i) (row_bytes c v)])"
  by (simp add: TPCC_insertIntoTable_def enc_key_Some[OF assms(1)] enc_row_Some(1)[OF assms(2)])

lemma run_TPCC_insert_empty:
  assumes "key_laws c" and "enc_row c v = Some []"
  shows "run_writes (TPCC_insertIntoTable c p i v k) db ws =
     run_writes k db (ws @ [KV_of (p @ key_bytes c i) []])"
  by (simp add: TPCC_insertIntoTable_def enc_key_Some[OF assms(1)] assms(2))

lemma table_put:
  assumes "key_laws c" and "row_laws c"
  shows "table c p (db(p @ key_bytes c i \<mapsto> row_bytes c v)) = (table c p db)(i \<mapsto> v)"
  by (auto simp: fun_eq_iff table_def visible_def enc_key_Some[OF assms(1)] enc_row_Some[OF assms(2)]
      key_bytes_inject[OF assms(1)])

lemma table_delete:
  assumes "key_laws c"
  shows "table c p (db(p @ key_bytes c i := None)) = (table c p db)(i := None)"
  by (auto simp: fun_eq_iff table_def visible_def enc_key_Some[OF assms(1)] key_bytes_inject[OF assms(1)])

lemma table_other:
  assumes "\<And>x. p @ x \<noteq> k"
  shows "table c p (db(k := v)) = table c p db"
  using assms by (auto simp: fun_eq_iff table_def visible_def split: option.splits)

text \<open>The first two characters of a prefix tell the table, so a row belongs to one table.\<close>

lemma prefix_apart:
  "take 2 p \<noteq> take 2 q \<Longrightarrow> 2 \<le> length p \<Longrightarrow> 2 \<le> length q \<Longrightarrow> p @ x \<noteq> q @ y"
  by (metis append_eq_conv_conj take_append diff_is_0_eq take_0 append_Nil2)

lemma prefix_heads:
  "take 2 P_WAREHOUSE = ''w_''" "take 2 P_DISTRICT = ''d_''" "take 2 P_CUSTOMER = ''c_''"
  "take 2 P_CUSTOMER_WDL = ''c-''" "take 2 P_HISTORY = ''h_''" "take 2 P_NEW_ORDER = ''n_''"
  "take 2 P_ORDER = ''o_''" "take 2 P_ORDER_WDC = ''o-''" "take 2 P_ORDER_LINE = ''ol''"
  "take 2 P_ITEM = ''i_''" "take 2 P_STOCK = ''s_''"
  "2 \<le> length P_WAREHOUSE" "2 \<le> length P_DISTRICT" "2 \<le> length P_CUSTOMER"
  "2 \<le> length P_CUSTOMER_WDL" "2 \<le> length P_HISTORY" "2 \<le> length P_NEW_ORDER"
  "2 \<le> length P_ORDER" "2 \<le> length P_ORDER_WDC" "2 \<le> length P_ORDER_LINE"
  "2 \<le> length P_ITEM" "2 \<le> length P_STOCK"
  by (simp_all add: table_prefixes)

section \<open>Simulation\<close>

lemma tables_put:
  assumes "tpcc_laws tp"
  shows
    "tables_of tp (db(P_WAREHOUSE @ key_bytes (warehouse_c tp) k1 \<mapsto> row_bytes (warehouse_c tp) v1)) =
       (tables_of tp db)\<lparr>warehouses := (warehouses (tables_of tp db))(k1 \<mapsto> v1)\<rparr>"
    "tables_of tp (db(P_DISTRICT @ key_bytes (district_c tp) k2 \<mapsto> row_bytes (district_c tp) v2)) =
       (tables_of tp db)\<lparr>districts := (districts (tables_of tp db))(k2 \<mapsto> v2)\<rparr>"
    "tables_of tp (db(P_CUSTOMER @ key_bytes (customer_c tp) k3 \<mapsto> row_bytes (customer_c tp) v3)) =
       (tables_of tp db)\<lparr>customers := (customers (tables_of tp db))(k3 \<mapsto> v3)\<rparr>"
    "tables_of tp (db(P_CUSTOMER_WDL @ key_bytes (customer_wdl_c tp) k4 \<mapsto> row_bytes (customer_wdl_c tp) v4)) =
       (tables_of tp db)\<lparr>customer_index := (customer_index (tables_of tp db))(k4 \<mapsto> v4)\<rparr>"
    "tables_of tp (db(P_HISTORY @ key_bytes (history_c tp) k5 \<mapsto> row_bytes (history_c tp) v5)) =
       (tables_of tp db)\<lparr>histories := (histories (tables_of tp db))(k5 \<mapsto> v5)\<rparr>"
    "tables_of tp (db(P_NEW_ORDER @ key_bytes (new_order_c tp) k6 \<mapsto> row_bytes (new_order_c tp) v6)) =
       (tables_of tp db)\<lparr>new_orders := (new_orders (tables_of tp db))(k6 \<mapsto> v6)\<rparr>"
    "tables_of tp (db(P_ORDER @ key_bytes (order_c tp) k7 \<mapsto> row_bytes (order_c tp) v7)) =
       (tables_of tp db)\<lparr>orders := (orders (tables_of tp db))(k7 \<mapsto> v7)\<rparr>"
    "tables_of tp (db(P_ORDER_LINE @ key_bytes (order_line_c tp) k8 \<mapsto> row_bytes (order_line_c tp) v8)) =
       (tables_of tp db)\<lparr>order_lines := (order_lines (tables_of tp db))(k8 \<mapsto> v8)\<rparr>"
    "tables_of tp (db(P_ITEM @ key_bytes (item_c tp) k9 \<mapsto> row_bytes (item_c tp) v9)) =
       (tables_of tp db)\<lparr>items := (items (tables_of tp db))(k9 \<mapsto> v9)\<rparr>"
    "tables_of tp (db(P_STOCK @ key_bytes (stock_c tp) k10 \<mapsto> row_bytes (stock_c tp) v10)) =
       (tables_of tp db)\<lparr>stocks := (stocks (tables_of tp db))(k10 \<mapsto> v10)\<rparr>"
    "tables_of tp (db(P_ORDER_WDC @ key_bytes (order_wdc_c tp) k11 := None)) =
       (tables_of tp db)\<lparr>order_index := (order_index (tables_of tp db))(k11 := None)\<rparr>"
  using assms unfolding tpcc_laws_def
  by (simp_all add: tables_of_def table_put table_delete table_other prefix_apart prefix_heads)

text \<open>
  A write set stands for tables: applied to the database it gives them, and it deletes
  nothing but rows of the customers' order index.
\<close>

definition sim :: "'d tpcc \<Rightarrow> DB \<Rightarrow> KVList \<Rightarrow> 'd tables \<Rightarrow> bool" where
  "sim tp db ws t \<longleftrightarrow>
     tables_of tp (apply_writes ws db) = t \<and>
     (\<forall>kv \<in> set ws. kv_value kv = [] \<longrightarrow> (\<exists>x. kv_key kv = P_ORDER_WDC @ x))"

lemma sim_Nil: "sim tp db [] (tables_of tp db)"
  by (simp add: sim_def)

lemma sim_snoc:
  assumes "sim tp db ws t" and "v \<noteq> []" and "\<And>x. k \<noteq> P_ORDER_WDC @ x"
    and "\<And>db. tables_of tp (db(k \<mapsto> v)) = f (tables_of tp db)"
  shows "sim tp db (ws @ [KV_of k v]) (f t)"
  using assms apply_writes_snoc[of ws k v db] by (fastforce simp: sim_def)

text \<open>
  What a run must end with, given what the transaction on tables says; the rules take a
  run apart along the transaction.
\<close>

definition runs_to :: "'d tpcc \<Rightarrow> DB \<Rightarrow> int option \<times> KVList \<Rightarrow> 'd tables txn \<Rightarrow> bool" where
  "runs_to tp db out spec =
     (case spec of
        Rollback \<Rightarrow> fst out = Some (-1)
      | Crash \<Rightarrow> fst out = None
      | Commit t \<Rightarrow> fst out = Some 0 \<and> sim tp db (snd out) t)"

lemma runs_to_implements:
  assumes "runs_to tp db (run_writes p db []) spec"
  shows "implements_txn tp db (outcome p db) spec"
  using assms
  by (auto simp: runs_to_def implements_txn_def outcome_writes sim_def case_prod_beta split: txn.splits)

lemma runs_get:
  assumes "\<And>v. table c p db k = Some v \<Longrightarrow> runs_to tp db (run_writes (f v) db ws) (g v)"
  shows "runs_to tp db (run_writes (TPCC_getValue c p k f) db ws) (need (table c p db k) g)"
  using assms by (auto simp: run_TPCC_getValue need_def runs_to_def split: option.splits)

lemma runs_put:
  assumes "key_laws c" and "row_laws c" and "\<And>x. p @ key_bytes c i \<noteq> P_ORDER_WDC @ x"
    and "\<And>db. tables_of tp (db(p @ key_bytes c i \<mapsto> row_bytes c v)) = upd (tables_of tp db)"
    and "sim tp db ws t"
    and "\<And>ws. sim tp db ws (upd t) \<Longrightarrow> runs_to tp db (run_writes k db ws) spec"
  shows "runs_to tp db (run_writes (TPCC_insertIntoTable c p i v k) db ws) spec"
  unfolding run_TPCC_insert[OF assms(1,2)]
  by (rule assms(6), rule sim_snoc[OF assms(5) enc_row_Some(2)[OF assms(2)] assms(3,4)])

lemma runs_put_index:
  assumes "tpcc_laws tp" and "sim tp db ws t"
    and "\<And>ws. sim tp db ws (t\<lparr>order_index := (order_index t)(i := None)\<rparr>) \<Longrightarrow>
      runs_to tp db (run_writes k db ws) spec"
  shows "runs_to tp db (run_writes (TPCC_insertIntoTable (order_wdc_c tp) P_ORDER_WDC i () k) db ws) spec"
proof -
  have laws: "key_laws (order_wdc_c tp)" "enc_row (order_wdc_c tp) () = Some []"
    using assms(1) by (simp_all add: tpcc_laws_def)
  have "sim tp db (ws @ [KV_of (P_ORDER_WDC @ key_bytes (order_wdc_c tp) i) []])
      (t\<lparr>order_index := (order_index t)(i := None)\<rparr>)"
    using assms(2) by (auto simp: sim_def apply_writes_snoc_delete tables_put(11)[OF assms(1)])
  then show ?thesis
    unfolding run_TPCC_insert_empty[OF laws] by (rule assms(3))
qed

lemma runs_tables:
  "table (warehouse_c tp) P_WAREHOUSE db = warehouses (tables_of tp db)"
  "table (district_c tp) P_DISTRICT db = districts (tables_of tp db)"
  "table (customer_c tp) P_CUSTOMER db = customers (tables_of tp db)"
  "table (customer_wdl_c tp) P_CUSTOMER_WDL db = customer_index (tables_of tp db)"
  "table (item_c tp) P_ITEM db = items (tables_of tp db)"
  "table (stock_c tp) P_STOCK db = stocks (tables_of tp db)"
  by (simp_all add: tables_of_def)

lemmas runs_getValue =
  runs_get[of "warehouse_c tp" P_WAREHOUSE _ _ tp for tp, unfolded runs_tables]
  runs_get[of "district_c tp" P_DISTRICT _ _ tp for tp, unfolded runs_tables]
  runs_get[of "customer_c tp" P_CUSTOMER _ _ tp for tp, unfolded runs_tables]
  runs_get[of "customer_wdl_c tp" P_CUSTOMER_WDL _ _ tp for tp, unfolded runs_tables]
  runs_get[of "item_c tp" P_ITEM _ _ tp for tp, unfolded runs_tables]
  runs_get[of "stock_c tp" P_STOCK _ _ tp for tp, unfolded runs_tables]

lemma tpcc_laws_dest:
  assumes "tpcc_laws tp"
  shows "key_laws (warehouse_c tp)" "row_laws (warehouse_c tp)"
    and "key_laws (district_c tp)" "row_laws (district_c tp)"
    and "key_laws (customer_c tp)" "row_laws (customer_c tp)"
    and "key_laws (customer_wdl_c tp)" "row_laws (customer_wdl_c tp)"
    and "key_laws (history_c tp)" "row_laws (history_c tp)"
    and "key_laws (new_order_c tp)" "row_laws (new_order_c tp)"
    and "key_laws (order_c tp)" "row_laws (order_c tp)"
    and "key_laws (order_line_c tp)" "row_laws (order_line_c tp)"
    and "key_laws (item_c tp)" "row_laws (item_c tp)"
    and "key_laws (stock_c tp)" "row_laws (stock_c tp)"
    and "key_laws (order_wdc_c tp)"
  using assms by (simp_all add: tpcc_laws_def)

lemma prefix_not_index:
  "P_WAREHOUSE @ x \<noteq> P_ORDER_WDC @ y" "P_DISTRICT @ x \<noteq> P_ORDER_WDC @ y"
  "P_CUSTOMER @ x \<noteq> P_ORDER_WDC @ y" "P_CUSTOMER_WDL @ x \<noteq> P_ORDER_WDC @ y"
  "P_HISTORY @ x \<noteq> P_ORDER_WDC @ y" "P_NEW_ORDER @ x \<noteq> P_ORDER_WDC @ y"
  "P_ORDER @ x \<noteq> P_ORDER_WDC @ y" "P_ORDER_LINE @ x \<noteq> P_ORDER_WDC @ y"
  "P_ITEM @ x \<noteq> P_ORDER_WDC @ y" "P_STOCK @ x \<noteq> P_ORDER_WDC @ y"
  by (simp_all add: prefix_apart prefix_heads)

lemmas runs_insert =
  runs_put[OF tpcc_laws_dest(1) tpcc_laws_dest(2) prefix_not_index(1) tables_put(1)]
  runs_put[OF tpcc_laws_dest(3) tpcc_laws_dest(4) prefix_not_index(2) tables_put(2)]
  runs_put[OF tpcc_laws_dest(5) tpcc_laws_dest(6) prefix_not_index(3) tables_put(3)]
  runs_put[OF tpcc_laws_dest(9) tpcc_laws_dest(10) prefix_not_index(5) tables_put(5)]
  runs_put[OF tpcc_laws_dest(11) tpcc_laws_dest(12) prefix_not_index(6) tables_put(6)]
  runs_put[OF tpcc_laws_dest(13) tpcc_laws_dest(14) prefix_not_index(7) tables_put(7)]
  runs_put[OF tpcc_laws_dest(15) tpcc_laws_dest(16) prefix_not_index(8) tables_put(8)]
  runs_put[OF tpcc_laws_dest(19) tpcc_laws_dest(20) prefix_not_index(10) tables_put(10)]

end
