(* ===== verification/TpccDemo.thy ===== *)
theory TpccDemo
  imports TpccSpec
begin

text \<open>
  A concrete instance of the codec of the order-entry chaincode, with whole numbers for
  \<^verbatim>\<open>double\<close>. It stands for the binary codec in examples and satisfies the laws that
  the statements assume of that one.
\<close>

section \<open>Lists of texts\<close>

text \<open>Every character is preceded by a one, every text ended by a zero.\<close>

primrec pack :: "string list \<Rightarrow> string" where
  "pack [] = []"
| "pack (s # ss) = concat (map (\<lambda>c. [CHR 0x01, c]) s) @ CHR 0x00 # pack ss"

fun unpack :: "string \<Rightarrow> string list" where
  "unpack [] = []"
| "unpack (x # r) =
     (if x = CHR 0x00 then [] # unpack r
      else case r of [] \<Rightarrow> []
        | c # r' \<Rightarrow> (case unpack r' of [] \<Rightarrow> [[c]] | s # ss \<Rightarrow> (c # s) # ss))"

lemma unpack_text:
  "unpack (concat (map (\<lambda>c. [CHR 0x01, c]) s) @ CHR 0x00 # r) = s # unpack r"
  by (induction s) simp_all

lemma unpack_pack [simp]: "unpack (pack ss) = ss"
  by (induction ss) (simp_all add: unpack_text)

lemma pack_inject [simp]: "pack ss = pack ss' \<longleftrightarrow> ss = ss'"
  by (metis unpack_pack)

lemma pack_not_Nil [simp]: "pack (s # ss) \<noteq> []"
  by simp

definition read_int :: "string \<Rightarrow> int" where
  "read_int s = (let (sg, ds) = sign_split s in sg * read_digits 0 ds)"

lemma read_int_to_string [simp]: "read_int (to_string n) = n"
  using to_string_value[of n] by (simp add: read_int_def to_string_split)

section \<open>Fields\<close>

definition put_varchar :: "varchar \<Rightarrow> string list" where
  "put_varchar v = [to_string (int (vc_length v)), vc_data v]"

definition get_varchar :: "string list \<Rightarrow> nat \<Rightarrow> varchar" where
  "get_varchar xs i = \<lparr>vc_length = nat (read_int (xs ! i)), vc_data = xs ! Suc i\<rparr>"

definition get_int :: "string list \<Rightarrow> nat \<Rightarrow> int" where
  "get_int xs i = read_int (xs ! i)"

lemma put_varchar_inject [simp]: "put_varchar v = put_varchar v' \<longleftrightarrow> v = v'"
  by (cases v; cases v') (simp add: put_varchar_def)

section \<open>Tables\<close>

text \<open>A codec from functions that write a key and a row as texts and read a row.\<close>

definition text_codec ::
  "('k \<Rightarrow> string list) \<Rightarrow> ('v \<Rightarrow> string list) \<Rightarrow> (string list \<Rightarrow> 'v) \<Rightarrow> ('k, 'v) codec" where
  "text_codec key put get =
     \<lparr>enc_key = (\<lambda>k. Some (pack (key k))), dec_row = (\<lambda>s. Some (get (unpack s))),
      enc_row = (\<lambda>v. Some (pack (put v)))\<rparr>"

lemma text_codec_key: "inj key \<Longrightarrow> key_laws (text_codec key put get)"
  by (auto simp: key_laws_def text_codec_def inj_def)

lemma text_codec_row:
  assumes "\<And>v. put v \<noteq> []" and "\<And>v. get (put v) = v"
  shows "row_laws (text_codec key put get)"
proof -
  have "pack (put v) \<noteq> []" for v using assms(1)[of v] by (cases "put v") simp_all
  then show ?thesis by (simp add: row_laws_def text_codec_def assms(2))
qed

definition put_warehouse :: "int warehouse_t \<Rightarrow> string list" where
  "put_warehouse v =
     put_varchar (w_name v) @ put_varchar (w_street_1 v) @ put_varchar (w_street_2 v) @
     put_varchar (w_city v) @ put_varchar (w_state v) @ put_varchar (w_zip v) @
     [to_string (w_tax v), to_string (w_ytd v)]"

definition get_warehouse :: "string list \<Rightarrow> int warehouse_t" where
  "get_warehouse xs =
     \<lparr>w_name = get_varchar xs 0, w_street_1 = get_varchar xs 2, w_street_2 = get_varchar xs 4,
      w_city = get_varchar xs 6, w_state = get_varchar xs 8, w_zip = get_varchar xs 10,
      w_tax = get_int xs 12, w_ytd = get_int xs 13\<rparr>"

definition put_district :: "int district_t \<Rightarrow> string list" where
  "put_district v =
     put_varchar (d_name v) @ put_varchar (d_street_1 v) @ put_varchar (d_street_2 v) @
     put_varchar (d_city v) @ put_varchar (d_state v) @ put_varchar (d_zip v) @
     [to_string (d_tax v), to_string (d_ytd v), to_string (d_next_o_id v)]"

definition get_district :: "string list \<Rightarrow> int district_t" where
  "get_district xs =
     \<lparr>d_name = get_varchar xs 0, d_street_1 = get_varchar xs 2, d_street_2 = get_varchar xs 4,
      d_city = get_varchar xs 6, d_state = get_varchar xs 8, d_zip = get_varchar xs 10,
      d_tax = get_int xs 12, d_ytd = get_int xs 13, d_next_o_id = get_int xs 14\<rparr>"

definition put_customer :: "int customer_t \<Rightarrow> string list" where
  "put_customer v =
     put_varchar (c_first v) @ put_varchar (c_middle v) @ put_varchar (c_last v) @
     put_varchar (c_street_1 v) @ put_varchar (c_street_2 v) @ put_varchar (c_city v) @
     put_varchar (c_state v) @ put_varchar (c_zip v) @ put_varchar (c_phone v) @
     put_varchar (c_credit v) @ put_varchar (c_data v) @
     [to_string (int (c_since v)), to_string (c_credit_lim v), to_string (c_discount v),
      to_string (c_balance v), to_string (c_ytd_payment v), to_string (c_payment_cnt v),
      to_string (c_delivery_cnt v)]"

definition get_customer :: "string list \<Rightarrow> int customer_t" where
  "get_customer xs =
     \<lparr>c_first = get_varchar xs 0, c_middle = get_varchar xs 2, c_last = get_varchar xs 4,
      c_street_1 = get_varchar xs 6, c_street_2 = get_varchar xs 8, c_city = get_varchar xs 10,
      c_state = get_varchar xs 12, c_zip = get_varchar xs 14, c_phone = get_varchar xs 16,
      c_since = nat (get_int xs 22), c_credit = get_varchar xs 18, c_credit_lim = get_int xs 23,
      c_discount = get_int xs 24, c_balance = get_int xs 25, c_ytd_payment = get_int xs 26,
      c_payment_cnt = get_int xs 27, c_delivery_cnt = get_int xs 28, c_data = get_varchar xs 20\<rparr>"

definition put_order :: "int order_t \<Rightarrow> string list" where
  "put_order v = [to_string (o_c_id v), to_string (int (o_entry_d v)), to_string (o_carrier_id v),
     to_string (o_ol_cnt v), to_string (o_all_local v)]"

definition get_order :: "string list \<Rightarrow> int order_t" where
  "get_order xs = \<lparr>o_c_id = get_int xs 0, o_entry_d = nat (get_int xs 1), o_carrier_id = get_int xs 2,
     o_ol_cnt = get_int xs 3, o_all_local = get_int xs 4\<rparr>"

definition put_order_line :: "int order_line_t \<Rightarrow> string list" where
  "put_order_line v = [to_string (ol_i_id v), to_string (ol_supply_w_id v),
     to_string (int (ol_delivery_d v)), to_string (ol_quantity v), to_string (ol_amount v)] @
     put_varchar (ol_dist_info v)"

definition get_order_line :: "string list \<Rightarrow> int order_line_t" where
  "get_order_line xs = \<lparr>ol_i_id = get_int xs 0, ol_supply_w_id = get_int xs 1,
     ol_delivery_d = nat (get_int xs 2), ol_quantity = get_int xs 3, ol_amount = get_int xs 4,
     ol_dist_info = get_varchar xs 5\<rparr>"

definition put_item :: "int item_t \<Rightarrow> string list" where
  "put_item v = [to_string (i_im_id v), to_string (i_price v)] @ put_varchar (i_name v) @
     put_varchar (i_data v)"

definition get_item :: "string list \<Rightarrow> int item_t" where
  "get_item xs = \<lparr>i_im_id = get_int xs 0, i_name = get_varchar xs 2, i_price = get_int xs 1,
     i_data = get_varchar xs 4\<rparr>"

definition put_stock :: "int stock_t \<Rightarrow> string list" where
  "put_stock v =
     put_varchar (s_dist_01 v) @ put_varchar (s_dist_02 v) @ put_varchar (s_dist_03 v) @
     put_varchar (s_dist_04 v) @ put_varchar (s_dist_05 v) @ put_varchar (s_dist_06 v) @
     put_varchar (s_dist_07 v) @ put_varchar (s_dist_08 v) @ put_varchar (s_dist_09 v) @
     put_varchar (s_dist_10 v) @ put_varchar (s_data v) @
     [to_string (s_quantity v), to_string (s_ytd v), to_string (s_order_cnt v), to_string (s_remote_cnt v)]"

definition get_stock :: "string list \<Rightarrow> int stock_t" where
  "get_stock xs =
     \<lparr>s_quantity = get_int xs 22, s_dist_01 = get_varchar xs 0, s_dist_02 = get_varchar xs 2,
      s_dist_03 = get_varchar xs 4, s_dist_04 = get_varchar xs 6, s_dist_05 = get_varchar xs 8,
      s_dist_06 = get_varchar xs 10, s_dist_07 = get_varchar xs 12, s_dist_08 = get_varchar xs 14,
      s_dist_09 = get_varchar xs 16, s_dist_10 = get_varchar xs 18, s_ytd = get_int xs 23,
      s_order_cnt = get_int xs 24, s_remote_cnt = get_int xs 25, s_data = get_varchar xs 20\<rparr>"

section \<open>Requests\<close>

definition get_NewOrder :: "int list \<Rightarrow> NewOrder" where
  "get_NewOrder xs =
     (let lines = drop 5 xs; n = length lines div 4 in
      \<lparr>no_warehouseId = xs ! 0, no_districtId = xs ! 1, no_customerId = xs ! 2, orderLineCount = xs ! 3,
       orderLineNumbers = take n lines, supplierWarehouse = take n (drop n lines),
       itemIds = take n (drop (2 * n) lines), quantities = drop (3 * n) lines,
       no_timestamp = nat (xs ! 4)\<rparr>)"

definition get_Payment :: "string list \<Rightarrow> int Payment" where
  "get_Payment xs =
     \<lparr>warehouseId = get_int xs 0, districtId = get_int xs 1, customerWarehouseId = get_int xs 2,
      customerDistrictId = get_int xs 3, homeOrderTotalAmount = get_int xs 4,
      homeOrderTotalDate = nat (get_int xs 5), timestamp = nat (get_int xs 6),
      isPaymentById = (get_int xs 7 = 1), customerLastName = get_varchar xs 8, customerId = get_int xs 10\<rparr>"

section \<open>The instance\<close>

definition key3 :: "int \<times> int \<times> int \<Rightarrow> string list" where
  "key3 k = (case k of (a, b, c) \<Rightarrow> [to_string a, to_string b, to_string c])"

definition key4 :: "int \<times> int \<times> int \<times> int \<Rightarrow> string list" where
  "key4 k = (case k of (a, b, c, d) \<Rightarrow> [to_string a, to_string b, to_string c, to_string d])"

definition demo_tpcc :: "int tpcc" where
  "demo_tpcc =
     \<lparr>in_NewOrder = (\<lambda>s. Some (get_NewOrder (map read_int (unpack s)))),
      in_Payment = (\<lambda>s. Some (get_Payment (unpack s))),
      out_c_data = (\<lambda>c p w d old. Some (to_string c @ vc_data old)),
      warehouse_c = text_codec (\<lambda>k. [to_string k]) put_warehouse get_warehouse,
      district_c = text_codec (\<lambda>(w, d). [to_string w, to_string d]) put_district get_district,
      customer_c = text_codec key3 put_customer get_customer,
      customer_wdl_c = text_codec (\<lambda>(w, d, l). to_string w # to_string d # put_varchar l)
        (\<lambda>v. [to_string (wdl_c_id v)]) (\<lambda>xs. \<lparr>wdl_c_id = get_int xs 0\<rparr>),
      history_c = text_codec (\<lambda>(a, b, c, d, e, f). [to_string a, to_string b, to_string c, to_string d,
          to_string e, to_string (int f)])
        (\<lambda>v. to_string (h_amount v) # put_varchar (h_data v))
        (\<lambda>xs. \<lparr>h_amount = get_int xs 0, h_data = get_varchar xs 1\<rparr>),
      new_order_c = text_codec key3 (\<lambda>v. [to_string (no_dummy v)]) (\<lambda>xs. \<lparr>no_dummy = get_int xs 0\<rparr>),
      order_c = text_codec key3 put_order get_order,
      order_wdc_c = text_codec key4 (\<lambda>_. []) (\<lambda>_. ()),
      order_line_c = text_codec key4 put_order_line get_order_line,
      item_c = text_codec (\<lambda>k. [to_string k]) put_item get_item,
      stock_c = text_codec (\<lambda>(w, i). [to_string w, to_string i]) put_stock get_stock,
      n_int = (\<lambda>n. n), n_add = (+), n_sub = (-), n_mul = (*), n_le = (\<le>)\<rparr>"

lemmas put_defs = put_varchar_def put_warehouse_def put_district_def put_customer_def put_order_def
  put_order_line_def put_item_def put_stock_def
lemmas get_defs = get_varchar_def get_int_def get_warehouse_def get_district_def get_customer_def
  get_order_def get_order_line_def get_item_def get_stock_def

lemma get_put:
  "get_warehouse (put_warehouse v1) = v1" "get_district (put_district v2) = v2"
  "get_customer (put_customer v3) = v3" "get_order (put_order v4) = v4"
  "get_order_line (put_order_line v5) = v5" "get_item (put_item v6) = v6" "get_stock (put_stock v7) = v7"
  by (simp_all add: put_defs get_defs)

lemma put_not_Nil:
  "put_warehouse v1 \<noteq> []" "put_district v2 \<noteq> []" "put_customer v3 \<noteq> []" "put_order v4 \<noteq> []"
  "put_order_line v5 \<noteq> []" "put_item v6 \<noteq> []" "put_stock v7 \<noteq> []"
  by (simp_all add: put_defs)

lemma tpcc_laws_demo: "tpcc_laws demo_tpcc"
  unfolding tpcc_laws_def demo_tpcc_def
  by (simp add: text_codec_key text_codec_row get_put put_not_Nil inj_def key3_def key4_def put_varchar_def get_varchar_def get_int_def)
    (simp add: text_codec_def)

end
