(* ===== verification/Registry.thy ===== *)
theory Registry
  imports Chaincodes SmallBank TpccDemo AriaSerializable
begin

text \<open>
  The registry of chaincodes, \<^verbatim>\<open>src/peer/chaincode/chaincode.cpp\<close>, and a concrete
  instance of the serialization library and of requests on which statements about whole
  batches are evaluated.
\<close>

section \<open>Chaincodes by name\<close>

text \<open>
  The serialization library is an argument, and so is the uninitialised memory that the
  order-entry chaincode stores in a history row.
\<close>

definition NewChaincodeByName :: "zpp \<Rightarrow> 'd sb \<Rightarrow> 'e tpcc \<Rightarrow> string \<Rightarrow> registry" where
  "NewChaincodeByName z b tp memory name =
     (if name = ''ycsb'' then Some (YCSBRowLevel_InvokeChaincode z)
      else if name = ''tpcc'' then Some (TPCC_InvokeChaincode tp memory)
      else if name = ''sb'' then Some (SmallBank_InvokeChaincode b)
      else if name = VOTING_CHAINCODE_NAME then Some (SimpleVote_InvokeChaincode z)
      else if name = ''transfer'' then Some (SimpleTransfer_InvokeChaincode z)
      else if name = ''session_store'' then Some (SimpleSessionStore_InvokeChaincode z)
      else if name = ''hash_chaincode'' then Some (HashChaincode_InvokeChaincode z)
      else None)"

lemma careful_registered: "careful_registry (NewChaincodeByName z b tp memory)"
  by (auto simp: careful_registry_def NewChaincodeByName_def careful_tpcc careful_ycsb careful_smallbank
      careful_vote careful_transfer careful_session careful_hash split: if_splits)

section \<open>An instance\<close>

text \<open>Words of a text, separated by a character.\<close>

fun words :: "char \<Rightarrow> string \<Rightarrow> string list" where
  "words c [] = [[]]"
| "words c (x # xs) =
     (if x = c then [] # words c xs
      else (case words c xs of [] \<Rightarrow> [[x]] | w # ws \<Rightarrow> (x # w) # ws))"

text \<open>
  A codec that writes integers as decimals and lists with commas. It stands for the
  binary codec in examples and satisfies the laws the statements assume of that one.
\<close>

definition demo_zpp :: zpp where
  "demo_zpp =
     \<lparr>in_args = (\<lambda>s. Some (words (CHR '','') s)),
      in_sv = Some,
      in_sv_sv = (\<lambda>s. case words (CHR '','') s of [a, b] \<Rightarrow> Some (a, b) | _ \<Rightarrow> None),
      in_sv_int = (\<lambda>s. case words (CHR '','') s of
         [a, b] \<Rightarrow> map_option (Pair a) (stoi b) | _ \<Rightarrow> None),
      in_int = stoi,
      out_int = (\<lambda>buf n. Some (to_string n)),
      in_row = (\<lambda>s. case words (CHR '','') s of [t, k, f, v] \<Rightarrow> Some (t, k, [(f, v)]) | _ \<Rightarrow> None),
      in_fields = (\<lambda>s. case words (CHR '','') s of [t, k] \<Rightarrow> Some (t, k, []) | _ \<Rightarrow> None),
      in_modify = (\<lambda>s. case words (CHR '','') s of
         [t, k, f, v] \<Rightarrow> Some (t, k, [], [(f, v)]) | _ \<Rightarrow> None),
      in_map = (\<lambda>s. case words (CHR ''='') s of [f, v] \<Rightarrow> Some [f \<mapsto> v] | _ \<Rightarrow> None),
      out_map = (\<lambda>m. case m ''f'' of None \<Rightarrow> None | Some v \<Rightarrow> Some (''f='' @ v)),
      after_func = [], after_args = []\<rparr>"

text \<open>A payload names the chaincode, the function and the arguments.\<close>

definition demo_decode :: "string \<Rightarrow> UserRequest option" where
  "demo_decode s =
     (case words (CHR ''|'') s of
        [cc, f, a] \<Rightarrow> Some \<lparr>ccName = cc, funcName = f, req_args = a, nonce = 0\<rparr>
      | _ \<Rightarrow> None)"

definition demo_request :: "8 word \<Rightarrow> string \<Rightarrow> Envelop" where
  "demo_request n s = \<lparr>payload = s, signature = \<lparr>ski = [], digest = tid_byte n\<rparr>\<rparr>"

definition demo_sb :: "int sb" where
  "demo_sb =
     \<lparr>in_acct = stoi,
      in_acct_amount = (\<lambda>s. case words (CHR '','') s of
         [a, b] \<Rightarrow> Option.bind (stoi a) (\<lambda>i. map_option (Pair i) (stoi b)) | _ \<Rightarrow> None),
      in_acct_acct = (\<lambda>s. case words (CHR '','') s of
         [a, b] \<Rightarrow> Option.bind (stoi a) (\<lambda>i. map_option (Pair i) (stoi b)) | _ \<Rightarrow> None),
      out_key = (\<lambda>p i. Some (p @ to_string i)),
      in_name = Some, out_name = Some,
      in_double = (\<lambda>s. let (sg, ds) = sign_split s in Some (sg * read_digits 0 ds)),
      out_double = (\<lambda>d. Some (to_string d)),
      out_acct_double = (\<lambda>i d. Some (to_string i @ '','' @ to_string d)),
      d_add = (+), d_sub = (-), d_less = (<), d_zero = 0, d_one = 1\<rparr>"

text \<open>The registry with these codecs; the memory of a new history row is cleared.\<close>

definition demo_memory :: string where
  "demo_memory = replicate 24 (CHR 0x00)"

definition demo_ccs :: registry where
  "demo_ccs = NewChaincodeByName demo_zpp demo_sb demo_tpcc demo_memory"

lemma careful_demo: "careful_registry demo_ccs"
  unfolding demo_ccs_def by (rule careful_registered)

lemma sb_laws_demo: "sb_laws demo_sb"
  by (auto simp: sb_laws_def demo_sb_def ACCOUNTS_def SAVINGS_def CHECKING_def to_string_split
      to_string_value)

end
