(* ===== verification/EngineProperties.thy ===== *)
theory EngineProperties
  imports Mix AriaConcurrent WriteBased Registry
begin

text \<open>
  The properties of the concurrency-control engines, each with an instance on a
  concrete batch: requests that name chaincodes of the repository, the codec of
  \<open>Registry\<close> and a small database.
\<close>

section \<open>Example batches\<close>

definition demo_db :: DB where
  "demo_db = [''x'' \<mapsto> ''0'', ''y'' \<mapsto> ''5'', ''k'' \<mapsto> ''0'']"

text \<open>
  The second request reads the key that the first one writes; the third writes another.
\<close>

definition reading_batch :: "Envelop list" where
  "reading_batch =
     [demo_request 1 ''session_store||x,1'',
      demo_request 2 ''hash_chaincode|Get|x'',
      demo_request 3 ''session_store||y,7'']"

text \<open>
  The transfer reads and writes \<open>x\<close>, which the first request writes, and \<open>k\<close>, which the
  last request writes.
\<close>

definition overtaken_batch :: "Envelop list" where
  "overtaken_batch =
     [demo_request 1 ''session_store||x,1'',
      demo_request 2 ''transfer||x,k'',
      demo_request 3 ''session_store||k,7'']"

lemma demo_digests [simp]:
  "distinct (map (\<lambda>q. digest (signature q)) reading_batch)"
  "distinct (map (\<lambda>q. digest (signature q)) overtaken_batch)"
  by (simp_all add: reading_batch_def overtaken_batch_def demo_request_def)

section \<open>The deterministic engine\<close>

text \<open>
  C2: serializability. For the chaincodes of the registry, whatever the codec, the requests that the deterministic engine
  reports as committed can be put into an order in which the serial coordinator commits
  all of them, with the same read-write sets, and ends in the same database. The number
  of workers is arbitrary.
\<close>

theorem aria_serializable:
  assumes "0 < workers" and "distinct (map (\<lambda>q. digest (signature q)) requests)"
    and "CoordinatorImpl_processValidatedRequests decode (NewChaincodeByName z b tp memory) workers requests db
       = Some r"
  shows "\<exists>order. explains decode (NewChaincodeByName z b tp memory) requests db r order"
  using aria_spec_explained[OF _ assms(2) careful_registered] assms(3)
  by (simp add: coordinator_refines_spec[OF assms(1,2)])

lemma reading_batch_run:
  "map_option br_results (CoordinatorImpl_processValidatedRequests demo_decode
      demo_ccs 2 reading_batch demo_db)
     = Some [True, True, True]"
  by code_simp

theorem aria_serializable_witness:
  "\<exists>r order. CoordinatorImpl_processValidatedRequests demo_decode
       demo_ccs 2 reading_batch demo_db = Some r \<and>
     br_results r = [True, True, True] \<and>
     explains demo_decode demo_ccs reading_batch demo_db r order"
proof -
  obtain r where "CoordinatorImpl_processValidatedRequests demo_decode
      demo_ccs 2 reading_batch demo_db = Some r"
    "br_results r = [True, True, True]"
    using reading_batch_run by auto
  with aria_serializable[of 2 reading_batch demo_decode demo_zpp demo_sb demo_tpcc demo_memory demo_db r]
  show ?thesis unfolding demo_ccs_def by auto
qed

text \<open>
  C5: the result of the deterministic engine does not depend on the number of workers.
  It is the result of one pass over the requests that executes all of them on the
  initial database, then compares every transaction with the whole batch.
\<close>

theorem aria_worker_independent:
  assumes "0 < workers" and "distinct (map (\<lambda>q. digest (signature q)) requests)"
  shows "CoordinatorImpl_processValidatedRequests decode ccs workers requests db
     = aria_spec decode ccs requests db"
  using assms by (rule coordinator_refines_spec)

theorem aria_worker_independent_witness:
  "CoordinatorImpl_processValidatedRequests demo_decode demo_ccs 3 overtaken_batch demo_db
     = aria_spec demo_decode demo_ccs overtaken_batch demo_db"
  by (rule aria_worker_independent) simp_all

text \<open>
  C22: the execution phase under concurrency. Whatever the order in which the workers'
  reservations of single keys are executed, the reserve table ends as in the run of the
  workers one after the other.
\<close>

theorem exec_phase_any_schedule:
  assumes "\<forall>p \<in> set parts. \<forall>t \<in> set p. pending t"
    and "exec_phase ccs db parts rt0 = Some (parts', rt)"
    and "par_run table_act (rt0, map exec_ops parts') (rt', ws)" and "all_done ws"
  shows "rt' = rt"
proof -
  have "rt = table_of (concat parts') rt0"
    using assms(1,2) by (auto simp: exec_phase_split split: option.splits)
  with exec_interleaved[OF assms(3,4)] show ?thesis by simp
qed

definition demo_txn :: "8 word \<Rightarrow> string \<Rightarrow> Transaction" where
  "demo_txn n s = the (NewTransactionFromEnvelop demo_decode (demo_request n s))"

definition demo_parts :: "Transaction list list" where
  "demo_parts = [[demo_txn 1 ''session_store||x,1''], [demo_txn 2 ''transfer||x,k'']]"

lemma demo_parts_pending: "\<forall>p \<in> set demo_parts. \<forall>t \<in> set p. pending t"
  by (simp add: demo_parts_def demo_txn_def pending_def hasResult_def NewTransactionFromEnvelop_def
      demo_decode_def demo_request_def new_TxReadWriteSet_def)

theorem exec_phase_any_schedule_witness:
  "\<exists>parts' rt ws. exec_phase demo_ccs demo_db demo_parts ReserveTable_reset = Some (parts', rt) \<and>
     par_run table_act (ReserveTable_reset, map exec_ops parts') (rt, ws) \<and> all_done ws"
proof -
  have "exec_phase demo_ccs demo_db demo_parts ReserveTable_reset \<noteq> None"
    by code_simp
  then obtain parts' rt where run: "exec_phase demo_ccs demo_db demo_parts ReserveTable_reset = Some (parts', rt)"
    by auto
  obtain rt' ws where par: "par_run table_act (ReserveTable_reset, map exec_ops parts') (rt', ws)" "all_done ws"
    using par_run_exists by metis
  with exec_phase_any_schedule[OF demo_parts_pending run par] run show ?thesis by blast
qed







section \<open>The mixed engine\<close>

text \<open>
  C27: the deterministic engine that works on transactions in place (\<^verbatim>\<open>my_cc/deterministic\<close>)
  returns what the one of \<^verbatim>\<open>concurrency_control/deterministic\<close> returns: the two reserve
  tables and the two commit rules agree.
\<close>

theorem deterministic_engines_agree:
  assumes "0 < workers"
  shows "DeterministicCoordinator_processValidatedRequests decode ccs workers requests db
     = CoordinatorImpl_processValidatedRequests decode ccs workers requests db"
  using assms by (rule det_requests_eq)

theorem deterministic_engines_agree_witness:
  "DeterministicCoordinator_processValidatedRequests demo_decode demo_ccs 2 overtaken_batch demo_db
     = CoordinatorImpl_processValidatedRequests demo_decode demo_ccs 2 overtaken_batch demo_db"
  by (rule deterministic_engines_agree) simp

text \<open>
  C7: the mixed engine. When it returns, every request has kept its position; the votes
  were decided on the initial database by the conflict-free engine, and the other
  requests got what the deterministic engine decides for them alone on the database that
  the votes leave.
\<close>

theorem mix_correct:
  assumes "int_codec z" and "0 < workers" and "distinct (map (\<lambda>q. digest (signature q)) requests)"
    and "MixCoordinator_processValidatedRequests True decode z ccs workers requests db = Some r"
  shows "\<exists>crdts rd. mix_explained decode z ccs requests db crdts rd r"
  using assms by (rule mix_outcome)

lemma int_codec_demo: "int_codec demo_zpp"
proof -
  have "stoi [] = None" by code_simp
  then show ?thesis by (auto simp: int_codec_def demo_zpp_def)
qed

definition mixed_batch :: "Envelop list" where
  "mixed_batch =
     [demo_request 1 ''vote|vote|x,2'',
      demo_request 2 ''session_store||y,7'',
      demo_request 3 ''vote|vote|z,1'']"

lemma mixed_digests [simp]: "distinct (map (\<lambda>q. digest (signature q)) mixed_batch)"
  by (simp add: mixed_batch_def demo_request_def)

lemma mixed_batch_run:
  "map_option (\<lambda>r. (br_results r, br_db r ''x'', br_db r ''y''))
     (MixCoordinator_processValidatedRequests True demo_decode demo_zpp demo_ccs 2 mixed_batch demo_db)
   = Some ([True, True, False], Some ''2'', Some ''7'')"
  by code_simp

theorem mix_correct_witness:
  "\<exists>r crdts rd. MixCoordinator_processValidatedRequests True demo_decode demo_zpp demo_ccs 2 mixed_batch demo_db
       = Some r \<and> br_results r = [True, True, False] \<and>
     mix_explained demo_decode demo_zpp demo_ccs mixed_batch demo_db crdts rd r"
proof -
  obtain r where "MixCoordinator_processValidatedRequests True demo_decode demo_zpp demo_ccs 2 mixed_batch demo_db
      = Some r" "br_results r = [True, True, False]"
    using mixed_batch_run by auto
  with mix_correct[of demo_zpp 2 mixed_batch demo_decode demo_ccs demo_db r, OF int_codec_demo] show ?thesis
    by auto
qed

section \<open>Conflict-free chaincodes\<close>

text \<open>
  C24: votes may run in any order. Whatever the interleaving of the workers, the database
  ends as in the run of the transactions in the order of the batch, and each transaction
  commits exactly if it commits on the initial database.
\<close>

theorem crdt_any_schedule:
  assumes "int_codec z" and "0 < workers"
    and "par_run (crdt_act z) ((db, f), map (\<lambda>w. deal workers w (enumerate 0 ts)) [0..<workers]) (s', ws)"
    and "all_done ws"
  shows "fst s' = fold (crdt_db z) ts db \<and> (\<forall>i. i < length ts \<longrightarrow> snd s' i = crdt_ok z (ts ! i) db)"
  using crdt_interleaved[OF assms] by simp

definition demo_votes :: "Transaction list" where
  "demo_votes = [demo_txn 1 ''vote|vote|x,2'', demo_txn 2 ''vote|vote|x,3'', demo_txn 3 ''vote|vote|z,1'']"

lemma demo_votes_run:
  "fold (crdt_db demo_zpp) demo_votes demo_db ''x'' = Some ''5''"
  "map (\<lambda>t. crdt_ok demo_zpp t demo_db) demo_votes = [True, True, False]"
  by code_simp+

theorem crdt_any_schedule_witness:
  "\<exists>s' ws. par_run (crdt_act demo_zpp) ((demo_db, \<lambda>_. False),
        map (\<lambda>w. deal 2 w (enumerate 0 demo_votes)) [0..<2]) (s', ws) \<and> all_done ws \<and>
     fst s' ''x'' = Some ''5'' \<and> \<not> snd s' 2"
proof -
  obtain s' ws where par: "par_run (crdt_act demo_zpp) ((demo_db, \<lambda>_. False),
      map (\<lambda>w. deal 2 w (enumerate 0 demo_votes)) [0..<2]) (s', ws)" "all_done ws"
    using par_run_exists by (metis surj_pair)
  have "fst s' ''x'' = Some ''5'' \<and> \<not> snd s' 2"
    using crdt_any_schedule[OF int_codec_demo _ par] demo_votes_run by (simp add: demo_votes_def)
  with par show ?thesis by blast
qed

text \<open>
  C15: no vote is lost. After the conflict-free engine has run a batch, the counter of a
  candidate is the old counter plus the votes of the batch for that candidate, in 32-bit
  arithmetic, for every number of workers.
\<close>

theorem no_vote_lost:
  assumes "int_codec z" and "0 < workers" and "\<forall>t \<in> set ts. isCrdtChainCode (ccName (userRequest t))"
    and "in_int z (stored db k) = Some n" and "is_i32 n"
  shows "\<exists>ts' db'. CrdtCoordinator_processTransactions z workers ts db = Some (True, ts', db') \<and>
     in_int z (stored db' k) = Some (i32 (n + votes_for z k ts))"
  proof -
  have "in_int z (stored (fold (crdt_db z) ts db) k) = Some (i32 (n + votes_for z k ts))"
    by (rule tally) (rule assms)+
  with crdt_coordinator_run[OF assms(1-3), of db] show ?thesis by blast
qed

theorem no_vote_lost_witness:
  "\<exists>ts' db'. CrdtCoordinator_processTransactions demo_zpp 2 demo_votes demo_db = Some (True, ts', db') \<and>
     in_int demo_zpp (stored db' ''x'') = Some 5"
proof -
  have crdts: "\<forall>t \<in> set demo_votes. isCrdtChainCode (ccName (userRequest t))" by code_simp
  have old: "in_int demo_zpp (stored demo_db ''x'') = Some 0" "is_i32 0" by code_simp+
  have "i32 (0 + votes_for demo_zpp ''x'' demo_votes) = 5" by code_simp
  with no_vote_lost[of demo_zpp 2 demo_votes demo_db "''x''" 0, OF int_codec_demo zero_less_numeral crdts old]
  show ?thesis by (simp only:)
qed

section \<open>The write-based engine\<close>

text \<open>
  C28: the two commit passes of the write-based engine, with the workers' flags for the
  first pass set as they are at the start, return the result of its one-pass
  specification for every number of workers, and leave the flags set for the next batch.
\<close>

theorem write_based_refines:
  assumes "0 < workers" and "distinct (map (\<lambda>r. digest (signature r)) requests)"
  shows "WBCoordinator_processValidatedRequests decode ccs (replicate workers True) requests db
     = map_option (Pair (replicate workers True)) (wb_spec decode ccs requests db)"
  using assms by (rule wb_refines_spec)

theorem write_based_refines_witness:
  "WBCoordinator_processValidatedRequests demo_decode demo_ccs (replicate 2 True) overtaken_batch demo_db
     = map_option (Pair (replicate 2 True)) (wb_spec demo_decode demo_ccs overtaken_batch demo_db)"
  by (rule write_based_refines) simp_all

text \<open>
  the value of a key after the write-based engine is decided by the transaction with
  the smallest identifier that wrote it: its write, if that transaction commits, and the
  old value otherwise.
\<close>

theorem write_based_final_value:
  assumes "distinct (map tid ts)" and "t \<in> set ts" and "rs_table ts k = Some (tid t)"
  shows "fold apply_writes (map (effective (rs_table ts)) ts) db k =
     (if hasResult (wb_decide (rs_table ts) t) COMMIT then apply_writes (getWrites t) db k else db k)"
  using assms by (rule wb_final_value)

definition demo_executed :: "Transaction list" where
  "demo_executed = the (map_opt (wb_exec_result demo_ccs demo_db)
     [demo_txn 1 ''session_store||x,1'', demo_txn 2 ''session_store||x,2''])"

theorem write_based_final_value_witness:
  "fold apply_writes (map (effective (rs_table demo_executed)) demo_executed) demo_db ''x'' = Some ''1''"
proof -
  have ids: "distinct (map tid demo_executed)" by code_simp
  have mem: "hd demo_executed \<in> set demo_executed" by code_simp
  have own: "rs_table demo_executed ''x'' = Some (tid (hd demo_executed))" by code_simp
  have "hasResult (wb_decide (rs_table demo_executed) (hd demo_executed)) COMMIT" by code_simp
  moreover have "apply_writes (getWrites (hd demo_executed)) demo_db ''x'' = Some ''1''" by code_simp
  ultimately show ?thesis
    by (simp only: write_based_final_value[OF ids mem own] if_True)
qed


end
