(* ===== verification/ChaincodeProperties.thy ===== *)
theory ChaincodeProperties
  imports Registry
begin

text \<open>
  The properties of the chaincodes: the bank that the banking chaincode implements, the
  transfer chaincode and the row-level key-value benchmark.
\<close>

section \<open>The banking chaincode\<close>







definition demo_bank :: DB where
  "demo_bank = [''a_1'' \<mapsto> ''ann'', ''s_1'' \<mapsto> ''5'', ''c_1'' \<mapsto> ''7'',
                ''a_2'' \<mapsto> ''bob'', ''s_2'' \<mapsto> ''1'', ''c_2'' \<mapsto> ''2'']"

lemma demo_key:
  "''a_'' @ s = ''a_1'' \<longleftrightarrow> s = ''1''" "''a_'' @ s = ''a_2'' \<longleftrightarrow> s = ''2''" for s
  by auto

lemma to_string_demo: "to_string 1 = ''1''" "to_string 2 = ''2''"
  by code_simp+

lemma demo_named: "row demo_sb (in_name demo_sb) ACCOUNTS demo_bank i \<noteq> None \<longleftrightarrow> i = 1 \<or> i = 2"
proof -
  have "row demo_sb (in_name demo_sb) ACCOUNTS demo_bank i \<noteq> None \<longleftrightarrow>
      to_string i = to_string 1 \<or> to_string i = to_string 2"
    unfolding to_string_demo
    by (auto simp: row_def demo_sb_def ACCOUNTS_def demo_bank_def visible_def)
  then show ?thesis by simp
qed

lemma demo_bank_wf: "bank_wf demo_sb demo_bank"
proof -
  have "row demo_sb (in_double demo_sb) SAVINGS demo_bank 1 = Some 5"
    "row demo_sb (in_double demo_sb) CHECKING demo_bank 1 = Some 7"
    "row demo_sb (in_double demo_sb) SAVINGS demo_bank 2 = Some 1"
    "row demo_sb (in_double demo_sb) CHECKING demo_bank 2 = Some 2"
    by code_simp+
  then show ?thesis unfolding bank_wf_def demo_named by auto
qed


text \<open>
  amalgamating an account with itself is accepted and creates money: the new checking
  balance is the savings plus twice the old checking balance.
\<close>

theorem amalgamate_same_account:
  assumes "sb_laws b" and "bank_wf b db" and "in_acct_acct b arg = Some (i, i)"
    and "bank_of b db i = Some (s, c)"
  shows "fst (outcome (amalgamate b arg) db) = Some 0 \<and>
     bank_of b (snd (outcome (amalgamate b arg) db)) i = Some (d_zero b, d_add b c (d_add b s c))"
  using amalgamate_self[OF assms] by simp

theorem amalgamate_same_account_witness:
  "bank_of demo_sb (snd (outcome (amalgamate demo_sb ''1,1'') demo_bank)) 1 = Some (0, 19)"
proof -
  have "in_acct_acct demo_sb ''1,1'' = Some (1, 1)" and "bank_of demo_sb demo_bank 1 = Some (5, 7)"
    by code_simp+
  note amalgamate_same_account[OF sb_laws_demo demo_bank_wf this]
  moreover have "d_zero demo_sb = 0" "d_add demo_sb 7 (d_add demo_sb 5 7) = 19" by code_simp+
  ultimately show ?thesis by simp
qed

section \<open>Transfer\<close>

abbreviation account :: "DB \<Rightarrow> string \<Rightarrow> int" where
  "account db k \<equiv> atoi (the (visible db k))"

text \<open>
  a transfer between two stored accounts moves 100 units: the sum of the two
  balances is kept as long as neither leaves the range of the machine integers, and no
  other key changes.
\<close>

theorem transfer_conserves:
  assumes "in_args z arg = Some [a, b]" and "a \<noteq> b"
    and "visible db a = Some va" and "visible db b = Some vb"
    and "is_i32 (atoi va - 100)" and "is_i32 (atoi vb + 100)"
  shows "\<exists>db'. outcome (SimpleTransfer_InvokeChaincode z func arg) db = (Some 0, db') \<and>
     account db' a = account db a - 100 \<and> account db' a + account db' b = account db a + account db b \<and>
     (\<forall>k. k \<notin> {a, b} \<longrightarrow> db' k = db k)"
  using assms transfer_run[OF assms(1-4), of func] by simp

theorem transfer_conserves_witness:
  "\<exists>db'. outcome (SimpleTransfer_InvokeChaincode demo_zpp [] ''p,q'') [''p'' \<mapsto> ''250'', ''q'' \<mapsto> ''-3''] = (Some 0, db') \<and>
     account db' ''p'' = 150"
proof -
  let ?db = "[''p'' \<mapsto> ''250'', ''q'' \<mapsto> ''-3'']"
  have "in_args demo_zpp ''p,q'' = Some [''p'', ''q'']" "visible ?db ''p'' = Some ''250''"
    "visible ?db ''q'' = Some ''-3''" and v: "atoi ''250'' = 250" "atoi ''-3'' = -3"
    by code_simp+
  with transfer_conserves[of demo_zpp "''p,q''" "''p''" "''q''" ?db "''250''" "''-3''" "[]"] show ?thesis
    by (auto simp: is_i32_def simp del: fun_upd_apply)
qed

section \<open>Session store\<close>

text \<open>
  whether the session store reads or writes depends on the bytes that follow the
  request in memory. The number is parsed from a view that is not terminated, so the same
  request is a write or a read according to what comes next.
\<close>

theorem session_store_reads_past_view:
  "outcome (SimpleSessionStore_InvokeChaincode (demo_zpp\<lparr>after_args := [CHR 0x00]\<rparr>) [] ''s,7'') [''s'' \<mapsto> ''0'']
     = (Some 0, [''s'' \<mapsto> ''7''])
   \<and> outcome (SimpleSessionStore_InvokeChaincode (demo_zpp\<lparr>after_args := ''2''\<rparr>) [] ''s,7'') [''s'' \<mapsto> ''0'']
     = (Some 0, [''s'' \<mapsto> ''0''])"
proof -
  have "atoi (''7'' @ [CHR 0x00]) = 7" "atoi (''7'' @ ''2'') = 72" "words (CHR '','') ''s,7'' = [''s'', ''7'']"
    by code_simp+
  then show ?thesis
    by (simp add: SimpleSessionStore_InvokeChaincode_def demo_zpp_def SimpleSessionStore_Get_def
        SimpleSessionStore_Set_def outcome_writes apply_writes_puts syncPut_def visible_def)
qed

section \<open>Row-level benchmark\<close>

text \<open>The row stored under a key.\<close>

definition stored_row :: "zpp \<Rightarrow> DB \<Rightarrow> string \<Rightarrow> (string \<rightharpoonup> string) option" where
  "stored_row z db key = (case visible db key of None \<Rightarrow> None | Some raw \<Rightarrow> in_map z raw)"

text \<open>
  an update overwrites exactly the fields it names, the last value given for a field
  winning, and keeps the other fields and the other rows. The hypothesis on the codec is that the new row can be encoded and read back.
\<close>

theorem ycsb_update_merges:
  assumes "in_row z arg = Some (tbl, key, fvs)" and "stored_row z db key = Some old"
    and "out_map z (old ++ map_of (rev fvs)) = Some new" and "new \<noteq> []"
    and "in_map z new = Some (old ++ map_of (rev fvs))"
  shows "\<exists>db'. outcome (YCSBRowLevel_InvokeChaincode z (CHR ''u'' # func) arg) db = (Some 0, db') \<and>
     stored_row z db' key = Some (old ++ map_of (rev fvs)) \<and> (\<forall>k. k \<noteq> key \<longrightarrow> db' k = db k)"
proof -
  obtain raw where raw: "visible db key = Some raw" "in_map z raw = Some old"
    using assms(2) by (auto simp: stored_row_def split: option.splits)
  have merge: "merge_fields old fvs = old ++ map_of (rev fvs)"
    by (auto simp: fun_eq_iff merge_fields_lookup map_add_def)
  have "outcome (YCSBRowLevel_updateValue z key fvs) db = (Some 0, db(key \<mapsto> new))"
    using assms(3,4) by (intro ycsb_update_run[OF raw]) (simp_all add: merge)
  with assms(1,4,5) show ?thesis
    by (simp add: YCSBRowLevel_InvokeChaincode_def YCSBRowLevel_update_def stored_row_def)
qed

theorem ycsb_update_merges_witness:
  "\<exists>db'. outcome (YCSBRowLevel_InvokeChaincode demo_zpp ''u'' ''t,k,f,new'') [''k'' \<mapsto> ''f=old''] = (Some 0, db') \<and>
     stored_row demo_zpp db' ''k'' = Some [''f'' \<mapsto> ''new'']"
proof -
  let ?db = "[''k'' \<mapsto> ''f=old'']"
  have arg: "in_row demo_zpp ''t,k,f,new'' = Some (''t'', ''k'', [(''f'', ''new'')])" by code_simp
  have w: "words (CHR ''='') ''f=old'' = [''f'', ''old'']" "words (CHR ''='') ''f=new'' = [''f'', ''new'']"
    by code_simp+
  have merged: "[''f'' \<mapsto> ''old''] ++ map_of (rev [(''f'', ''new'')]) = [''f'' \<mapsto> ''new'']" by simp
  have "stored_row demo_zpp ?db ''k'' = Some [''f'' \<mapsto> ''old'']" "out_map demo_zpp [''f'' \<mapsto> ''new''] = Some ''f=new''"
    "in_map demo_zpp ''f=new'' = Some [''f'' \<mapsto> ''new'']"
    using w by (simp_all add: demo_zpp_def stored_row_def visible_def)
  with ycsb_update_merges[OF arg, of ?db "[''f'' \<mapsto> ''old'']" "''f=new''" "[]"] show ?thesis
    unfolding merged by blast
qed

end
