(* ===== verification/TpccRefine.thy ===== *)
theory TpccRefine
  imports TpccSpec
begin

text \<open>
  The two transactions of the order-entry chaincode implement the transactions on
  tables.
\<close>

section \<open>Refinement\<close>

lemma bind_need: "bind_txn (need x f) g = need x (\<lambda>a. bind_txn (f a) g)"
  by (simp add: need_def split: option.split)

text \<open>The end of a line: the district's information and the row of the line.\<close>

lemma line_end_runs:
  assumes "tpcc_laws tp" and "sim tp db ws t"
    and "\<And>ws t. sim tp db ws t \<Longrightarrow> runs_to tp db (run_writes k db ws) (spec t)"
  shows "runs_to tp db
     (run_writes (case x of None \<Rightarrow> Throw
        | Some dist \<Rightarrow> TPCC_insertIntoTable (order_line_c tp) P_ORDER_LINE key (row dist) k) db ws)
     (bind_txn (case x of None \<Rightarrow> Crash
        | Some dist \<Rightarrow> Commit (t\<lparr>order_lines := (order_lines t)(key \<mapsto> row dist)\<rparr>)) spec)"
proof (cases x)
  case None
  then show ?thesis by (simp add: runs_to_def)
next
  case (Some dist)
  show ?thesis
    unfolding Some option.case bind_txn.simps
    by (rule runs_insert(7)[OF assms(1) assms(1) assms(1) assms(2)]) (rule assms(3))
qed

lemma new_order_line_runs:
  assumes "tpcc_laws tp" and "sim tp db ws t"
    and "\<And>ws t. sim tp db ws t \<Longrightarrow> runs_to tp db (run_writes k db ws) (spec t)"
  shows "runs_to tp db (run_writes (new_order_line tp no wt dt disc i k) db ws)
     (bind_txn (line_spec tp no wt dt disc (tables_of tp db) i t) spec)"
proof (cases "min (min (length (itemIds no)) (length (quantities no)))
    (min (length (supplierWarehouse no)) (length (orderLineNumbers no))) \<le> i")
  case True
  then show ?thesis by (auto simp: new_order_line_def line_spec_def runs_to_def min_le_iff_disj)
next
  case False
  then have bounds: "\<not> (length (itemIds no) \<le> i \<or> length (quantities no) \<le> i \<or>
      length (supplierWarehouse no) \<le> i \<or> length (orderLineNumbers no) \<le> i)"
    by (simp add: min_le_iff_disj)
  let ?w = "no_warehouseId no" and ?supply = "supplierWarehouse no ! i" and ?item = "itemIds no ! i"
    and ?d = "no_districtId no"
  show ?thesis
    unfolding new_order_line_def line_spec_def if_not_P[OF bounds] if_not_P[OF False] Let_def bind_need
  proof (intro runs_getValue, rule runs_insert(8)[OF assms(1) assms(1) assms(1) assms(2)], goal_cases)
    case (1 iv sv ws')
    let ?stock = "stock_update tp (quantities no ! i) (?supply \<noteq> ?w) sv"
    have line_end: "runs_to tp db (run_writes (case s_dist ?d home of None \<Rightarrow> Throw
        | Some dist \<Rightarrow> TPCC_insertIntoTable (order_line_c tp) P_ORDER_LINE
            (?w, ?d, ?d, orderLineNumbers no ! i) (row dist) k) db ws')
      (bind_txn (case s_dist ?d home of None \<Rightarrow> Crash
        | Some dist \<Rightarrow> Commit (t\<lparr>stocks := (stocks t)((?supply, ?item) \<mapsto> ?stock),
            order_lines := (order_lines t)((?w, ?d, ?d, orderLineNumbers no ! i) \<mapsto> row dist)\<rparr>)) spec)"
      for home row
      using line_end_runs[where spec = spec and k = k and row = row and x = "s_dist ?d home" and
            key = "(?w, ?d, ?d, orderLineNumbers no ! i)", OF assms(1) 1(3) assms(3)]
      by (simp cong: option.case_cong del: fun_upd_apply)
    show ?case
    proof (cases "?supply = ?w")
      case True
      show ?thesis
        unfolding need_def using True line_end[of _ ?stock] by (simp del: fun_upd_apply)
    next
      case False
      show ?thesis
        unfolding if_P[OF False] by (rule runs_getValue(6)) (rule line_end)
    qed
  qed
qed

lemma new_order_lines_run:
  assumes "tpcc_laws tp" and "sim tp db ws t"
  shows "runs_to tp db (run_writes (foldr (new_order_line tp no wt dt disc) is (Return 0)) db ws)
     (lines_spec tp no wt dt disc (tables_of tp db) is t)"
  using assms(2)
proof (induction "is" arbitrary: ws t)
  case Nil
  then show ?case by (simp add: runs_to_def)
next
  case (Cons i "is")
  from new_order_line_runs[OF assms(1) Cons.prems Cons.IH] show ?case by simp
qed

lemma executeNewOrder_runs:
  assumes "tpcc_laws tp"
  shows "runs_to tp db (run_writes (executeNewOrder tp arg) db [])
     (need (in_NewOrder tp arg) (\<lambda>no. new_order_spec tp no (tables_of tp db)))"
proof (cases "in_NewOrder tp arg")
  case None
  then show ?thesis by (simp add: executeNewOrder_def need_def runs_to_def)
next
  case (Some no)
  note rules = runs_insert[OF assms assms assms] runs_put_index[OF assms]
  have local: "(if \<exists>sw \<in> set (supplierWarehouse no). sw \<noteq> no_warehouseId no then 0 else 1::int) =
      (if list_all ((=) (no_warehouseId no)) (supplierWarehouse no) then 1 else 0)"
    by (auto simp: list_all_iff)
  show ?thesis
    unfolding executeNewOrder_def new_order_spec_def Let_def Some option.case need_def[of "Some no"] local
  proof (rule runs_getValue(1), rule runs_getValue(2), rule rules(2)[OF sim_Nil], rule runs_getValue(3),
      rule rules(6), assumption, rule rules(9), assumption, rule rules(5), assumption, goal_cases)
    case (1 wv dv ws cv ws1 ws2 ws3)
    then show ?case
      using new_order_lines_run[OF assms] by (simp add: new_order_header_def Let_def del: fun_upd_apply)
  qed
qed

text \<open>The end of a payment, once the customer is known.\<close>

lemma pay_customer_runs:
  assumes "tpcc_laws tp" and "sim tp db ws t"
  shows "runs_to tp db
     (run_writes (TPCC_getValue (customer_c tp) P_CUSTOMER ck (\<lambda>cv.
        case cdata cv of None \<Rightarrow> Return (-1)
        | Some cv' \<Rightarrow> TPCC_insertIntoTable (customer_c tp) P_CUSTOMER ck (upd cv')
            (TPCC_insertIntoTable (history_c tp) P_HISTORY hk hv (Return 0)))) db ws)
     (need (customers (tables_of tp db) ck) (\<lambda>cv. need (cdata cv) (\<lambda>cv'.
        Commit (t\<lparr>customers := (customers t)(ck \<mapsto> upd cv'), histories := (histories t)(hk \<mapsto> hv)\<rparr>))))"
proof (rule runs_getValue(3))
  fix cv
  show "runs_to tp db
     (run_writes (case cdata cv of None \<Rightarrow> Return (-1)
        | Some cv' \<Rightarrow> TPCC_insertIntoTable (customer_c tp) P_CUSTOMER ck (upd cv')
            (TPCC_insertIntoTable (history_c tp) P_HISTORY hk hv (Return 0))) db ws)
     (need (cdata cv) (\<lambda>cv'.
        Commit (t\<lparr>customers := (customers t)(ck \<mapsto> upd cv'), histories := (histories t)(hk \<mapsto> hv)\<rparr>)))"
  proof (cases "cdata cv")
    case None
    then show ?thesis by (simp add: need_def runs_to_def)
  next
    case (Some cv')
    note rules = runs_insert[OF assms(1) assms(1) assms(1)]
    show ?thesis
      unfolding Some need_def option.case
      by (rule rules(3)[OF assms(2)], rule rules(4), assumption)
        (simp add: runs_to_def del: fun_upd_apply)
  qed
qed

lemma executePayment_runs:
  assumes "tpcc_laws tp"
  shows "runs_to tp db (run_writes (executePayment tp memory arg) db [])
     (need (in_Payment tp arg) (\<lambda>p. payment_spec tp memory p (tables_of tp db)))"
proof (cases "in_Payment tp arg")
  case None
  then show ?thesis by (simp add: executePayment_def need_def runs_to_def)
next
  case (Some p)
  note rules = runs_insert[OF assms assms assms]
  show ?thesis
    unfolding executePayment_def payment_spec_def Let_def Some option.case need_def[of "Some p"]
  proof (rule runs_getValue(1), rule rules(1)[OF sim_Nil], rule runs_getValue(2), rule rules(2), assumption,
      goal_cases)
    case (1 wv ws dv ws')
    note pay = pay_customer_runs[OF assms 1(4)]
    show ?case
    proof (cases "isPaymentById p")
      case True
      show ?thesis
        unfolding if_P[OF True] need_def[of "Some (customerId p)"] option.case using pay by (simp del: fun_upd_apply)
    next
      case False
      have index: "need (map_option f x) g = need x (\<lambda>a. g (f a))" for f x and g :: "_ \<Rightarrow> 'a tables txn"
        by (simp add: need_def split: option.split)
      show ?thesis
        unfolding if_not_P[OF False] index by (rule runs_getValue(4)) (use pay in \<open>simp del: fun_upd_apply\<close>)
    qed
  qed
qed

section \<open>What a new order changes\<close>

lemma need_Commit: "need x f = Commit t \<longleftrightarrow> (\<exists>a. x = Some a \<and> f a = Commit t)"
  by (cases x) (simp_all add: need_def)

lemma bind_Commit: "bind_txn x f = Commit t \<longleftrightarrow> (\<exists>a. x = Commit a \<and> f a = Commit t)"
  by (cases x) simp_all

lemma crash_Commit: "(if b then Crash else x) = Commit t \<longleftrightarrow> \<not> b \<and> x = Commit t"
  by simp

lemma case_Commit:
  "(case x of None \<Rightarrow> Crash | Some a \<Rightarrow> Commit (f a)) = Commit t \<longleftrightarrow> (\<exists>a. x = Some a \<and> t = f a)"
  by (auto split: option.split)

text \<open>The row of the stock table that a line takes its items from.\<close>

definition line_stock :: "NewOrder \<Rightarrow> nat \<Rightarrow> stock_key" where
  "line_stock no i = (supplierWarehouse no ! i, itemIds no ! i)"

lemma line_spec_Commit:
  assumes "line_spec tp no wt dt disc t0 i t = Commit t'"
  obtains row sv where "stocks t0 (line_stock no i) = Some sv"
    and "t' = t\<lparr>stocks := (stocks t)(line_stock no i \<mapsto>
          stock_update tp (quantities no ! i) (supplierWarehouse no ! i \<noteq> no_warehouseId no) sv),
        order_lines := (order_lines t)((no_warehouseId no, no_districtId no, no_districtId no,
          orderLineNumbers no ! i) \<mapsto> row)\<rparr>"
  using assms
  unfolding line_spec_def Let_def crash_Commit need_Commit case_Commit
  by (elim exE conjE) (rule that[unfolded line_stock_def])

lemma lines_spec_tables:
  assumes "lines_spec tp no wt dt disc t0 is t = Commit t'"
  shows "warehouses t' = warehouses t \<and> districts t' = districts t \<and> customers t' = customers t \<and>
    customer_index t' = customer_index t \<and> histories t' = histories t \<and> new_orders t' = new_orders t \<and>
    orders t' = orders t \<and> order_index t' = order_index t \<and> items t' = items t"
  using assms
proof (induction "is" arbitrary: t)
  case (Cons i "is")
  then obtain t1 where "line_spec tp no wt dt disc t0 i t = Commit t1"
    and "lines_spec tp no wt dt disc t0 is t1 = Commit t'" by (auto simp: bind_Commit)
  with Cons.IH[of t1] show ?case by (elim line_spec_Commit) simp
qed simp

lemma lines_spec_order_lines:
  assumes "lines_spec tp no wt dt disc t0 is t = Commit t'" and "oid \<noteq> no_districtId no"
  shows "order_lines t' (w, d, oid, n) = order_lines t (w, d, oid, n)"
  using assms(1)
proof (induction "is" arbitrary: t)
  case (Cons i "is")
  then obtain t1 where "line_spec tp no wt dt disc t0 i t = Commit t1"
    and "lines_spec tp no wt dt disc t0 is t1 = Commit t'" by (auto simp: bind_Commit)
  with Cons.IH[of t1] assms(2) show ?case by (elim line_spec_Commit) simp
qed simp

lemma lines_spec_stock_other:
  assumes "lines_spec tp no wt dt disc t0 is t = Commit t'" and "k \<notin> line_stock no ` set is"
  shows "stocks t' k = stocks t k"
  using assms
proof (induction "is" arbitrary: t)
  case (Cons i "is")
  then obtain t1 where "line_spec tp no wt dt disc t0 i t = Commit t1"
    and "lines_spec tp no wt dt disc t0 is t1 = Commit t'" by (auto simp: bind_Commit)
  with Cons.IH[of t1] Cons.prems(2) show ?case by (elim line_spec_Commit) simp
qed simp

text \<open>Of several lines on the same row of the stock table, the last one decides.\<close>

lemma lines_spec_stock_last:
  assumes "lines_spec tp no wt dt disc t0 (xs @ i # ys) t = Commit t'"
    and "line_stock no i \<notin> line_stock no ` set ys"
  shows "\<exists>sv. stocks t0 (line_stock no i) = Some sv \<and> stocks t' (line_stock no i) =
    Some (stock_update tp (quantities no ! i) (supplierWarehouse no ! i \<noteq> no_warehouseId no) sv)"
  using assms(1)
proof (induction xs arbitrary: t)
  case Nil
  then obtain t1 where "line_spec tp no wt dt disc t0 i t = Commit t1"
    and rest: "lines_spec tp no wt dt disc t0 ys t1 = Commit t'" by (auto simp: bind_Commit)
  then show ?case
    by (elim line_spec_Commit) (simp add: lines_spec_stock_other[OF rest assms(2)])
next
  case (Cons x xs)
  then show ?case by (auto simp: bind_Commit)
qed

lemma new_order_spec_Commit:
  assumes "new_order_spec tp no t = Commit t'"
  obtains wv dv cv where "warehouses t (no_warehouseId no) = Some wv"
    and "districts t (no_warehouseId no, no_districtId no) = Some dv"
    and "customers t (no_warehouseId no, no_districtId no, no_customerId no) = Some cv"
    and "lines_spec tp no (w_tax wv) (d_tax dv) (c_discount cv) t [0..<nat (orderLineCount no)]
      (new_order_header tp no dv t) = Commit t'"
  using assms unfolding new_order_spec_def need_Commit by (elim exE conjE) (rule that; assumption)

lemma payment_spec_Commit:
  assumes "payment_spec tp memory p t = Commit t'"
  obtains wv dv c cv cv' where "warehouses t (warehouseId p) = Some wv"
    and "districts t (warehouseId p, districtId p) = Some dv"
    and "(if isPaymentById p then Some (customerId p)
      else map_option wdl_c_id (customer_index t (customerWarehouseId p, customerDistrictId p, customerLastName p))) = Some c"
    and "customers t (customerWarehouseId p, customerDistrictId p, c) = Some cv"
    and "credit_data tp c p (w_name wv) (d_name dv) cv = Some cv'"
    and "t' = t\<lparr>warehouses := (warehouses t)(warehouseId p \<mapsto>
          wv\<lparr>w_ytd := n_add tp (w_ytd wv) (homeOrderTotalAmount p)\<rparr>),
        districts := (districts t)((warehouseId p, districtId p) \<mapsto>
          dv\<lparr>d_ytd := n_add tp (d_ytd dv) (homeOrderTotalAmount p)\<rparr>),
        customers := (customers t)((customerWarehouseId p, customerDistrictId p, c) \<mapsto>
          customer_pay tp (homeOrderTotalAmount p) cv'),
        histories := (histories t)
          ((c, customerDistrictId p, customerWarehouseId p, districtId p, warehouseId p, timestamp p) \<mapsto>
          \<lparr>h_amount = homeOrderTotalAmount p, h_data = history_data memory (w_name wv) (d_name dv)\<rparr>)\<rparr>"
  using assms unfolding payment_spec_def Let_def need_Commit txn.inject
  by (elim exE conjE) (rule that; (assumption | erule sym))

text \<open>A successful invocation commits.\<close>

lemma new_order_commits:
  assumes "tpcc_laws tp" and "fst (outcome (executeNewOrder tp arg) db) = Some 0"
  obtains no where "in_NewOrder tp arg = Some no"
    and "new_order_spec tp no (tables_of tp db) = Commit (tables_of tp (snd (outcome (executeNewOrder tp arg) db)))"
  using runs_to_implements[OF executeNewOrder_runs[OF assms(1)], of db arg] assms(2)
  by (cases "in_NewOrder tp arg") (auto simp: implements_txn_def need_def split: txn.splits)

lemma new_order_lines_committed:
  assumes "tpcc_laws tp" and "in_NewOrder tp arg = Some no"
    and "outcome (executeNewOrder tp arg) db = (Some 0, db')"
  obtains dv wt dt disc where "districts (tables_of tp db) (no_warehouseId no, no_districtId no) = Some dv"
    and "lines_spec tp no wt dt disc (tables_of tp db) [0..<nat (orderLineCount no)]
      (new_order_header tp no dv (tables_of tp db)) = Commit (tables_of tp db')"
proof -
  have "fst (outcome (executeNewOrder tp arg) db) = Some 0" by (simp add: assms(3))
  from new_order_commits[OF assms(1) this] have "new_order_spec tp no (tables_of tp db) = Commit (tables_of tp db')"
    using assms(2,3) by (metis option.inject snd_conv)
  then show ?thesis by (rule new_order_spec_Commit) (rule that)
qed

lemma payment_commits:
  assumes "tpcc_laws tp" and "fst (outcome (executePayment tp memory arg) db) = Some 0"
  obtains p where "in_Payment tp arg = Some p"
    and "payment_spec tp memory p (tables_of tp db) =
      Commit (tables_of tp (snd (outcome (executePayment tp memory arg) db)))"
  using runs_to_implements[OF executePayment_runs[OF assms(1)], of db memory arg] assms(2)
  by (cases "in_Payment tp arg") (auto simp: implements_txn_def need_def split: txn.splits)

lemma payment_committed:
  assumes "tpcc_laws tp" and "in_Payment tp arg = Some p"
    and "outcome (executePayment tp memory arg) db = (Some 0, db')"
  shows "payment_spec tp memory p (tables_of tp db) = Commit (tables_of tp db')"
proof -
  have "fst (outcome (executePayment tp memory arg) db) = Some 0" by (simp add: assms(3))
  from payment_commits[OF assms(1) this] show ?thesis
    using assms(2,3) by (metis option.inject snd_conv)
qed

lemma credit_data_balance:
  assumes "credit_data tp c p wn dn cv = Some cv'"
  shows "c_balance cv' = c_balance cv" "c_ytd_payment cv' = c_ytd_payment cv"
  using assms by (auto simp: credit_data_def split: if_splits)

section \<open>Invariants of the tables\<close>

text \<open>
  The orders of a district are numbered without gaps from 1 to the number before the
  next one.
\<close>

definition orders_numbered :: "'d tables \<Rightarrow> bool" where
  "orders_numbered t \<longleftrightarrow>
     (\<forall>w d dv. districts t (w, d) = Some dv \<longrightarrow>
        (\<forall>oid. orders t (w, d, oid) \<noteq> None \<longleftrightarrow> 1 \<le> oid \<and> oid < d_next_o_id dv) \<and>
        1 \<le> d_next_o_id dv \<and> d_next_o_id dv < 2147483648)"

lemma new_order_numbered:
  assumes "orders_numbered t" and "new_order_spec tp no t = Commit t'"
    and "\<And>dv. districts t (no_warehouseId no, no_districtId no) = Some dv \<Longrightarrow> d_next_o_id dv < 2147483647"
  shows "orders_numbered t'"
proof -
  obtain wv dv cv where "warehouses t (no_warehouseId no) = Some wv"
    and d: "districts t (no_warehouseId no, no_districtId no) = Some dv"
    and "customers t (no_warehouseId no, no_districtId no, no_customerId no) = Some cv"
    and l: "lines_spec tp no (w_tax wv) (d_tax dv) (c_discount cv) t [0..<nat (orderLineCount no)]
      (new_order_header tp no dv t) = Commit t'"
    using assms(2) by (rule new_order_spec_Commit)
  have same: "districts t' = districts (new_order_header tp no dv t)" "orders t' = orders (new_order_header tp no dv t)"
    using lines_spec_tables[OF l] by simp_all
  have old: "districts t (w, d) = Some dv' \<Longrightarrow> (\<exists>y. orders t (w, d, oid) = Some y) = (1 \<le> oid \<and> oid < d_next_o_id dv')"
    "districts t (w, d) = Some dv' \<Longrightarrow> 1 \<le> d_next_o_id dv' \<and> d_next_o_id dv' < 2147483648" for w d dv' oid
    using assms(1) unfolding orders_numbered_def by auto
  have nxt: "1 \<le> d_next_o_id dv" "i32 (d_next_o_id dv + 1) = d_next_o_id dv + 1"
    using old(2)[OF d] assms(3)[OF d] by (simp_all add: i32_def)
  show ?thesis
    using nxt old[OF d] assms(3)[OF d]
    by (auto simp: orders_numbered_def same new_order_header_def Let_def old split: if_splits)
qed

lemma payment_numbered:
  assumes "orders_numbered t" and "payment_spec tp memory p t = Commit t'"
  shows "orders_numbered t'"
  using assms(2)
proof (rule payment_spec_Commit)
  fix wv dv c cv cv'
  assume d: "districts t (warehouseId p, districtId p) = Some dv"
    and t': "t' = t\<lparr>warehouses := (warehouses t)(warehouseId p \<mapsto>
          wv\<lparr>w_ytd := n_add tp (w_ytd wv) (homeOrderTotalAmount p)\<rparr>),
        districts := (districts t)((warehouseId p, districtId p) \<mapsto>
          dv\<lparr>d_ytd := n_add tp (d_ytd dv) (homeOrderTotalAmount p)\<rparr>),
        customers := (customers t)((customerWarehouseId p, customerDistrictId p, c) \<mapsto>
          customer_pay tp (homeOrderTotalAmount p) cv'),
        histories := (histories t)
          ((c, customerDistrictId p, customerWarehouseId p, districtId p, warehouseId p, timestamp p) \<mapsto>
          \<lparr>h_amount = homeOrderTotalAmount p, h_data = history_data memory (w_name wv) (d_name dv)\<rparr>)\<rparr>"
  show "orders_numbered t'"
    using assms(1) d unfolding orders_numbered_def t' by simp
qed

end
