(* ===== verification/TpccInit.thy ===== *)
theory TpccInit
  imports TpccRefine "HOL-Library.Char_ord" "HOL-Library.List_Lexorder" "HOL-Library.Product_Lexorder"
begin

text \<open>
  The initial load of the order-entry chaincode, \<^verbatim>\<open>TPCCChaincode::InitDatabase\<close> and
  the functions it calls. What the random generators, the clock and uninitialised memory
  contribute is an argument, the record \<open>load\<close>; the structure of the tables is the
  program's.
\<close>

section \<open>Draws\<close>

text \<open>
  Rows as the generators fill them, by warehouse, district and number; the fields that
  the program sets itself are overwritten below. A position means that the one-in-ten
  draw for the text \<^verbatim>\<open>ORIGINAL\<close> hit.
\<close>

record 'd load =
  memory :: string
  item_row :: "int \<Rightarrow> 'd item_t"
  item_original :: "int \<Rightarrow> nat option"
  warehouse_row :: "int \<Rightarrow> 'd warehouse_t"
  warehouse_zip :: "int \<Rightarrow> nat"
  stock_row :: "int \<Rightarrow> int \<Rightarrow> 'd stock_t"
  stock_original :: "int \<Rightarrow> int \<Rightarrow> nat option"
  district_row :: "int \<Rightarrow> int \<Rightarrow> 'd district_t"
  district_zip :: "int \<Rightarrow> int \<Rightarrow> nat"
  customer_row :: "int \<Rightarrow> int \<Rightarrow> int \<Rightarrow> 'd customer_t"
  customer_zip :: "int \<Rightarrow> int \<Rightarrow> int \<Rightarrow> nat"
  customer_name :: "int \<Rightarrow> int \<Rightarrow> int \<Rightarrow> nat"
  customer_bad :: "int \<Rightarrow> int \<Rightarrow> int \<Rightarrow> bool"
  customer_now :: "int \<Rightarrow> int \<Rightarrow> int \<Rightarrow> Timestamp"
  history_now :: "int \<Rightarrow> int \<Rightarrow> int \<Rightarrow> Timestamp"
  history_text :: "int \<Rightarrow> int \<Rightarrow> int \<Rightarrow> varchar"
  shuffled :: "int \<Rightarrow> int \<Rightarrow> int list"
  order_now :: "int \<Rightarrow> int \<Rightarrow> int \<Rightarrow> Timestamp"
  order_carrier :: "int \<Rightarrow> int \<Rightarrow> int \<Rightarrow> Integer"
  order_count :: "int \<Rightarrow> int \<Rightarrow> int \<Rightarrow> Integer"

definition original :: "string \<Rightarrow> nat option \<Rightarrow> varchar \<Rightarrow> varchar" where
  "original mem pos v =
     (case pos of None \<Rightarrow> v | Some p \<Rightarrow> Varchar_plus mem (Varchar_resize p v) ORIGINAL_STR)"

section \<open>Loading\<close>

text \<open>
  A function that returned true is continued by its last argument. Every district has
  3000 customers and as many orders.
\<close>

definition per_district :: int where "per_district = 3000"

definition item_value :: "'d load \<Rightarrow> int \<Rightarrow> 'd item_t" where
  "item_value ld i = (item_row ld i)\<lparr>i_data := original (memory ld) (item_original ld i) (i_data (item_row ld i))\<rparr>"

definition initItem :: "'d tpcc \<Rightarrow> 'd load \<Rightarrow> prog \<Rightarrow> prog" where
  "initItem tp ld = foldr (\<lambda>i. TPCC_insertIntoTable (item_c tp) P_ITEM i (item_value ld i)) [1..ITEMS_COUNT]"

definition stock_value :: "'d tpcc \<Rightarrow> 'd load \<Rightarrow> int \<Rightarrow> int \<Rightarrow> 'd stock_t" where
  "stock_value tp ld partitionID i =
     (stock_row ld partitionID i)\<lparr>s_ytd := n_int tp 0, s_order_cnt := n_int tp 0, s_remote_cnt := n_int tp 0,
        s_data := original (memory ld) (stock_original ld partitionID i) (s_data (stock_row ld partitionID i))\<rparr>"

definition initStock :: "'d tpcc \<Rightarrow> 'd load \<Rightarrow> int \<Rightarrow> prog \<Rightarrow> prog" where
  "initStock tp ld partitionID k =
     (if partitionID < 0 then Return (-1)
      else foldr (\<lambda>i. TPCC_insertIntoTable (stock_c tp) P_STOCK (partitionID + 1, i + 1)
              (stock_value tp ld partitionID i)) [0..ITEMS_COUNT - 1] k)"

definition warehouse_value :: "'d tpcc \<Rightarrow> 'd load \<Rightarrow> int \<Rightarrow> 'd warehouse_t" where
  "warehouse_value tp ld i =
     (warehouse_row ld i)\<lparr>w_zip := randomZipCode (memory ld) (memory ld) (warehouse_zip ld i),
        w_ytd := n_int tp 3000000\<rparr>"

definition initWarehouse :: "'d tpcc \<Rightarrow> 'd load \<Rightarrow> int \<Rightarrow> int \<Rightarrow> prog \<Rightarrow> prog" where
  "initWarehouse tp ld fromWhId toWhId =
     foldr (\<lambda>i. TPCC_insertIntoTable (warehouse_c tp) P_WAREHOUSE (i + 1) (warehouse_value tp ld i))
       [fromWhId..toWhId - 1]"

definition district_value :: "'d tpcc \<Rightarrow> 'd load \<Rightarrow> int \<Rightarrow> int \<Rightarrow> 'd district_t" where
  "district_value tp ld partitionID i =
     (district_row ld partitionID i)\<lparr>
        d_zip := randomZipCode (memory ld) (memory ld) (district_zip ld partitionID i),
        d_ytd := n_int tp 3000000, d_next_o_id := 3001\<rparr>"

definition initDistrict :: "'d tpcc \<Rightarrow> 'd load \<Rightarrow> int \<Rightarrow> int \<Rightarrow> prog \<Rightarrow> prog" where
  "initDistrict tp ld nDistrict partitionID k =
     (if partitionID < 0 \<or> nDistrict \<le> 0 then Return (-1)
      else foldr (\<lambda>i. TPCC_insertIntoTable (district_c tp) P_DISTRICT (partitionID + 1, i)
              (district_value tp ld partitionID i)) [1..nDistrict] k)"

definition order_value :: "'d tpcc \<Rightarrow> 'd load \<Rightarrow> int \<Rightarrow> int \<Rightarrow> int \<Rightarrow> 'd order_t" where
  "order_value tp ld partitionID i j =
     \<lparr>o_c_id = shuffled ld partitionID i ! nat (j - 1), o_entry_d = order_now ld partitionID i j,
      o_carrier_id = (if j < 2101 then order_carrier ld partitionID i j else 0),
      o_ol_cnt = n_int tp (order_count ld partitionID i j), o_all_local = n_int tp 1\<rparr>"

definition initOrder :: "'d tpcc \<Rightarrow> 'd load \<Rightarrow> int \<Rightarrow> int \<Rightarrow> prog \<Rightarrow> prog" where
  "initOrder tp ld nDistrict partitionID k =
     (if partitionID < 0 \<or> nDistrict \<le> 0 then Return (-1)
      else foldr (\<lambda>i k.
          foldr (\<lambda>j k.
              let value = order_value tp ld partitionID i j in
              TPCC_insertIntoTable (order_c tp) P_ORDER (partitionID + 1, i, j) value (
              TPCC_insertIntoTable (order_wdc_c tp) P_ORDER_WDC (partitionID + 1, i, o_c_id value, j) () k))
            [1..per_district]
          (foldr (\<lambda>j. TPCC_insertIntoTable (new_order_c tp) P_NEW_ORDER (partitionID + 1, i, j) \<lparr>no_dummy = 0\<rparr>)
            [2100..per_district] k))
        [1..nDistrict] k)"

definition customer_value :: "'d tpcc \<Rightarrow> 'd load \<Rightarrow> int \<Rightarrow> int \<Rightarrow> int \<Rightarrow> 'd customer_t" where
  "customer_value tp ld partitionID i j =
     (let two = (\<lambda>a b. Varchar_append b (Varchar_append a \<lparr>vc_length = 0, vc_data = memory ld\<rparr>)) in
      (customer_row ld partitionID i j)\<lparr>
        c_middle := two (CHR ''O'') (CHR ''E''),
        c_zip := randomZipCode (memory ld) (memory ld) (customer_zip ld partitionID i j),
        c_since := customer_now ld partitionID i j, c_credit_lim := n_int tp 50000,
        c_balance := n_int tp (-10), c_ytd_payment := n_int tp 1, c_payment_cnt := n_int tp 0,
        c_delivery_cnt := n_int tp 0,
        c_last := GenerateLastName (memory ld)
          (if j < 1000 then nat (j - 1) else customer_name ld partitionID i j),
        c_credit := (if customer_bad ld partitionID i j then two (CHR ''B'') (CHR ''C'')
                     else two (CHR ''G'') (CHR ''C''))\<rparr>)"

text \<open>
  The customers by last name. The hash map becomes a list of pairs; the order in which it
  is traversed does not matter, since every entry goes to a key of its own.
\<close>

type_synonym customer_map = "(string \<times> (string \<times> Integer) list) list"

fun customer_map_add :: "string \<Rightarrow> string \<times> Integer \<Rightarrow> customer_map \<Rightarrow> customer_map" where
  "customer_map_add lname e [] = [(lname, [e])]"
| "customer_map_add lname e ((l, es) # m) =
     (if l = lname then (l, es @ [e]) # m else (l, es) # customer_map_add lname e m)"

text \<open>The middle of the customers with a last name, by first name and number.\<close>

definition middle_customer :: "(string \<times> Integer) list \<Rightarrow> Integer" where
  "middle_customer es = snd (sort es ! ((length es - 1) div 2))"

definition customer_entry :: "'d customer_t \<Rightarrow> Integer \<Rightarrow> customer_map \<Rightarrow> customer_map" where
  "customer_entry value j =
     customer_map_add (Varchar_toString (c_last value)) (Varchar_toString (c_first value), j)"

fun customer_districts ::
  "'d tpcc \<Rightarrow> 'd load \<Rightarrow> int \<Rightarrow> int list \<Rightarrow> customer_map \<Rightarrow> prog \<Rightarrow> prog" where
  "customer_districts tp ld partitionID [] customerMap k = k"
| "customer_districts tp ld partitionID (i # is) customerMap k =
     (let customerMap' = fold (\<lambda>j. customer_entry (customer_value tp ld partitionID i j) j) [1..per_district] customerMap in
      foldr (\<lambda>j k.
          TPCC_insertIntoTable (customer_c tp) P_CUSTOMER (partitionID + 1, i, j)
            (customer_value tp ld partitionID i j) (
          TPCC_insertIntoTable (history_c tp) P_HISTORY
            (j, i, partitionID + 1, i, partitionID + 1, history_now ld partitionID i j)
            \<lparr>h_amount = n_int tp 10, h_data = history_text ld partitionID i j\<rparr> k))
        [1..per_district]
      (foldr (\<lambda>(lname, es).
          TPCC_insertIntoTable (customer_wdl_c tp) P_CUSTOMER_WDL
            (partitionID + 1, i, Varchar_of (memory ld) lname) \<lparr>wdl_c_id = middle_customer es\<rparr>)
        customerMap'
      (customer_districts tp ld partitionID is customerMap' k)))"

definition initCustomer :: "'d tpcc \<Rightarrow> 'd load \<Rightarrow> int \<Rightarrow> int \<Rightarrow> prog \<Rightarrow> prog" where
  "initCustomer tp ld nDistrict partitionID k =
     (if partitionID < 0 \<or> nDistrict \<le> 0 then Return (-1)
      else customer_districts tp ld partitionID [1..nDistrict] [] k)"

definition TPCC_InitDatabase :: "'d tpcc \<Rightarrow> 'd load \<Rightarrow> nat \<Rightarrow> prog" where
  "TPCC_InitDatabase tp ld warehouseCount =
     (let (beginPartition, endPartition) = CalculatePartition 0 1 warehouseCount in
      initItem tp ld (
      initWarehouse tp ld (int beginPartition) (int endPartition) (
      foldr (\<lambda>partition k.
          initStock tp ld partition (
          initDistrict tp ld DISTRICT_COUNT partition (
          initCustomer tp ld DISTRICT_COUNT partition (
          initOrder tp ld DISTRICT_COUNT partition k))))
        [int beginPartition..int endPartition - 1] (Return 0))))"

section \<open>Effect on the tables\<close>

text \<open>A piece of program that only writes, and what it does to the tables.\<close>

definition does :: "'d tpcc \<Rightarrow> DB \<Rightarrow> (prog \<Rightarrow> prog) \<Rightarrow> ('d tables \<Rightarrow> 'd tables) \<Rightarrow> bool" where
  "does tp db P f \<longleftrightarrow>
     (\<forall>ws t k spec. sim tp db ws t \<longrightarrow>
        (\<forall>ws'. sim tp db ws' (f t) \<longrightarrow> runs_to tp db (run_writes k db ws') spec) \<longrightarrow>
        runs_to tp db (run_writes (P k) db ws) spec)"

lemma does_comp: "does tp db P f \<Longrightarrow> does tp db Q g \<Longrightarrow> does tp db (\<lambda>k. P (Q k)) (\<lambda>t. g (f t))"
  unfolding does_def by meson

lemma does_skip: "does tp db (\<lambda>k. k) (\<lambda>t. t)"
  by (simp add: does_def)

lemma does_foldr_on:
  assumes "\<And>x. x \<in> set xs \<Longrightarrow> does tp db (P x) (f x)"
  shows "does tp db (foldr P xs) (fold f xs)"
  using assms
proof (induction xs)
  case Nil
  then show ?case using does_skip by (simp add: id_def)
next
  case (Cons x xs)
  from does_comp[of tp db "P x" "f x", OF _ Cons.IH] Cons.prems show ?case by (simp add: comp_def)
qed

lemmas does_foldr = does_foldr_on[rule_format]

lemma does_put:
  assumes "key_laws c" and "row_laws c" and "\<And>x. p @ key_bytes c i \<noteq> P_ORDER_WDC @ x"
    and "\<And>db. tables_of tp (db(p @ key_bytes c i \<mapsto> row_bytes c v)) = upd (tables_of tp db)"
  shows "does tp db (TPCC_insertIntoTable c p i v) upd"
  unfolding does_def by (intro allI impI, rule runs_put[OF assms]) auto

lemmas does_insert =
  does_put[OF tpcc_laws_dest(1) tpcc_laws_dest(2) prefix_not_index(1) tables_put(1)]
  does_put[OF tpcc_laws_dest(3) tpcc_laws_dest(4) prefix_not_index(2) tables_put(2)]
  does_put[OF tpcc_laws_dest(5) tpcc_laws_dest(6) prefix_not_index(3) tables_put(3)]
  does_put[OF tpcc_laws_dest(7) tpcc_laws_dest(8) prefix_not_index(4) tables_put(4)]
  does_put[OF tpcc_laws_dest(9) tpcc_laws_dest(10) prefix_not_index(5) tables_put(5)]
  does_put[OF tpcc_laws_dest(11) tpcc_laws_dest(12) prefix_not_index(6) tables_put(6)]
  does_put[OF tpcc_laws_dest(13) tpcc_laws_dest(14) prefix_not_index(7) tables_put(7)]
  does_put[OF tpcc_laws_dest(17) tpcc_laws_dest(18) prefix_not_index(9) tables_put(9)]
  does_put[OF tpcc_laws_dest(19) tpcc_laws_dest(20) prefix_not_index(10) tables_put(10)]

lemma does_insert_index:
  assumes "tpcc_laws tp"
  shows "does tp db (TPCC_insertIntoTable (order_wdc_c tp) P_ORDER_WDC i ())
    (\<lambda>t. t\<lparr>order_index := (order_index t)(i := None)\<rparr>)"
  unfolding does_def by (intro allI impI, rule runs_put_index[OF assms]) auto

text \<open>The parts of the load as functions on tables.\<close>

definition item_effect :: "'d load \<Rightarrow> 'd tables \<Rightarrow> 'd tables" where
  "item_effect ld = fold (\<lambda>i t. t\<lparr>items := (items t)(i \<mapsto> item_value ld i)\<rparr>) [1..ITEMS_COUNT]"

definition warehouse_effect :: "'d tpcc \<Rightarrow> 'd load \<Rightarrow> int \<Rightarrow> int \<Rightarrow> 'd tables \<Rightarrow> 'd tables" where
  "warehouse_effect tp ld a b =
     fold (\<lambda>i t. t\<lparr>warehouses := (warehouses t)(i + 1 \<mapsto> warehouse_value tp ld i)\<rparr>) [a..b - 1]"

definition stock_effect :: "'d tpcc \<Rightarrow> 'd load \<Rightarrow> int \<Rightarrow> 'd tables \<Rightarrow> 'd tables" where
  "stock_effect tp ld p =
     fold (\<lambda>i t. t\<lparr>stocks := (stocks t)((p + 1, i + 1) \<mapsto> stock_value tp ld p i)\<rparr>) [0..ITEMS_COUNT - 1]"

definition district_effect :: "'d tpcc \<Rightarrow> 'd load \<Rightarrow> int \<Rightarrow> int \<Rightarrow> 'd tables \<Rightarrow> 'd tables" where
  "district_effect tp ld n p =
     fold (\<lambda>i t. t\<lparr>districts := (districts t)((p + 1, i) \<mapsto> district_value tp ld p i)\<rparr>) [1..n]"

definition order_effect :: "'d tpcc \<Rightarrow> 'd load \<Rightarrow> int \<Rightarrow> int \<Rightarrow> 'd tables \<Rightarrow> 'd tables" where
  "order_effect tp ld n p =
     fold (\<lambda>i t.
       fold (\<lambda>j t. t\<lparr>new_orders := (new_orders t)((p + 1, i, j) \<mapsto> \<lparr>no_dummy = 0\<rparr>)\<rparr>) [2100..per_district]
        (fold (\<lambda>j t.
           let t1 = t\<lparr>orders := (orders t)((p + 1, i, j) \<mapsto> order_value tp ld p i j)\<rparr> in
           t1\<lparr>order_index := (order_index t1)((p + 1, i, o_c_id (order_value tp ld p i j), j) := None)\<rparr>)
          [1..per_district] t)) [1..n]"

fun customer_effect :: "'d tpcc \<Rightarrow> 'd load \<Rightarrow> int \<Rightarrow> int list \<Rightarrow> customer_map \<Rightarrow> 'd tables \<Rightarrow> 'd tables" where
  "customer_effect tp ld p [] m t = t"
| "customer_effect tp ld p (i # is) m t =
     (let m' = fold (\<lambda>j. customer_entry (customer_value tp ld p i j) j) [1..per_district] m in
      customer_effect tp ld p is m'
       (fold (\<lambda>(l, es) t. t\<lparr>customer_index := (customer_index t)
            ((p + 1, i, Varchar_of (memory ld) l) \<mapsto> \<lparr>wdl_c_id = middle_customer es\<rparr>)\<rparr>) m'
        (fold (\<lambda>j t.
           let t1 = t\<lparr>customers := (customers t)((p + 1, i, j) \<mapsto> customer_value tp ld p i j)\<rparr> in
           t1\<lparr>histories := (histories t1)((j, i, p + 1, i, p + 1, history_now ld p i j) \<mapsto>
             \<lparr>h_amount = n_int tp 10, h_data = history_text ld p i j\<rparr>)\<rparr>)
          [1..per_district] t)))"

lemma does_initItem: "tpcc_laws tp \<Longrightarrow> does tp db (initItem tp ld) (item_effect ld)"
  unfolding initItem_def item_effect_def by (intro does_foldr does_insert)

lemma does_initWarehouse: "tpcc_laws tp \<Longrightarrow> does tp db (initWarehouse tp ld a b) (warehouse_effect tp ld a b)"
  unfolding initWarehouse_def warehouse_effect_def by (intro does_foldr does_insert)

lemma does_initStock: "tpcc_laws tp \<Longrightarrow> 0 \<le> p \<Longrightarrow> does tp db (initStock tp ld p) (stock_effect tp ld p)"
  unfolding initStock_def stock_effect_def
  by (simp add: not_less[symmetric]) (intro does_foldr does_insert)

lemma does_initDistrict:
  "tpcc_laws tp \<Longrightarrow> 0 \<le> p \<Longrightarrow> 0 < n \<Longrightarrow> does tp db (initDistrict tp ld n p) (district_effect tp ld n p)"
  unfolding initDistrict_def district_effect_def
  by simp (intro does_foldr does_insert)

lemma does_initOrder:
  assumes "tpcc_laws tp" "0 \<le> p" "0 < n"
  shows "does tp db (initOrder tp ld n p) (order_effect tp ld n p)"
proof -
  note laws = assms(1) assms(1) assms(1)
  note order = does_comp[OF does_insert(7)[OF laws] does_insert_index[OF assms(1)]]
  note district = does_comp[OF does_foldr[OF order] does_foldr[OF does_insert(6)[OF laws]]]
  have "initOrder tp ld n p = foldr (\<lambda>i k.
          foldr (\<lambda>j k.
              TPCC_insertIntoTable (order_c tp) P_ORDER (p + 1, i, j) (order_value tp ld p i j) (
              TPCC_insertIntoTable (order_wdc_c tp) P_ORDER_WDC
                (p + 1, i, o_c_id (order_value tp ld p i j), j) () k))
            [1..per_district]
          (foldr (\<lambda>j. TPCC_insertIntoTable (new_order_c tp) P_NEW_ORDER (p + 1, i, j) \<lparr>no_dummy = 0\<rparr>)
            [2100..per_district] k)) [1..n]"
    using assms by (simp add: fun_eq_iff initOrder_def Let_def)
  then show ?thesis
    unfolding order_effect_def Let_def by (simp only:) (rule does_foldr, rule district)
qed

lemma does_customers:
  assumes "tpcc_laws tp"
  shows "does tp db (customer_districts tp ld p is m) (customer_effect tp ld p is m)"
proof (induction "is" arbitrary: m)
  case Nil
  then show ?case using does_skip by (simp add: id_def)
next
  case (Cons i "is")
  note laws = assms(1) assms(1) assms(1)
  note customer = does_comp[OF does_insert(3)[OF laws] does_insert(5)[OF laws]]
  have entry: "does tp db (case e of (lname, es) \<Rightarrow>
      TPCC_insertIntoTable (customer_wdl_c tp) P_CUSTOMER_WDL (p + 1, i, Varchar_of (memory ld) lname)
        \<lparr>wdl_c_id = middle_customer es\<rparr>)
    (case e of (l, es) \<Rightarrow> \<lambda>t. t\<lparr>customer_index := (customer_index t)
      ((p + 1, i, Varchar_of (memory ld) l) \<mapsto> \<lparr>wdl_c_id = middle_customer es\<rparr>)\<rparr>)" for e
    by (cases e) (simp, rule does_insert(4)[OF laws])
  show ?case
    unfolding customer_districts.simps customer_effect.simps Let_def
    by (rule does_comp[OF does_foldr[OF customer] does_comp[OF does_foldr[OF entry] Cons]])
qed

lemma does_initCustomer:
  assumes "tpcc_laws tp" "0 \<le> p" "0 < n"
  shows "does tp db (initCustomer tp ld n p) (customer_effect tp ld p [1..n] [])"
proof -
  have "initCustomer tp ld n p = customer_districts tp ld p [1..n] []"
    using assms by (simp add: fun_eq_iff initCustomer_def)
  with does_customers[OF assms(1)] show ?thesis by simp
qed

definition partition_effect :: "'d tpcc \<Rightarrow> 'd load \<Rightarrow> int \<Rightarrow> 'd tables \<Rightarrow> 'd tables" where
  "partition_effect tp ld p t =
     order_effect tp ld DISTRICT_COUNT p (customer_effect tp ld p [1..DISTRICT_COUNT] []
       (district_effect tp ld DISTRICT_COUNT p (stock_effect tp ld p t)))"

definition load_effect :: "'d tpcc \<Rightarrow> 'd load \<Rightarrow> nat \<Rightarrow> 'd tables \<Rightarrow> 'd tables" where
  "load_effect tp ld n t =
     fold (partition_effect tp ld) [0..int n - 1] (warehouse_effect tp ld 0 (int n) (item_effect ld t))"

lemma does_partition:
  assumes "tpcc_laws tp" "0 \<le> p"
  shows "does tp db (\<lambda>k. initStock tp ld p (initDistrict tp ld DISTRICT_COUNT p
      (initCustomer tp ld DISTRICT_COUNT p (initOrder tp ld DISTRICT_COUNT p k)))) (partition_effect tp ld p)"
proof -
  have pos: "0 < DISTRICT_COUNT" by (simp add: DISTRICT_COUNT_def)
  note parts = does_comp[OF does_initStock[OF assms] does_comp[OF does_initDistrict[OF assms pos]
        does_comp[OF does_initCustomer[OF assms pos] does_initOrder[OF assms pos]]]]
  show ?thesis
    unfolding partition_effect_def[abs_def] by (rule parts)
qed

lemma InitDatabase_runs:
  assumes "tpcc_laws tp"
  shows "runs_to tp db (run_writes (TPCC_InitDatabase tp ld n) db []) (Commit (load_effect tp ld n (tables_of tp db)))"
proof -
  have parts: "does tp db (foldr (\<lambda>p k. initStock tp ld p (initDistrict tp ld DISTRICT_COUNT p
      (initCustomer tp ld DISTRICT_COUNT p (initOrder tp ld DISTRICT_COUNT p k)))) [0..int n - 1])
    (fold (partition_effect tp ld) [0..int n - 1])"
    by (rule does_foldr_on) (simp add: does_partition[OF assms])
  note all = does_comp[OF does_initItem[OF assms] does_comp[OF does_initWarehouse[OF assms] parts]]
  show ?thesis
    using all[of ld ld 0 "int n", unfolded does_def, rule_format, OF sim_Nil,
        of "Return 0" "Commit (load_effect tp ld n (tables_of tp db))"]
    by (simp add: TPCC_InitDatabase_def CalculatePartition_def Let_def load_effect_def runs_to_def)
qed

section \<open>The loaded tables\<close>

text \<open>A loop that sets some entries of a table, seen at one key.\<close>

lemma fold_field_on:
  assumes "\<And>x t. x \<in> set xs \<Longrightarrow> fld (F x t) k = (if Q x then v else fld t k)"
  shows "fld (fold F xs t) k = (if \<exists>x \<in> set xs. Q x then v else fld t k)"
  using assms by (induction xs arbitrary: t) auto

lemma fold_field:
  assumes "\<And>x t. fld (F x t) k = (if Q x then v else fld t k)"
  shows "fld (fold F xs t) k = (if \<exists>x \<in> set xs. Q x then v else fld t k)"
  using assms by (rule fold_field_on)

lemma fold_field_same:
  assumes "\<And>x t. fld (F x t) = fld t"
  shows "fld (fold F xs t) = fld t"
  by (induction xs arbitrary: t) (auto simp: assms)

lemma customer_effect_tables:
  "warehouses (customer_effect tp ld p is m t) = warehouses t"
  "districts (customer_effect tp ld p is m t) = districts t"
  "orders (customer_effect tp ld p is m t) = orders t"
  "new_orders (customer_effect tp ld p is m t) = new_orders t"
  "order_index (customer_effect tp ld p is m t) = order_index t"
  by (induction "is" arbitrary: m t) (simp_all add: Let_def fold_field_same case_prod_beta)

lemma order_effect_orders:
  "orders (order_effect tp ld n p t) (w, d, oid) =
     (if w = p + 1 \<and> 1 \<le> d \<and> d \<le> n \<and> 1 \<le> oid \<and> oid \<le> per_district
      then Some (order_value tp ld (w - 1) d oid) else orders t (w, d, oid))"
proof -
  let ?new = "\<lambda>i j t. t\<lparr>new_orders := (new_orders t)((p + 1, i, j) \<mapsto> \<lparr>no_dummy = 0\<rparr>)\<rparr>"
  let ?ord = "\<lambda>i j t. t\<lparr>orders := (orders t)((p + 1, i, j) \<mapsto> order_value tp ld p i j),
      order_index := (order_index t)((p + 1, i, o_c_id (order_value tp ld p i j), j) := None)\<rparr>"
  have inner: "orders (fold (?ord i) [1..per_district] t) (w, d, oid) =
      (if \<exists>j \<in> set [1..per_district]. w = p + 1 \<and> d = i \<and> oid = j
       then Some (order_value tp ld (w - 1) d oid) else orders t (w, d, oid))" for i and t :: "'a tables"
    by (rule fold_field) auto
  have body: "orders (fold (?new i) [2100..per_district] (fold (?ord i) [1..per_district] t)) (w, d, oid) =
      (if w = p + 1 \<and> d = i \<and> 1 \<le> oid \<and> oid \<le> per_district
       then Some (order_value tp ld (w - 1) d oid) else orders t (w, d, oid))" for i and t :: "'a tables"
    by (simp add: fold_field_same[of orders] inner)
  have "orders (order_effect tp ld n p t) (w, d, oid) =
      (if \<exists>i \<in> set [1..n]. w = p + 1 \<and> d = i \<and> 1 \<le> oid \<and> oid \<le> per_district
       then Some (order_value tp ld (w - 1) d oid) else orders t (w, d, oid))"
    unfolding order_effect_def by (rule fold_field) (simp add: Let_def body)
  then show ?thesis by auto
qed

lemma order_effect_new_orders:
  "new_orders (order_effect tp ld n p t) (w, d, oid) =
     (if w = p + 1 \<and> 1 \<le> d \<and> d \<le> n \<and> 2100 \<le> oid \<and> oid \<le> per_district
      then Some \<lparr>no_dummy = 0\<rparr> else new_orders t (w, d, oid))"
proof -
  let ?new = "\<lambda>i j t. t\<lparr>new_orders := (new_orders t)((p + 1, i, j) \<mapsto> \<lparr>no_dummy = 0\<rparr>)\<rparr>"
  have inner: "new_orders (fold (?new i) [2100..per_district] t) (w, d, oid) =
      (if \<exists>j \<in> set [2100..per_district]. w = p + 1 \<and> d = i \<and> oid = j
       then Some \<lparr>no_dummy = 0\<rparr> else new_orders t (w, d, oid))" for i and t :: "'a tables"
    by (rule fold_field) auto
  have "new_orders (order_effect tp ld n p t) (w, d, oid) =
      (if \<exists>i \<in> set [1..n]. w = p + 1 \<and> d = i \<and> 2100 \<le> oid \<and> oid \<le> per_district
       then Some \<lparr>no_dummy = 0\<rparr> else new_orders t (w, d, oid))"
    unfolding order_effect_def
    by (rule fold_field) (simp add: Let_def inner fold_field_same[of new_orders])
  then show ?thesis by auto
qed

lemma partition_tables:
  "warehouses (partition_effect tp ld p t) = warehouses t"
  "districts (partition_effect tp ld p t) (w, d) =
     (if w = p + 1 \<and> 1 \<le> d \<and> d \<le> DISTRICT_COUNT then Some (district_value tp ld (w - 1) d)
      else districts t (w, d))"
  "orders (partition_effect tp ld p t) (w, d, oid) =
     (if w = p + 1 \<and> 1 \<le> d \<and> d \<le> DISTRICT_COUNT \<and> 1 \<le> oid \<and> oid \<le> per_district
      then Some (order_value tp ld (w - 1) d oid) else orders t (w, d, oid))"
  "new_orders (partition_effect tp ld p t) (w, d, oid) =
     (if w = p + 1 \<and> 1 \<le> d \<and> d \<le> DISTRICT_COUNT \<and> 2100 \<le> oid \<and> oid \<le> per_district
      then Some \<lparr>no_dummy = 0\<rparr> else new_orders t (w, d, oid))"
proof -
  note unf = partition_effect_def order_effect_def district_effect_def stock_effect_def
    customer_effect_tables Let_def
  show "warehouses (partition_effect tp ld p t) = warehouses t"
    by (simp add: unf fold_field_same[of warehouses])
  have "districts (partition_effect tp ld p t) (w, d) =
      districts (district_effect tp ld DISTRICT_COUNT p (stock_effect tp ld p t)) (w, d)"
    by (simp add: unf fold_field_same[of districts])
  also have "\<dots> = (if \<exists>i \<in> set [1..DISTRICT_COUNT]. w = p + 1 \<and> d = i
      then Some (district_value tp ld (w - 1) d) else districts (stock_effect tp ld p t) (w, d))"
    unfolding district_effect_def by (rule fold_field) auto
  finally show "districts (partition_effect tp ld p t) (w, d) =
     (if w = p + 1 \<and> 1 \<le> d \<and> d \<le> DISTRICT_COUNT then Some (district_value tp ld (w - 1) d)
      else districts t (w, d))"
    by (auto simp: stock_effect_def fold_field_same[of districts])
qed (simp_all add: partition_effect_def order_effect_orders order_effect_new_orders customer_effect_tables
    district_effect_def stock_effect_def fold_field_same[of orders] fold_field_same[of new_orders])

text \<open>What the load leaves of the tables that a new order and a payment count on.\<close>

lemma load_tables:
  shows "warehouses (load_effect tp ld n t) w =
      (if 1 \<le> w \<and> w \<le> int n then Some (warehouse_value tp ld (w - 1)) else warehouses t w)"
    and "districts (load_effect tp ld n t) (w, d) =
      (if 1 \<le> w \<and> w \<le> int n \<and> 1 \<le> d \<and> d \<le> DISTRICT_COUNT then Some (district_value tp ld (w - 1) d)
       else districts t (w, d))"
    and "orders (load_effect tp ld n t) (w, d, oid) =
      (if 1 \<le> w \<and> w \<le> int n \<and> 1 \<le> d \<and> d \<le> DISTRICT_COUNT \<and> 1 \<le> oid \<and> oid \<le> per_district
       then Some (order_value tp ld (w - 1) d oid) else orders t (w, d, oid))"
    and "new_orders (load_effect tp ld n t) (w, d, oid) =
      (if 1 \<le> w \<and> w \<le> int n \<and> 1 \<le> d \<and> d \<le> DISTRICT_COUNT \<and> 2100 \<le> oid \<and> oid \<le> per_district
       then Some \<lparr>no_dummy = 0\<rparr> else new_orders t (w, d, oid))"
proof -
  let ?t1 = "warehouse_effect tp ld 0 (int n) (item_effect ld t)"
  have w: "warehouses ?t1 w = (if \<exists>i \<in> set [0..int n - 1]. w = i + 1 then Some (warehouse_value tp ld (w - 1))
      else warehouses (item_effect ld t) w)"
    unfolding warehouse_effect_def by (rule fold_field) auto
  have same: "warehouses (item_effect ld t) = warehouses t" "districts ?t1 = districts t"
    "orders ?t1 = orders t" "new_orders ?t1 = new_orders t"
    by (simp_all add: item_effect_def warehouse_effect_def fold_field_same[of warehouses]
        fold_field_same[of districts] fold_field_same[of orders] fold_field_same[of new_orders])
  have range: "(\<exists>i \<in> set [0..int n - 1]. w = i + 1) \<longleftrightarrow> 1 \<le> w \<and> w \<le> int n" by (auto intro: bexI[of _ "w - 1"])
  show "warehouses (load_effect tp ld n t) w =
      (if 1 \<le> w \<and> w \<le> int n then Some (warehouse_value tp ld (w - 1)) else warehouses t w)"
    using w range by (simp add: load_effect_def fold_field_same[of warehouses] partition_tables(1) same)
  note loop = fold_field[where F = "partition_effect tp ld" and xs = "[0..int n - 1]" and t = ?t1]
  show "districts (load_effect tp ld n t) (w, d) =
      (if 1 \<le> w \<and> w \<le> int n \<and> 1 \<le> d \<and> d \<le> DISTRICT_COUNT then Some (district_value tp ld (w - 1) d)
       else districts t (w, d))"
    unfolding load_effect_def loop[of districts, OF partition_tables(2)] same using range by auto
  show "orders (load_effect tp ld n t) (w, d, oid) =
      (if 1 \<le> w \<and> w \<le> int n \<and> 1 \<le> d \<and> d \<le> DISTRICT_COUNT \<and> 1 \<le> oid \<and> oid \<le> per_district
       then Some (order_value tp ld (w - 1) d oid) else orders t (w, d, oid))"
    unfolding load_effect_def loop[of orders, OF partition_tables(3)] same using range by auto
  show "new_orders (load_effect tp ld n t) (w, d, oid) =
      (if 1 \<le> w \<and> w \<le> int n \<and> 1 \<le> d \<and> d \<le> DISTRICT_COUNT \<and> 2100 \<le> oid \<and> oid \<le> per_district
       then Some \<lparr>no_dummy = 0\<rparr> else new_orders t (w, d, oid))"
    unfolding load_effect_def loop[of new_orders, OF partition_tables(4)] same using range by auto
qed

lemma load_order_index:
  assumes "order_index t = Map.empty"
  shows "order_index (load_effect tp ld n t) = Map.empty"
proof -
  have order: "order_index (order_effect tp ld k p t) = Map.empty"
    if "order_index t = Map.empty" for k p and t :: "'a tables"
    unfolding order_effect_def Let_def
    by (rule fold_invariant_simple[where P = "\<lambda>t. order_index t = Map.empty"], rule that)
      (simp add: fold_field_same[of order_index],
       rule fold_invariant_simple[where P = "\<lambda>t. order_index t = Map.empty"], simp_all)
  have part: "order_index (partition_effect tp ld p t) = Map.empty"
    if "order_index t = Map.empty" for p and t :: "'a tables"
    unfolding partition_effect_def
    by (rule order) (simp add: customer_effect_tables district_effect_def stock_effect_def
        fold_field_same[of order_index] that)
  show ?thesis
    unfolding load_effect_def
    by (rule fold_invariant_simple[where P = "\<lambda>t. order_index t = Map.empty"])
      (simp_all add: part warehouse_effect_def item_effect_def fold_field_same[of order_index] assms)
qed

section \<open>The index of last names\<close>

text \<open>The customers of a district with a last name, in the order of their numbers.\<close>

definition named :: "'d tpcc \<Rightarrow> 'd load \<Rightarrow> int \<Rightarrow> int \<Rightarrow> string \<Rightarrow> (string \<times> Integer) list" where
  "named tp ld p i l =
     map (\<lambda>j. (Varchar_toString (c_first (customer_value tp ld p i j)), j))
       (filter (\<lambda>j. Varchar_toString (c_last (customer_value tp ld p i j)) = l) [1..per_district])"

definition entries :: "customer_map \<Rightarrow> string \<Rightarrow> (string \<times> Integer) list" where
  "entries m l = (case map_of m l of None \<Rightarrow> [] | Some es \<Rightarrow> es)"

lemma map_of_customer_map_add:
  "map_of (customer_map_add l e m) = (map_of m)(l \<mapsto> entries m l @ [e])"
  by (induction l e m rule: customer_map_add.induct) (auto simp: entries_def fun_eq_iff)

lemma keys_customer_map_add: "distinct (map fst m) \<Longrightarrow> distinct (map fst (customer_map_add l e m))"
proof -
  have "fst ` set (customer_map_add l e m) = insert l (fst ` set m)" for m
    by (induction l e m rule: customer_map_add.induct) auto
  then show "distinct (map fst m) \<Longrightarrow> distinct (map fst (customer_map_add l e m))"
    by (induction l e m rule: customer_map_add.induct) auto
qed

definition district_map :: "'d tpcc \<Rightarrow> 'd load \<Rightarrow> int \<Rightarrow> int \<Rightarrow> customer_map \<Rightarrow> customer_map" where
  "district_map tp ld p i = fold (\<lambda>j. customer_entry (customer_value tp ld p i j) j) [1..per_district]"

lemma entries_district_map: "entries (district_map tp ld p i m) l = entries m l @ named tp ld p i l"
proof -
  have "entries (fold (\<lambda>j. customer_entry (customer_value tp ld p i j) j) js m) l = entries m l @
      map (\<lambda>j. (Varchar_toString (c_first (customer_value tp ld p i j)), j))
        (filter (\<lambda>j. Varchar_toString (c_last (customer_value tp ld p i j)) = l) js)" for js m
  proof (induction js arbitrary: m)
    case (Cons j js)
    have "entries (customer_entry (customer_value tp ld p i j) j m) l = entries m l @
      (if Varchar_toString (c_last (customer_value tp ld p i j)) = l
       then [(Varchar_toString (c_first (customer_value tp ld p i j)), j)] else [])"
      by (simp add: customer_entry_def entries_def map_of_customer_map_add)
    with Cons show ?case by simp
  qed simp
  then show ?thesis by (simp add: district_map_def named_def)
qed

lemma keys_district_map: "distinct (map fst m) \<Longrightarrow> distinct (map fst (district_map tp ld p i m))"
  unfolding district_map_def
  by (rule fold_invariant_simple[where P = "\<lambda>m. distinct (map fst m)"])
    (simp_all add: customer_entry_def keys_customer_map_add)

text \<open>What the loop over the districts does to the map, and to the rows of one district.\<close>

lemma customer_effect_append:
  "customer_effect tp ld p (xs @ ys) m t =
     customer_effect tp ld p ys (fold (district_map tp ld p) xs m) (customer_effect tp ld p xs m t)"
  by (induction xs arbitrary: m t) (simp_all add: Let_def district_map_def)

lemma customer_effect_other:
  assumes "i \<notin> set is"
  shows "customer_index (customer_effect tp ld p is m t) (w, i, l) = customer_index t (w, i, l)"
  using assms
proof (induction "is" arbitrary: m t)
  case (Cons a "is")
  have "customer_index (fold (\<lambda>(l, es) t. t\<lparr>customer_index := (customer_index t)
      ((p + 1, a, Varchar_of (memory ld) l) \<mapsto> \<lparr>wdl_c_id = middle_customer es\<rparr>)\<rparr>) xs t) (w, i, l) =
      (if \<exists>x \<in> set xs. False then None else customer_index t (w, i, l))" for xs and t :: "'a tables"
    by (rule fold_field[where fld = customer_index]) (use Cons.prems in auto)
  with Cons show ?case by (simp add: Let_def fold_field_same[of customer_index])
qed simp

lemma Varchar_of_inject: "Varchar_of mem l = Varchar_of mem l' \<longleftrightarrow> l = l'"
  by (metis Varchar_toString_of)

lemma index_rows:
  assumes "distinct (map fst m)" and "entries m l \<noteq> []"
  shows "customer_index (fold (\<lambda>(l, es) t. t\<lparr>customer_index := (customer_index t)
      ((p + 1, i, Varchar_of mem l) \<mapsto> \<lparr>wdl_c_id = middle_customer es\<rparr>)\<rparr>) m t) (p + 1, i, Varchar_of mem l) =
    Some \<lparr>wdl_c_id = middle_customer (entries m l)\<rparr>"
proof -
  have "customer_index (fold (\<lambda>(l, es) t. t\<lparr>customer_index := (customer_index t)
      ((p + 1, i, Varchar_of mem l) \<mapsto> \<lparr>wdl_c_id = middle_customer es\<rparr>)\<rparr>) m t) (p + 1, i, Varchar_of mem l) =
      (if \<exists>x \<in> set m. fst x = l then Some \<lparr>wdl_c_id = middle_customer (entries m l)\<rparr>
       else customer_index t (p + 1, i, Varchar_of mem l))"
    by (rule fold_field_on[where fld = customer_index])
      (use assms(1) in \<open>auto simp: entries_def Varchar_of_inject\<close>)
  moreover have "\<exists>x \<in> set m. fst x = l"
    using assms(2) by (force simp: entries_def split: option.splits dest: map_of_SomeD)
  ultimately show ?thesis by simp
qed

lemma customer_index_row:
  assumes "1 \<le> i" and "i \<le> n" and "concat (map (\<lambda>d. named tp ld p d l) [1..i]) \<noteq> []"
  shows "customer_index (customer_effect tp ld p [1..n] [] t) (p + 1, i, Varchar_of (memory ld) l) =
    Some \<lparr>wdl_c_id = middle_customer (concat (map (\<lambda>d. named tp ld p d l) [1..i]))\<rparr>"
proof -
  have all: "entries (fold (district_map tp ld p) xs m) l = entries m l @ concat (map (\<lambda>d. named tp ld p d l) xs)" for xs m
    by (induction xs arbitrary: m) (simp_all add: entries_district_map)
  have keys: "distinct (map fst (fold (district_map tp ld p) xs []))" for xs
    by (rule fold_invariant_simple[where P = "\<lambda>m. distinct (map fst m)"]) (simp_all add: keys_district_map)
  let ?m = "fold (district_map tp ld p) [1..i - 1] []"
  have range: "[1..n] = [1..i - 1] @ i # [i + 1..n]"
    using assms(1,2) upto_split1[of 1 i n] upto_rec1[of i n] by simp
  have last: "[1..i] = [1..i - 1] @ [i]" using assms(1) by (simp add: upto_rec2)
  have m: "entries (district_map tp ld p i ?m) l = concat (map (\<lambda>d. named tp ld p d l) [1..i])"
    using all[of "[1..i - 1]" "[]"] by (simp add: entries_district_map last) (simp add: entries_def)
  have "distinct (map fst (district_map tp ld p i ?m))" by (rule keys_district_map[OF keys])
  from index_rows[OF this, of l] assms(3) show ?thesis
    unfolding range customer_effect_append
    by (simp add: customer_effect_other Let_def flip: m district_map_def)
qed

section \<open>Runs of the chaincode\<close>

text \<open>No district has used up its order numbers.\<close>

definition ids_left :: "'d tpcc \<Rightarrow> DB \<Rightarrow> bool" where
  "ids_left tp db \<longleftrightarrow> (\<forall>k dv. districts (tables_of tp db) k = Some dv \<longrightarrow> d_next_o_id dv < 2147483647)"

text \<open>The databases that the load and any invocations after it can lead to.\<close>

inductive tpcc_reach :: "'d tpcc \<Rightarrow> 'd load \<Rightarrow> nat \<Rightarrow> DB \<Rightarrow> bool" for tp ld n where
  loaded: "tpcc_reach tp ld n (snd (outcome (TPCC_InitDatabase tp ld n) Map.empty))"
| invoked: "tpcc_reach tp ld n db \<Longrightarrow> ids_left tp db \<Longrightarrow>
    tpcc_reach tp ld n (snd (outcome (TPCC_InvokeChaincode tp mem func arg) db))"

text \<open>The chaincode on tables.\<close>

definition tpcc_spec :: "'d tpcc \<Rightarrow> string \<Rightarrow> string \<Rightarrow> string \<Rightarrow> 'd tables \<Rightarrow> 'd tables txn" where
  "tpcc_spec tp mem func arg t =
     (if func = ''n'' then need (in_NewOrder tp arg) (\<lambda>no. new_order_spec tp no t)
      else if func = ''p'' then need (in_Payment tp arg) (\<lambda>p. payment_spec tp mem p t)
      else Rollback)"

lemma invoke_implements:
  assumes "tpcc_laws tp"
  shows "implements_txn tp db (outcome (TPCC_InvokeChaincode tp mem func arg) db)
     (tpcc_spec tp mem func arg (tables_of tp db))"
  using runs_to_implements[OF executeNewOrder_runs[OF assms]]
    runs_to_implements[OF executePayment_runs[OF assms]]
  by (simp add: TPCC_InvokeChaincode_def tpcc_spec_def implements_txn_def outcome_writes)

text \<open>An invariant of the tables is checked on the load and on the two transactions.\<close>

lemma tpcc_reach_invariant:
  assumes "tpcc_laws tp" and "tpcc_reach tp ld n db"
    and "I (load_effect tp ld n (tables_of tp Map.empty))"
    and "\<And>t t' no. I t \<Longrightarrow> new_order_spec tp no t = Commit t' \<Longrightarrow>
      (\<And>k dv. districts t k = Some dv \<Longrightarrow> d_next_o_id dv < 2147483647) \<Longrightarrow> I t'"
    and "\<And>t t' mem p. I t \<Longrightarrow> payment_spec tp mem p t = Commit t' \<Longrightarrow> I t'"
  shows "I (tables_of tp db)"
  using assms(2)
proof induction
  case loaded
  from runs_to_implements[OF InitDatabase_runs[OF assms(1)], of Map.empty ld n] assms(3)
  show ?case by (simp add: implements_txn_def)
next
  case (invoked db mem func arg)
  let ?out = "outcome (TPCC_InvokeChaincode tp mem func arg) db"
  have spec: "implements_txn tp db ?out (tpcc_spec tp mem func arg (tables_of tp db))"
    by (rule invoke_implements[OF assms(1)])
  show ?case
  proof (cases "tpcc_spec tp mem func arg (tables_of tp db)")
    case (Commit t')
    with spec have "tables_of tp (snd ?out) = t'" by (simp add: implements_txn_def)
    moreover have "I t'"
      using Commit assms(4,5)[OF invoked.IH] invoked.hyps(2)
      by (auto simp: tpcc_spec_def need_Commit ids_left_def split: if_splits)
    ultimately show ?thesis by simp
  qed (use spec invoked.IH in \<open>auto simp: implements_txn_def\<close>)
qed

lemma empty_tables:
  "warehouses (tables_of tp Map.empty) = Map.empty" "districts (tables_of tp Map.empty) = Map.empty"
  "orders (tables_of tp Map.empty) = Map.empty" "new_orders (tables_of tp Map.empty) = Map.empty"
  "order_index (tables_of tp Map.empty) = Map.empty" "customers (tables_of tp Map.empty) = Map.empty"
  "items (tables_of tp Map.empty) = Map.empty" "stocks (tables_of tp Map.empty) = Map.empty"
  "order_lines (tables_of tp Map.empty) = Map.empty"
  by (auto simp: fun_eq_iff tables_of_def table_def split: option.split)

end
