(* ===== verification/TpccProperties.thy ===== *)
theory TpccProperties
  imports TpccInit TpccDemo
begin

text \<open>
  The properties of the order-entry chaincode: it implements the transactions on tables,
  which tables its runs can lead to, and where these differ from what the comments of
  the source ask for.
\<close>

section \<open>Examples\<close>

definition vc :: "string \<Rightarrow> varchar" where
  "vc s = \<lparr>vc_length = length s, vc_data = s\<rparr>"

definition demo_customers :: "int list" where
  "demo_customers = [1..per_district]"

definition demo_load :: "int load" where
  "demo_load =
     \<lparr>memory = ''mmmmmmmmmmmmmmmmmmmmmmmm'',
      item_row = (\<lambda>i. \<lparr>i_im_id = 1, i_name = vc ''i'', i_price = 5, i_data = vc ''d''\<rparr>),
      item_original = (\<lambda>_. None),
      warehouse_row = (\<lambda>i. \<lparr>w_name = vc ''w'', w_street_1 = vc ''s'', w_street_2 = vc ''s'', w_city = vc ''c'',
        w_state = vc ''st'', w_zip = vc ''z'', w_tax = 0, w_ytd = 0\<rparr>),
      warehouse_zip = (\<lambda>_. 1234),
      stock_row = (\<lambda>_ _. \<lparr>s_quantity = 50, s_dist_01 = vc ''1'', s_dist_02 = vc ''2'', s_dist_03 = vc ''3'',
        s_dist_04 = vc ''4'', s_dist_05 = vc ''5'', s_dist_06 = vc ''6'', s_dist_07 = vc ''7'',
        s_dist_08 = vc ''8'', s_dist_09 = vc ''9'', s_dist_10 = vc ''10'', s_ytd = 0, s_order_cnt = 0,
        s_remote_cnt = 0, s_data = vc ''d''\<rparr>),
      stock_original = (\<lambda>_ _. Some 0),
      district_row = (\<lambda>_ _. \<lparr>d_name = vc ''d'', d_street_1 = vc ''s'', d_street_2 = vc ''s'', d_city = vc ''c'',
        d_state = vc ''st'', d_zip = vc ''z'', d_tax = 0, d_ytd = 0, d_next_o_id = 0\<rparr>),
      district_zip = (\<lambda>_ _. 4321),
      customer_row = (\<lambda>_ _ _. \<lparr>c_first = vc ''f'', c_middle = vc '''', c_last = vc ''l'', c_street_1 = vc ''s'',
        c_street_2 = vc ''s'', c_city = vc ''c'', c_state = vc ''st'', c_zip = vc ''z'', c_phone = vc ''p'',
        c_since = 0, c_credit = vc ''GC'', c_credit_lim = 0, c_discount = 0, c_balance = 0,
        c_ytd_payment = 0, c_payment_cnt = 0, c_delivery_cnt = 0, c_data = vc ''d''\<rparr>),
      customer_zip = (\<lambda>_ _ _. 1111), customer_name = (\<lambda>_ _ _. 7), customer_bad = (\<lambda>_ _ _. False),
      customer_now = (\<lambda>_ _ _. 1), history_now = (\<lambda>_ _ _. 1), history_text = (\<lambda>_ _ _. vc ''h''),
      shuffled = (\<lambda>_ _. demo_customers), order_now = (\<lambda>_ _ _. 1), order_carrier = (\<lambda>_ _ _. 3),
      order_count = (\<lambda>_ _ _. 5)\<rparr>"

text \<open>One warehouse with one district, one customer and one item.\<close>

definition demo_shop :: DB where
  "demo_shop = Map.empty
     (P_WAREHOUSE @ key_bytes (warehouse_c demo_tpcc) 1 \<mapsto>
        row_bytes (warehouse_c demo_tpcc) (warehouse_row demo_load 0),
      P_DISTRICT @ key_bytes (district_c demo_tpcc) (1, 2) \<mapsto>
        row_bytes (district_c demo_tpcc) ((district_row demo_load 0 2)\<lparr>d_next_o_id := 1\<rparr>),
      P_CUSTOMER @ key_bytes (customer_c demo_tpcc) (1, 2, 3) \<mapsto>
        row_bytes (customer_c demo_tpcc) (customer_row demo_load 0 2 3),
      P_ITEM @ key_bytes (item_c demo_tpcc) 9 \<mapsto> row_bytes (item_c demo_tpcc) (item_row demo_load 9),
      P_STOCK @ key_bytes (stock_c demo_tpcc) (1, 9) \<mapsto>
        row_bytes (stock_c demo_tpcc) (stock_row demo_load 0 9))"

text \<open>An order of two lines for the same item: 4 pieces, then 6. A payment of 10.\<close>

definition demo_order :: string where
  "demo_order = pack (map to_string [1, 2, 3, 2, 77, 1, 2, 1, 1, 9, 9, 4, 6])"

definition demo_payment :: string where
  "demo_payment = pack (map to_string [1, 2, 1, 2, 10, 5, 6, 1] @ put_varchar (vc ''l'') @ [to_string 3])"

definition demo_NewOrder :: NewOrder where
  "demo_NewOrder = \<lparr>no_warehouseId = 1, no_districtId = 2, no_customerId = 3, orderLineCount = 2,
     orderLineNumbers = [1, 2], supplierWarehouse = [1, 1], itemIds = [9, 9], quantities = [4, 6],
     no_timestamp = 77\<rparr>"

lemma demo_order_decoded: "in_NewOrder demo_tpcc demo_order = Some demo_NewOrder"
  by (simp add: demo_tpcc_def demo_order_def get_NewOrder_def demo_NewOrder_def Let_def comp_def del: pack.simps)

lemma demo_tables:
  "warehouses (tables_of demo_tpcc demo_shop) = [1 \<mapsto> warehouse_row demo_load 0]"
  "districts (tables_of demo_tpcc demo_shop) = [(1, 2) \<mapsto> (district_row demo_load 0 2)\<lparr>d_next_o_id := 1\<rparr>]"
  "customers (tables_of demo_tpcc demo_shop) = [(1, 2, 3) \<mapsto> customer_row demo_load 0 2 3]"
  "items (tables_of demo_tpcc demo_shop) = [9 \<mapsto> item_row demo_load 9]"
  "stocks (tables_of demo_tpcc demo_shop) = [(1, 9) \<mapsto> stock_row demo_load 0 9]"
  "orders (tables_of demo_tpcc demo_shop) = Map.empty"
  by (simp_all add: demo_shop_def tables_put[OF tpcc_laws_demo] empty_tables del: fun_upd_apply)

lemma demo_new_order:
  "\<exists>t'. new_order_spec demo_tpcc demo_NewOrder (tables_of demo_tpcc demo_shop) = Commit t'"
  by (simp add: new_order_spec_def need_def demo_tables demo_NewOrder_def upt_conv_Cons line_spec_def s_dist_def
      Let_def)

lemma demo_order_runs: "fst (outcome (executeNewOrder demo_tpcc demo_order) demo_shop) = Some 0"
  using demo_new_order runs_to_implements[OF executeNewOrder_runs[OF tpcc_laws_demo], of demo_shop demo_order]
  by (auto simp: demo_order_decoded need_def implements_txn_def)

section \<open>Refinement\<close>

text \<open>
  C4: refinement. If the codec obeys its laws, an invocation of the chaincode implements
  the transaction on tables: it fails and changes nothing where the transaction rolls
  back, it ends the process where the transaction does, and else it succeeds and leaves
  a database with the tables of the transaction.
\<close>

theorem tpcc_refines:
  assumes "tpcc_laws tp"
  shows "implements_txn tp db (outcome (TPCC_InvokeChaincode tp mem func arg) db)
     (tpcc_spec tp mem func arg (tables_of tp db))"
  by (rule invoke_implements[OF assms])

theorem tpcc_refines_witness:
  "tpcc_laws demo_tpcc \<and>
   (\<exists>t. tpcc_spec demo_tpcc [] ''n'' demo_order (tables_of demo_tpcc demo_shop) = Commit t \<and>
      fst (outcome (TPCC_InvokeChaincode demo_tpcc [] ''n'' demo_order) demo_shop) = Some 0 \<and>
      tables_of demo_tpcc (snd (outcome (TPCC_InvokeChaincode demo_tpcc [] ''n'' demo_order) demo_shop)) = t)"
  using tpcc_refines[OF tpcc_laws_demo, of demo_shop "[]" "''n''" demo_order] demo_new_order tpcc_laws_demo
  by (auto simp: tpcc_spec_def demo_order_decoded need_def implements_txn_def)

section \<open>Reachable tables\<close>

lemma load_numbered: "orders_numbered (load_effect tp ld n (tables_of tp Map.empty))"
  by (auto simp: orders_numbered_def load_tables empty_tables per_district_def district_value_def
      split: if_splits)

text \<open>
  C16: invariant. After the load and any invocations, the orders of every district are
  numbered without gaps from 1 up to the number before the district's next number, as
  long as no district runs out of numbers.
\<close>

theorem orders_stay_numbered:
  assumes "tpcc_laws tp" and "tpcc_reach tp ld n db"
  shows "orders_numbered (tables_of tp db)"
  using assms load_numbered
proof (rule tpcc_reach_invariant)
  fix t t' no assume "orders_numbered t" "new_order_spec tp no t = Commit t'"
    and "\<And>k dv. districts t k = Some dv \<Longrightarrow> d_next_o_id dv < 2147483647"
  then show "orders_numbered t'" by (rule new_order_numbered)
next
  fix t t' mem p assume "orders_numbered t" "payment_spec tp mem p t = Commit t'"
  then show "orders_numbered t'" by (rule payment_numbered)
qed

theorem orders_stay_numbered_witness:
  "\<exists>db. tpcc_reach demo_tpcc demo_load 1 db \<and> orders_numbered (tables_of demo_tpcc db)"
  using orders_stay_numbered[OF tpcc_laws_demo tpcc_reach.loaded[of demo_tpcc demo_load 1]]
    tpcc_reach.loaded[of demo_tpcc demo_load 1] by blast

text \<open>
  the index of a customer's orders is never filled. Its rows have no members, the
  codec writes no byte for them, and writing no byte deletes: after the load and any
  invocations the index is empty, although both the load and every new order insert
  into it.
\<close>

theorem order_index_stays_empty:
  assumes "tpcc_laws tp" and "tpcc_reach tp ld n db"
  shows "order_index (tables_of tp db) = Map.empty"
  using assms load_order_index[OF empty_tables(5)]
proof (rule tpcc_reach_invariant[where I = "\<lambda>t. order_index t = Map.empty"])
  fix t t' no assume "order_index t = Map.empty" "new_order_spec tp no t = Commit t'"
  then show "order_index t' = Map.empty"
    by (auto elim!: new_order_spec_Commit dest!: lines_spec_tables simp: new_order_header_def Let_def)
next
  fix t t' mem p assume "order_index t = Map.empty" "payment_spec tp mem p t = Commit t'"
  then show "order_index t' = Map.empty"
    by (auto elim!: payment_spec_Commit)
qed

theorem order_index_stays_empty_witness:
  "\<exists>db. tpcc_reach demo_tpcc demo_load 1 db \<and> order_index (tables_of demo_tpcc db) = Map.empty"
  using order_index_stays_empty[OF tpcc_laws_demo tpcc_reach.loaded[of demo_tpcc demo_load 1]]
    tpcc_reach.loaded[of demo_tpcc demo_load 1] by blast

section \<open>Year-to-date balances\<close>

text \<open>
  The balance of a warehouse minus the balances of its districts, with exact arithmetic,
  and the shape of the tables it needs.
\<close>

definition ytd_gap :: "int tables \<Rightarrow> int \<Rightarrow> int" where
  "ytd_gap t w = w_ytd (the (warehouses t w)) - (\<Sum>d = 1..10. d_ytd (the (districts t (w, d))))"

definition ten_districts :: "'d tables \<Rightarrow> bool" where
  "ten_districts t \<longleftrightarrow> (\<forall>w d. districts t (w, d) \<noteq> None \<longrightarrow> 1 \<le> d \<and> d \<le> 10)"

lemma new_order_balances:
  assumes "new_order_spec tp no t = Commit t'"
  shows "warehouses t' = warehouses t"
    and "map_option d_ytd (districts t' k) = map_option d_ytd (districts t k)"
  using assms
  by (auto elim!: new_order_spec_Commit dest!: lines_spec_tables simp: new_order_header_def Let_def)

lemma new_order_ytd:
  assumes "ten_districts t" and "new_order_spec tp no t = Commit t'"
  shows "ten_districts t' \<and> ytd_gap t' w = ytd_gap t w"
proof -
  note same = new_order_balances[OF assms(2)]
  have "(districts t' k = None) = (districts t k = None)" for k
    using same(2)[of k] by (cases "districts t' k"; cases "districts t k") simp_all
  moreover have "d_ytd (the (districts t' k)) = d_ytd (the (districts t k))" for k
    using same(2)[of k] calculation[of k] by (cases "districts t' k"; cases "districts t k") simp_all
  ultimately show ?thesis
    using assms(1) by (simp add: ten_districts_def ytd_gap_def same(1))
qed

lemma payment_ytd:
  assumes "n_add tp = (+)" and "ten_districts t" and "payment_spec tp mem p t = Commit t'"
  shows "ten_districts t' \<and> ytd_gap t' w = ytd_gap t w"
proof -
  from assms(3) obtain wv dv where wd: "warehouses t (warehouseId p) = Some wv"
      "districts t (warehouseId p, districtId p) = Some dv"
    and t': "warehouses t' = (warehouses t)(warehouseId p \<mapsto> wv\<lparr>w_ytd := w_ytd wv + homeOrderTotalAmount p\<rparr>)"
      "districts t' = (districts t)((warehouseId p, districtId p) \<mapsto>
        dv\<lparr>d_ytd := d_ytd dv + homeOrderTotalAmount p\<rparr>)"
    by (rule payment_spec_Commit) (simp add: assms(1))
  have d: "districtId p \<in> {1..10}" using assms(2) wd(2) by (auto simp: ten_districts_def)
  let ?f = "\<lambda>t d. d_ytd (the (districts t (w, d)))"
  have "(\<Sum>d = 1..10. ?f t' d) = (\<Sum>d = 1..10. ?f t d) + (if w = warehouseId p then homeOrderTotalAmount p else 0)"
    using d wd(2) by (auto simp: t' sum.remove[of _ "districtId p"])
  then have "ytd_gap t' w = ytd_gap t w" using wd(1) by (simp add: ytd_gap_def t'(1))
  moreover have "ten_districts t'" using assms(2) wd(2) by (auto simp: ten_districts_def t')
  ultimately show ?thesis by blast
qed

lemma load_ytd:
  assumes "n_int tp = (\<lambda>n. n)" and "1 \<le> w" "w \<le> int n"
  shows "ten_districts (load_effect tp ld n (tables_of tp Map.empty)) \<and>
    ytd_gap (load_effect tp ld n (tables_of tp Map.empty)) w = -27000000"
proof -
  have "(\<Sum>d = 1..10. d_ytd (the (districts (load_effect tp ld n (tables_of tp Map.empty)) (w, d)))) =
      (\<Sum>d = 1..10::int. 3000000)"
    by (rule sum.cong) (simp_all add: load_tables assms DISTRICT_COUNT_def district_value_def)
  then show ?thesis
    by (auto simp: ytd_gap_def ten_districts_def load_tables assms empty_tables warehouse_value_def
        DISTRICT_COUNT_def split: if_splits)
qed

text \<open>
  the year-to-date balance of a warehouse and the sum over its ten districts never
  agree. Payments add the same amount to both sides, so that their difference stays what
  the load made it: the load gives the warehouse the balance of a single district.
\<close>

theorem ytd_gap_stays:
  assumes "tpcc_laws tp" and "n_add tp = (+)" and "n_int tp = (\<lambda>n. n)"
    and "tpcc_reach tp ld n db" and "1 \<le> w" "w \<le> int n"
  shows "w_ytd (the (warehouses (tables_of tp db) w)) -
    (\<Sum>d = 1..10. d_ytd (the (districts (tables_of tp db) (w, d)))) = -27000000"
proof -
  have "ten_districts (tables_of tp db) \<and> ytd_gap (tables_of tp db) w = -27000000"
    using assms(1,4) load_ytd[OF assms(3,5,6)]
  proof (rule tpcc_reach_invariant[where I = "\<lambda>t. ten_districts t \<and> ytd_gap t w = -27000000"])
    fix t t' no assume "ten_districts t \<and> ytd_gap t w = -27000000" "new_order_spec tp no t = Commit t'"
    then show "ten_districts t' \<and> ytd_gap t' w = -27000000" using new_order_ytd[of t tp no t' w] by simp
  next
    fix t t' mem p assume "ten_districts t \<and> ytd_gap t w = -27000000" "payment_spec tp mem p t = Commit t'"
    then show "ten_districts t' \<and> ytd_gap t' w = -27000000" using payment_ytd[OF assms(2), of t mem p t' w] by simp
  qed
  then show ?thesis by (simp add: ytd_gap_def)
qed

theorem ytd_gap_stays_witness:
  "\<exists>db. tpcc_reach demo_tpcc demo_load 1 db \<and>
     w_ytd (the (warehouses (tables_of demo_tpcc db) 1)) -
     (\<Sum>d = 1..10. d_ytd (the (districts (tables_of demo_tpcc db) (1, d)))) = -27000000"
  using ytd_gap_stays[OF tpcc_laws_demo _ _ tpcc_reach.loaded[of demo_tpcc demo_load 1], of 1]
    tpcc_reach.loaded[of demo_tpcc demo_load 1] by (auto simp: demo_tpcc_def)

section \<open>What a new order stores\<close>

text \<open>
  C29: the rows of a successful new order. The district's next number is one higher, the
  order is stored under the number it was before, with the customer and the number of
  lines of the request, and it is listed as undelivered.
\<close>

theorem new_order_stored:
  assumes "tpcc_laws tp" and "in_NewOrder tp arg = Some no"
    and "outcome (executeNewOrder tp arg) db = (Some 0, db')"
  shows "\<exists>dv ov. districts (tables_of tp db) (no_warehouseId no, no_districtId no) = Some dv \<and>
    districts (tables_of tp db') (no_warehouseId no, no_districtId no) =
      Some (dv\<lparr>d_next_o_id := i32 (d_next_o_id dv + 1)\<rparr>) \<and>
    orders (tables_of tp db') (no_warehouseId no, no_districtId no, d_next_o_id dv) = Some ov \<and>
    o_c_id ov = no_customerId no \<and> o_ol_cnt ov = n_int tp (orderLineCount no) \<and>
    new_orders (tables_of tp db') (no_warehouseId no, no_districtId no, d_next_o_id dv) \<noteq> None"
proof -
  obtain dv wt dt disc where dv: "districts (tables_of tp db) (no_warehouseId no, no_districtId no) = Some dv"
    and l: "lines_spec tp no wt dt disc (tables_of tp db) [0..<nat (orderLineCount no)]
      (new_order_header tp no dv (tables_of tp db)) = Commit (tables_of tp db')"
    using assms(1-3) by (rule new_order_lines_committed)
  show ?thesis
    using dv lines_spec_tables[OF l] by (simp add: new_order_header_def Let_def)
qed

theorem new_order_stored_witness:
  "\<exists>db' dv. outcome (executeNewOrder demo_tpcc demo_order) demo_shop = (Some 0, db') \<and>
    districts (tables_of demo_tpcc demo_shop) (1, 2) = Some dv \<and>
    districts (tables_of demo_tpcc db') (1, 2) = Some (dv\<lparr>d_next_o_id := 2\<rparr>)"
proof -
  obtain db' where "outcome (executeNewOrder demo_tpcc demo_order) demo_shop = (Some 0, db')"
    using demo_order_runs by (metis prod.collapse)
  with new_order_stored[OF tpcc_laws_demo demo_order_decoded this]
  show ?thesis by (auto simp: demo_NewOrder_def demo_tables i32_def)
qed



text \<open>
  the stock after an order. The last line that names a row of the stock table decides
  about it: the row is the old one with that line's quantity taken, whatever earlier
  lines took, since reads do not see the transaction's own writes.
\<close>

theorem stock_last_line:
  assumes "tpcc_laws tp" and "in_NewOrder tp arg = Some no"
    and "outcome (executeNewOrder tp arg) db = (Some 0, db')"
    and "i < nat (orderLineCount no)"
    and "\<forall>j. i < j \<and> j < nat (orderLineCount no) \<longrightarrow> line_stock no j \<noteq> line_stock no i"
  shows "\<exists>sv. stocks (tables_of tp db) (line_stock no i) = Some sv \<and>
    stocks (tables_of tp db') (line_stock no i) =
      Some (stock_update tp (quantities no ! i) (supplierWarehouse no ! i \<noteq> no_warehouseId no) sv)"
proof -
  obtain dv wt dt disc where dv: "districts (tables_of tp db) (no_warehouseId no, no_districtId no) = Some dv"
    and l: "lines_spec tp no wt dt disc (tables_of tp db) [0..<nat (orderLineCount no)]
      (new_order_header tp no dv (tables_of tp db)) = Commit (tables_of tp db')"
    using assms(1-3) by (rule new_order_lines_committed)
  have split: "[0..<nat (orderLineCount no)] = [0..<i] @ i # [Suc i..<nat (orderLineCount no)]"
    using assms(4) upt_add_eq_append[of 0 i "nat (orderLineCount no) - i"] by (simp add: upt_conv_Cons)
  have "line_stock no i \<notin> line_stock no ` set [Suc i..<nat (orderLineCount no)]"
    using assms(5) by (force simp: Suc_le_eq)
  from lines_spec_stock_last[OF l[unfolded split] this] show ?thesis .
qed

text \<open>Two lines of 4 and 6 pieces take 6 from the stock of 50.\<close>

theorem stock_last_line_witness:
  "\<exists>db' sv. outcome (executeNewOrder demo_tpcc demo_order) demo_shop = (Some 0, db') \<and>
    stocks (tables_of demo_tpcc db') (1, 9) = Some sv \<and> s_quantity sv = 44"
proof -
  obtain db' where run: "outcome (executeNewOrder demo_tpcc demo_order) demo_shop = (Some 0, db')"
    using demo_order_runs by (metis prod.collapse)
  have "s_quantity (stock_update demo_tpcc 6 False (stock_row demo_load 0 9)) = 44"
    by (simp add: stock_update_def demo_tpcc_def demo_load_def i32_def Let_def)
  with stock_last_line[OF tpcc_laws_demo demo_order_decoded run, of 1] run
  show ?thesis by (auto simp: demo_NewOrder_def line_stock_def demo_tables)
qed

section \<open>What a payment stores\<close>

definition demo_Payment :: "int Payment" where
  "demo_Payment = \<lparr>warehouseId = 1, districtId = 2, customerWarehouseId = 1, customerDistrictId = 2,
     homeOrderTotalAmount = 10, homeOrderTotalDate = 5, timestamp = 6, isPaymentById = True,
     customerLastName = vc ''l'', customerId = 3\<rparr>"

lemma demo_payment_decoded: "in_Payment demo_tpcc demo_payment = Some demo_Payment"
  by (simp add: demo_tpcc_def demo_payment_def get_Payment_def demo_Payment_def get_int_def get_varchar_def
      put_varchar_def vc_def del: pack.simps)

lemma demo_payment_commits:
  "\<exists>t'. payment_spec demo_tpcc mem demo_Payment (tables_of demo_tpcc demo_shop) = Commit t'"
proof -
  have credit: "credit_data demo_tpcc 3 demo_Payment wn dn (customer_row demo_load 0 2 3) =
      Some (customer_row demo_load 0 2 3)" for wn dn
    by (simp add: credit_data_def demo_load_def vc_def)
  show ?thesis
    by (simp add: payment_spec_def need_def Let_def demo_tables demo_Payment_def credit[unfolded demo_Payment_def])
qed

lemma demo_payment_runs: "fst (outcome (executePayment demo_tpcc mem demo_payment) demo_shop) = Some 0"
  using demo_payment_commits[of mem]
    runs_to_implements[OF executePayment_runs[OF tpcc_laws_demo], of demo_shop mem demo_payment]
  by (auto simp: demo_payment_decoded need_def implements_txn_def)

text \<open>
  the money of a successful payment by number. The amount is added to the balances of
  the warehouse and of the district and taken from the customer's.
\<close>

theorem payment_stored:
  assumes "tpcc_laws tp" and "in_Payment tp arg = Some p" and "isPaymentById p"
    and "outcome (executePayment tp mem arg) db = (Some 0, db')"
  shows "\<exists>wv dv cv cv'. warehouses (tables_of tp db) (warehouseId p) = Some wv \<and>
    districts (tables_of tp db) (warehouseId p, districtId p) = Some dv \<and>
    customers (tables_of tp db) (customerWarehouseId p, customerDistrictId p, customerId p) = Some cv \<and>
    warehouses (tables_of tp db') (warehouseId p) =
      Some (wv\<lparr>w_ytd := n_add tp (w_ytd wv) (homeOrderTotalAmount p)\<rparr>) \<and>
    districts (tables_of tp db') (warehouseId p, districtId p) =
      Some (dv\<lparr>d_ytd := n_add tp (d_ytd dv) (homeOrderTotalAmount p)\<rparr>) \<and>
    customers (tables_of tp db') (customerWarehouseId p, customerDistrictId p, customerId p) = Some cv' \<and>
    c_balance cv' = n_sub tp (c_balance cv) (homeOrderTotalAmount p) \<and>
    c_ytd_payment cv' = n_add tp (c_ytd_payment cv) (homeOrderTotalAmount p)"
  using payment_committed[OF assms(1,2,4)]
proof (rule payment_spec_Commit, goal_cases)
  case (1 wv dv c cv cv')
  then have c: "c = customerId p" using assms(3) by simp
  show ?thesis
    by (intro exI[of _ wv] exI[of _ dv] exI[of _ cv] exI[of _ "customer_pay tp (homeOrderTotalAmount p) cv'"])
      (use 1 in \<open>simp add: c customer_pay_def credit_data_balance[OF 1(5)]\<close>)
qed

theorem payment_stored_witness:
  "\<exists>db' wv. outcome (executePayment demo_tpcc [] demo_payment) demo_shop = (Some 0, db') \<and>
     warehouses (tables_of demo_tpcc db') 1 = Some wv \<and> w_ytd wv = 10"
proof -
  obtain db' where run: "outcome (executePayment demo_tpcc [] demo_payment) demo_shop = (Some 0, db')"
    using demo_payment_runs by (metis prod.collapse)
  have "isPaymentById demo_Payment" by (simp add: demo_Payment_def)
  from payment_stored[OF tpcc_laws_demo demo_payment_decoded this run] run
  show ?thesis by (auto simp: demo_Payment_def demo_tables) (simp add: demo_load_def demo_tpcc_def)
qed

text \<open>
  C33: a payment stores uninitialised memory. The text of a history row does not fill its
  field, and the serialization writes the whole field: the same payment on the same
  database, executed where the memory behind the text differs, leaves different
  databases. Replicas that agree on the order of the transactions can so end in
  different states.
\<close>

theorem payment_stores_memory:
  assumes "tpcc_laws tp" and "in_Payment tp arg = Some p"
    and "warehouses (tables_of tp db) (warehouseId p) = Some wv"
    and "districts (tables_of tp db) (warehouseId p, districtId p) = Some dv"
    and "drop (length (take 24 (Varchar_toString (w_name wv) @ ''    '' @ Varchar_toString (d_name dv)))) mem \<noteq>
      drop (length (take 24 (Varchar_toString (w_name wv) @ ''    '' @ Varchar_toString (d_name dv)))) mem'"
    and "outcome (executePayment tp mem arg) db = (Some 0, db1)"
    and "outcome (executePayment tp mem' arg) db = (Some 0, db2)"
  shows "db1 \<noteq> db2"
proof
  assume eq: "db1 = db2"
  obtain c where 1: "(if isPaymentById p then Some (customerId p)
      else map_option wdl_c_id (customer_index (tables_of tp db)
        (customerWarehouseId p, customerDistrictId p, customerLastName p))) = Some c"
    and h1: "histories (tables_of tp db1)
      (c, customerDistrictId p, customerWarehouseId p, districtId p, warehouseId p, timestamp p) =
      Some \<lparr>h_amount = homeOrderTotalAmount p, h_data = history_data mem (w_name wv) (d_name dv)\<rparr>"
    using payment_committed[OF assms(1,2,6)] assms(3,4) by (elim payment_spec_Commit) simp
  obtain c' where 2: "(if isPaymentById p then Some (customerId p)
      else map_option wdl_c_id (customer_index (tables_of tp db)
        (customerWarehouseId p, customerDistrictId p, customerLastName p))) = Some c'"
    and h2: "histories (tables_of tp db2)
      (c', customerDistrictId p, customerWarehouseId p, districtId p, warehouseId p, timestamp p) =
      Some \<lparr>h_amount = homeOrderTotalAmount p, h_data = history_data mem' (w_name wv) (d_name dv)\<rparr>"
    using payment_committed[OF assms(1,2,7)] assms(3,4) by (elim payment_spec_Commit) simp
  have "c = c'" using 1 2 by simp
  then have "history_data mem (w_name wv) (d_name dv) = history_data mem' (w_name wv) (d_name dv)"
    using h1 h2 eq by simp
  then show False using assms(5) by (simp add: history_data_def Varchar_of_def)
qed

theorem payment_stores_memory_witness:
  "snd (outcome (executePayment demo_tpcc (replicate 24 (CHR ''a'')) demo_payment) demo_shop) \<noteq>
   snd (outcome (executePayment demo_tpcc (replicate 24 (CHR ''b'')) demo_payment) demo_shop)"
proof -
  let ?a = "replicate 24 (CHR ''a'')" and ?b = "replicate 24 (CHR ''b'')"
  obtain d1 d2 where run: "outcome (executePayment demo_tpcc ?a demo_payment) demo_shop = (Some 0, d1)"
    "outcome (executePayment demo_tpcc ?b demo_payment) demo_shop = (Some 0, d2)"
    using demo_payment_runs by (metis prod.collapse)
  have rows: "warehouses (tables_of demo_tpcc demo_shop) (warehouseId demo_Payment) = Some (warehouse_row demo_load 0)"
    "districts (tables_of demo_tpcc demo_shop) (warehouseId demo_Payment, districtId demo_Payment) =
       Some ((district_row demo_load 0 2)\<lparr>d_next_o_id := 1\<rparr>)"
    by (simp_all add: demo_tables demo_Payment_def)
  have "d1 \<noteq> d2"
    by (rule payment_stores_memory[OF tpcc_laws_demo demo_payment_decoded rows _ run])
      (simp add: demo_load_def vc_def Varchar_toString_def numeral_eq_Suc)
  then show ?thesis by (simp add: run)
qed

section \<open>What the load stores\<close>

text \<open>
  the load succeeds, and it leaves exactly the warehouses asked for, ten districts
  for each with the next order number 3001, orders 1 to 3000 in each district, and the
  orders from 2100 on listed as undelivered.
\<close>

theorem tpcc_loaded:
  assumes "tpcc_laws tp" and "outcome (TPCC_InitDatabase tp ld n) Map.empty = (c, db)"
  shows "c = Some 0 \<and>
    (\<forall>w. warehouses (tables_of tp db) w \<noteq> None \<longleftrightarrow> 1 \<le> w \<and> w \<le> int n) \<and>
    (\<forall>w d. map_option d_next_o_id (districts (tables_of tp db) (w, d)) =
      (if 1 \<le> w \<and> w \<le> int n \<and> 1 \<le> d \<and> d \<le> 10 then Some 3001 else None)) \<and>
    (\<forall>w d oid. orders (tables_of tp db) (w, d, oid) \<noteq> None \<longleftrightarrow>
      1 \<le> w \<and> w \<le> int n \<and> 1 \<le> d \<and> d \<le> 10 \<and> 1 \<le> oid \<and> oid \<le> 3000) \<and>
    (\<forall>w d oid. new_orders (tables_of tp db) (w, d, oid) \<noteq> None \<longleftrightarrow>
      1 \<le> w \<and> w \<le> int n \<and> 1 \<le> d \<and> d \<le> 10 \<and> 2100 \<le> oid \<and> oid \<le> 3000)"
proof -
  have "c = Some 0" "tables_of tp db = load_effect tp ld n (tables_of tp Map.empty)"
    using runs_to_implements[OF InitDatabase_runs[OF assms(1)], of Map.empty ld n]
    by (simp_all add: implements_txn_def assms(2))
  then show ?thesis
    by (simp add: load_tables empty_tables DISTRICT_COUNT_def per_district_def district_value_def)
qed

theorem tpcc_loaded_witness:
  "fst (outcome (TPCC_InitDatabase demo_tpcc demo_load 2) Map.empty) = Some 0 \<and>
   new_orders (tables_of demo_tpcc (snd (outcome (TPCC_InitDatabase demo_tpcc demo_load 2) Map.empty)))
     (2, 10, 2100) \<noteq> None"
proof -
  obtain c db where "outcome (TPCC_InitDatabase demo_tpcc demo_load 2) Map.empty = (c, db)" by fastforce
  with tpcc_loaded[OF tpcc_laws_demo this] show ?thesis by simp
qed

text \<open>
  the index of last names mixes the districts. The map of the customers by last name
  is not cleared between the districts of a warehouse, so that the row of a district
  names the middle one of the customers with that last name in this and in all districts
  before it.
\<close>

theorem customer_index_mixes:
  assumes "tpcc_laws tp" and "0 \<le> p" and "1 \<le> i" and "i \<le> n"
    and "concat (map (\<lambda>d. named tp ld p d l) [1..i]) \<noteq> []"
  shows "customer_index (tables_of tp (snd (outcome (initCustomer tp ld n p (Return 0)) db)))
      (p + 1, i, Varchar_of (memory ld) l) =
    Some \<lparr>wdl_c_id = middle_customer (concat (map (\<lambda>d. named tp ld p d l) [1..i]))\<rparr>"
proof -
  have "runs_to tp db (run_writes (initCustomer tp ld n p (Return 0)) db [])
      (Commit (customer_effect tp ld p [1..n] [] (tables_of tp db)))"
    using does_initCustomer[of tp p n db ld, unfolded does_def, rule_format, OF assms(1,2) _ sim_Nil,
        of "Return 0" "Commit (customer_effect tp ld p [1..n] [] (tables_of tp db))"] assms(3,4)
    by (simp add: runs_to_def)
  from runs_to_implements[OF this] show ?thesis
    using customer_index_row[OF assms(3-5)] by (simp add: implements_txn_def)
qed

theorem customer_index_mixes_witness:
  "customer_index (tables_of demo_tpcc (snd (outcome (initCustomer demo_tpcc demo_load 10 0 (Return 0)) Map.empty)))
      (1, 2, Varchar_of (memory demo_load) ''BARBARBAR'') =
    Some \<lparr>wdl_c_id = middle_customer
      (named demo_tpcc demo_load 0 1 ''BARBARBAR'' @ named demo_tpcc demo_load 0 2 ''BARBARBAR'')\<rparr>"
proof -
  have "Varchar_toString (c_last (customer_value demo_tpcc demo_load 0 1 1)) = ''BARBARBAR''"
    by (simp add: customer_value_def Let_def GenerateLastName_def lastNames_def)
  then have "named demo_tpcc demo_load 0 1 ''BARBARBAR'' \<noteq> []"
    by (force simp: named_def filter_empty_conv per_district_def simp del: upto_rec_numeral)
  moreover have "[1..2::int] = [1, 2]" by (simp add: upto_rec1)
  ultimately show ?thesis
    using customer_index_mixes[OF tpcc_laws_demo, of 0 2 10 demo_load "''BARBARBAR''" Map.empty] by simp
qed

end
