(* ===== verification/BlockOrder.thy ===== *)
theory BlockOrder
  imports Prelude "HOL-Library.While_Combinator"
begin

text \<open>
  The order of blocks across groups, \<^verbatim>\<open>block_order/interchain_order_manager.h\<close>.

  Every group proposes a chain of blocks. A decision \<open>(g, b, v, w)\<close> says that group \<open>v\<close>
  saw block \<open>b\<close> of group \<open>g\<close> when its own clock, its watermark, stood at \<open>w\<close>. The manager
  collects the watermarks of a block in a cell and delivers the blocks in the
  lexicographic order of their watermark vectors. It delivers the smallest undelivered
  block as soon as the known watermarks, together with lower bounds for the unknown ones,
  show that no other block can become smaller.

  A cell is addressed by its group and its position in the chain of the group, which
  stands for the pointer in the code. A failed \<^verbatim>\<open>CHECK\<close>, which ends the process, is
  \<open>Inl CheckFailed\<close>; a loop that never ends is \<^const>\<open>None\<close>.
\<close>

section \<open>Cells\<close>

datatype fault = CheckFailed

definition INVALID_WATERMARK :: int where "INVALID_WATERMARK = -1"

record Cell =
  cell_groupId :: nat
  cell_blockId :: nat
  watermarks :: "int list"
  is_real :: "bool list"

text \<open>\<^verbatim>\<open>setIthWaterMark\<close> returns false, and changes nothing, for a watermark already known.\<close>

definition setIthWaterMark :: "nat \<Rightarrow> int \<Rightarrow> Cell \<Rightarrow> fault + bool \<times> Cell" where
  "setIthWaterMark i v c =
     (if is_real c ! i then Inr (False, c)
      else if \<not> watermarks c ! i \<le> v then Inl CheckFailed
      else Inr (True, c\<lparr>is_real := (is_real c)[i := True], watermarks := (watermarks c)[i := v]\<rparr>))"

definition new_Cell :: "nat \<Rightarrow> nat \<Rightarrow> nat \<Rightarrow> Cell" where
  "new_Cell groupCount g b =
     \<lparr>cell_groupId = g, cell_blockId = b,
      watermarks = (replicate groupCount INVALID_WATERMARK)[g := int b],
      is_real = (replicate groupCount False)[g := True]\<rparr>"

text \<open>The loop of \<^verbatim>\<open>mustLessThan\<close> from index \<open>i\<close>; \<open>k\<close> indices are left.\<close>

fun less_from :: "nat \<Rightarrow> nat \<Rightarrow> Cell \<Rightarrow> Cell \<Rightarrow> bool" where
  "less_from 0 i l r =
     (if cell_blockId l \<noteq> cell_blockId r then cell_blockId l < cell_blockId r
      else cell_groupId l < cell_groupId r)"
| "less_from (Suc k) i l r =
     (if is_real l ! i then
        (if watermarks l ! i < watermarks r ! i then True
         else if is_real r ! i \<and> watermarks l ! i = watermarks r ! i then less_from k (Suc i) l r
         else False)
      else False)"

text \<open>
  Two cells of the buffer with the same group and block are the same cell, as the
  \<^verbatim>\<open>CHECK\<close> in the code demands: a group has one entry in the buffer.
\<close>

definition mustLessThan :: "Cell \<Rightarrow> Cell \<Rightarrow> bool" where
  "mustLessThan l r =
     (if cell_groupId l = cell_groupId r \<and> cell_blockId l = cell_blockId r then True
      else less_from (length (watermarks l)) 0 l r)"

section \<open>The manager\<close>

record Chain =
  height :: int
  cells :: "Cell list"

type_synonym cell_ptr = "nat \<times> nat"

text \<open>
  \<open>delivered\<close> records the calls of the delivery callback. \<open>invalid\<close> is the set of groups
  with \<^verbatim>\<open>isInvalid\<close> in the map of the buffer.
\<close>

record Manager =
  chains :: "Chain list"
  buffer :: "cell_ptr list"
  invalid :: "nat list"
  delivered :: "(nat \<times> nat) list"

definition cell_at :: "Manager \<Rightarrow> cell_ptr \<Rightarrow> Cell" where
  "cell_at m p = cells (chains m ! fst p) ! snd p"

definition set_cell :: "cell_ptr \<Rightarrow> Cell \<Rightarrow> Manager \<Rightarrow> Manager" where
  "set_cell p c m =
     m\<lparr>chains := (chains m)[fst p := (chains m ! fst p)\<lparr>cells := (cells (chains m ! fst p))[snd p := c]\<rparr>]\<rparr>"

text \<open>New cells get the requested block number, whatever their position is.\<close>

definition createBlockIfNotExist :: "nat \<Rightarrow> nat \<Rightarrow> Manager \<Rightarrow> fault + cell_ptr \<times> Manager" where
  "createBlockIfNotExist g b m =
     (if \<not> g < length (chains m) then Inl CheckFailed
      else
        (let ch = chains m ! g;
             new = replicate (Suc b - length (cells ch)) (new_Cell (length (chains m)) g b)
         in Inr ((g, b), m\<lparr>chains := (chains m)[g := ch\<lparr>cells := cells ch @ new\<rparr>]\<rparr>)))"

section \<open>The buffer of the next undelivered blocks\<close>

definition buffer_push :: "cell_ptr \<Rightarrow> Manager \<Rightarrow> fault + Manager" where
  "buffer_push p m =
     (if cell_groupId (cell_at m p) \<noteq> length (buffer m) then Inl CheckFailed
      else Inr (m\<lparr>buffer := buffer m @ [p]\<rparr>))"

definition globalMinimum :: "Manager \<Rightarrow> cell_ptr option" where
  "globalMinimum m =
     find (\<lambda>l. list_all (\<lambda>r. mustLessThan (cell_at m l) (cell_at m r)) (buffer m)) (buffer m)"

text \<open>
  \<^verbatim>\<open>exchange\<close>: the lower bounds of the next cell are taken over from the previous one,
  then the watermarks of invalidated groups are fixed.
\<close>

fun inherit :: "nat \<Rightarrow> Cell \<Rightarrow> Cell \<Rightarrow> fault + Cell" where
  "inherit 0 prev c = Inr c"
| "inherit (Suc i) prev c =
     (case inherit i prev c of
        Inl e \<Rightarrow> Inl e
      | Inr c' \<Rightarrow>
          if is_real c' ! i then
            (if watermarks prev ! i \<le> watermarks c' ! i then Inr c' else Inl CheckFailed)
          else Inr (c'\<lparr>watermarks := (watermarks c')[i := watermarks prev ! i]\<rparr>))"

definition fix_invalid :: "Cell \<Rightarrow> nat \<Rightarrow> Cell \<Rightarrow> Cell" where
  "fix_invalid prev g c =
     c\<lparr>watermarks := (watermarks c)[g := watermarks prev ! g], is_real := (is_real c)[g := True]\<rparr>"

definition exchange :: "cell_ptr \<Rightarrow> cell_ptr \<Rightarrow> Manager \<Rightarrow> fault + Manager" where
  "exchange p n m =
     (let prev = cell_at m p; next = cell_at m n in
      if buffer m ! cell_groupId prev \<noteq> p \<or>
         int (cell_blockId prev) \<noteq> int (cell_blockId next) - 1 \<or>
         cell_groupId prev \<noteq> cell_groupId next \<or>
         length (watermarks prev) \<noteq> length (watermarks next)
      then Inl CheckFailed
      else
        (case inherit (length (watermarks prev)) prev next of
           Inl e \<Rightarrow> Inl e
         | Inr c \<Rightarrow>
             Inr (set_cell n (fold (fix_invalid prev) (invalid m) c)
                    (m\<lparr>buffer := (buffer m)[cell_groupId next := n]\<rparr>))))"

text \<open>A new watermark of a group is a lower bound for all heads that have none of it yet.\<close>

fun update_heads :: "cell_ptr list \<Rightarrow> nat \<Rightarrow> int \<Rightarrow> Manager \<Rightarrow> fault + Manager" where
  "update_heads [] g w m = Inr m"
| "update_heads (p # ps) g w m =
     (let c = cell_at m p in
      if is_real c ! g then update_heads ps g w m
      else if cell_groupId c = g \<or> \<not> watermarks c ! g \<le> w then Inl CheckFailed
      else update_heads ps g w (set_cell p (c\<lparr>watermarks := (watermarks c)[g := w]\<rparr>) m))"

definition updateEstimate :: "nat \<Rightarrow> int \<Rightarrow> Manager \<Rightarrow> fault + Manager" where
  "updateEstimate g w m = update_heads (buffer m) g w m"

fun invalidate_heads :: "cell_ptr list \<Rightarrow> nat \<Rightarrow> int \<Rightarrow> Manager \<Rightarrow> fault + Manager" where
  "invalidate_heads [] g h m = Inr m"
| "invalidate_heads (p # ps) g h m =
     (let c = cell_at m p in
      if \<not> watermarks c ! g \<le> h then Inl CheckFailed
      else invalidate_heads ps g h (set_cell p (c\<lparr>is_real := (is_real c)[g := True]\<rparr>) m))"

definition buffer_invalidateChain :: "nat \<Rightarrow> int \<Rightarrow> Manager \<Rightarrow> fault + Manager" where
  "buffer_invalidateChain g h m =
     (if g \<in> set (invalid m) then Inr m
      else invalidate_heads (buffer m) g h (m\<lparr>invalid := invalid m @ [g]\<rparr>))"

section \<open>Delivery\<close>

definition deliver :: "cell_ptr \<Rightarrow> Manager \<Rightarrow> Manager" where
  "deliver p m =
     m\<lparr>delivered := delivered m @ [(cell_groupId (cell_at m p), cell_blockId (cell_at m p))]\<rparr>"

text \<open>One turn of the loop of \<^verbatim>\<open>popBlocks\<close>, with the minimum \<open>p\<close>.\<close>

definition pop_one :: "cell_ptr \<Rightarrow> Manager \<Rightarrow> fault + Manager" where
  "pop_one p m =
     (let prev = cell_at m p in
      case createBlockIfNotExist (cell_groupId prev) (Suc (cell_blockId prev)) (deliver p m) of
        Inl e \<Rightarrow> Inl e
      | Inr (n, m') \<Rightarrow> exchange p n m')"

definition can_pop :: "fault + Manager \<Rightarrow> bool" where
  "can_pop r = (case r of Inl _ \<Rightarrow> False | Inr m \<Rightarrow> globalMinimum m \<noteq> None)"

definition pop_next :: "fault + Manager \<Rightarrow> fault + Manager" where
  "pop_next r =
     (case r of Inl e \<Rightarrow> Inl e
      | Inr m \<Rightarrow> (case globalMinimum m of None \<Rightarrow> Inr m | Some p \<Rightarrow> pop_one p m))"

definition popBlocks :: "Manager \<Rightarrow> (fault + Manager) option" where
  "popBlocks m = while_option can_pop pop_next (Inr m)"

definition raise_height :: "nat \<Rightarrow> int \<Rightarrow> Manager \<Rightarrow> Manager" where
  "raise_height g h m =
     m\<lparr>chains := (chains m)[g := (chains m ! g)\<lparr>height := max (height (chains m ! g)) h\<rparr>]\<rparr>"

text \<open>
  The decision of a group about its own block is not used: that watermark is known from
  the start. An index of a voting group beyond the vectors is undefined behaviour in the
  code and counts as a failure.
\<close>

definition pushDecision :: "nat \<Rightarrow> nat \<Rightarrow> nat \<Rightarrow> int \<Rightarrow> Manager \<Rightarrow> (fault + Manager) option" where
  "pushDecision g b v w m =
     (if length (chains m) = 1 then
        Some (case createBlockIfNotExist g b m of Inl e \<Rightarrow> Inl e | Inr (p, m') \<Rightarrow> Inr (deliver p m'))
      else if v = g then Some (Inr m)
      else if \<not> v < length (chains m) then Some (Inl CheckFailed)
      else
        (case createBlockIfNotExist g b m of
           Inl e \<Rightarrow> Some (Inl e)
         | Inr (p, m1) \<Rightarrow>
             (case setIthWaterMark v w (cell_at m1 p) of
                Inl e \<Rightarrow> Some (Inl e)
              | Inr (False, _) \<Rightarrow> Some (Inr m1)
              | Inr (True, c) \<Rightarrow>
                  (case updateEstimate v w (raise_height g (int b) (raise_height v w (set_cell p c m1))) of
                     Inl e \<Rightarrow> Some (Inl e)
                   | Inr m2 \<Rightarrow> popBlocks m2))))"

definition manager_invalidateChain :: "nat \<Rightarrow> Manager \<Rightarrow> (fault + Manager) option" where
  "manager_invalidateChain g m =
     (case buffer_invalidateChain g (height (chains m ! g)) m of
        Inl e \<Rightarrow> Some (Inl e)
      | Inr m' \<Rightarrow> popBlocks m')"

text \<open>\<^verbatim>\<open>setGroupCount\<close>: one empty chain per group and its first block as head.\<close>

fun init_heads :: "nat list \<Rightarrow> Manager \<Rightarrow> fault + Manager" where
  "init_heads [] m = Inr m"
| "init_heads (g # gs) m =
     (case createBlockIfNotExist g 0 m of
        Inl e \<Rightarrow> Inl e
      | Inr (p, m') \<Rightarrow>
          (case buffer_push p m' of Inl e \<Rightarrow> Inl e | Inr m'' \<Rightarrow> init_heads gs m''))"

definition setGroupCount :: "nat \<Rightarrow> fault + Manager" where
  "setGroupCount n =
     init_heads [0..<n]
       \<lparr>chains = replicate n \<lparr>height = -1, cells = []\<rparr>, buffer = [], invalid = [], delivered = []\<rparr>"

text \<open>A sequence of decisions.\<close>

type_synonym decision = "nat \<times> nat \<times> nat \<times> int"

fun pushAll :: "decision list \<Rightarrow> Manager \<Rightarrow> (fault + Manager) option" where
  "pushAll [] m = Some (Inr m)"
| "pushAll ((g, b, v, w) # ds) m =
     (case pushDecision g b v w m of
        None \<Rightarrow> None
      | Some (Inl e) \<Rightarrow> Some (Inl e)
      | Some (Inr m') \<Rightarrow> pushAll ds m')"

end
