(* ===== verification/BlockOrderCorrect.thy ===== *)
theory BlockOrderCorrect
  imports BlockOrder "HOL-Library.Extended_Nat" "HOL-Library.List_Lexorder" "HOL-Library.Product_Lexorder"
    "HOL-Library.Sublist"
begin

text \<open>
  Correctness of the order of blocks across groups. The votes that the groups will ever
  cast determine a total order of all blocks; the manager delivers an initial segment of
  that order, whatever the interleaving in which the votes of different groups arrive.
\<close>

section \<open>The order that the votes determine\<close>

text \<open>A watermark as an extended number; a vote that is never cast is infinite.\<close>

definition ext :: "int \<Rightarrow> enat" where
  "ext w = enat (nat (w + 1))"

lemma ext_less [simp]: "-1 \<le> a \<Longrightarrow> -1 \<le> b \<Longrightarrow> ext a < ext b \<longleftrightarrow> a < b"
  by (auto simp: ext_def)

lemma ext_le [simp]: "-1 \<le> a \<Longrightarrow> -1 \<le> b \<Longrightarrow> ext a \<le> ext b \<longleftrightarrow> a \<le> b"
  by (auto simp: ext_def)

lemma ext_eq [simp]: "-1 \<le> a \<Longrightarrow> -1 \<le> b \<Longrightarrow> ext a = ext b \<longleftrightarrow> a = b"
  by (auto simp: ext_def)

lemma ext_bottom [simp]: "ext (-1) = 0"
  by (simp add: ext_def enat_0)

type_synonym final_votes = "nat \<Rightarrow> nat \<Rightarrow> nat \<Rightarrow> enat"

definition block_key :: "nat \<Rightarrow> final_votes \<Rightarrow> nat \<times> nat \<Rightarrow> enat list \<times> nat \<times> nat" where
  "block_key n F x = (map (F (fst x) (snd x)) [0..<n], snd x, fst x)"

text \<open>The own watermark of a block is its number, and votes for later blocks are not smaller.\<close>

definition steady :: "final_votes \<Rightarrow> bool" where
  "steady F \<longleftrightarrow> (\<forall>g b. F g b g = enat (Suc b)) \<and> (\<forall>g b b' v. b \<le> b' \<longrightarrow> F g b v \<le> F g b' v)"

lemma block_key_inject [simp]: "block_key n F x = block_key n F y \<longleftrightarrow> x = y"
  by (auto simp: block_key_def prod_eq_iff)

lemma lex_map_le:
  fixes f f' :: "nat \<Rightarrow> enat"
  assumes "\<forall>v \<in> set vs. f v \<le> f' v"
  shows "map f vs \<le> map f' vs"
  using assms by (induction vs) (auto simp: less_le)

lemma lex_map_less:
  fixes f f' :: "nat \<Rightarrow> enat"
  assumes "\<forall>v \<in> set vs. f v \<le> f' v" and "v \<in> set vs" and "f v < f' v"
  shows "map f vs < map f' vs"
  using assms by (induction vs) (auto simp: less_le lex_map_le)

lemma later_block:
  assumes "steady F" and "g < n" and "b \<le> b'"
  shows "block_key n F (g, b) \<le> block_key n F (g, b')"
proof (cases "b = b'")
  case False
  with assms(3) have "b < b'" by simp
  with assms have "map (F g b) [0..<n] < map (F g b') [0..<n]"
    by (intro lex_map_less[of _ _ _ g]) (auto simp: steady_def)
  then show ?thesis by (simp add: block_key_def less_eq_prod_def)
qed simp

section \<open>The invariant\<close>

text \<open>
  What is known of a cell when voter \<open>v\<close> has voted on the first \<open>cnt v g\<close> blocks of
  group \<open>g\<close>: the known watermarks are the final ones; an unknown one is not above any
  vote that the voter has still to cast.
\<close>

definition cell_ok :: "nat \<Rightarrow> final_votes \<Rightarrow> (nat \<Rightarrow> nat \<Rightarrow> nat) \<Rightarrow> nat \<Rightarrow> nat \<Rightarrow> Cell \<Rightarrow> bool" where
  "cell_ok n F cnt g k c \<longleftrightarrow>
     cell_groupId c = g \<and> cell_blockId c = k \<and> length (watermarks c) = n \<and> length (is_real c) = n \<and>
     (\<forall>v < n. -1 \<le> watermarks c ! v \<and>
        (is_real c ! v \<longleftrightarrow> v = g \<or> k < cnt v g) \<and>
        (is_real c ! v \<longrightarrow> ext (watermarks c ! v) = F g k v) \<and>
        (\<not> is_real c ! v \<longrightarrow> (\<forall>g' b'. g' < n \<longrightarrow> g' \<noteq> v \<longrightarrow> cnt v g' \<le> b' \<longrightarrow> ext (watermarks c ! v) \<le> F g' b' v)))"

lemma cell_okD:
  assumes "cell_ok n F cnt g k c" and "v < n"
  shows "-1 \<le> watermarks c ! v" "is_real c ! v \<longleftrightarrow> v = g \<or> k < cnt v g"
    "is_real c ! v \<Longrightarrow> ext (watermarks c ! v) = F g k v"
    "\<not> is_real c ! v \<Longrightarrow> g' < n \<Longrightarrow> g' \<noteq> v \<Longrightarrow> cnt v g' \<le> b' \<Longrightarrow> ext (watermarks c ! v) \<le> F g' b' v"
    "g < n \<Longrightarrow> ext (watermarks c ! v) \<le> F g k v"
proof -
  show "-1 \<le> watermarks c ! v" and r: "is_real c ! v \<longleftrightarrow> v = g \<or> k < cnt v g"
    and e: "is_real c ! v \<Longrightarrow> ext (watermarks c ! v) = F g k v"
    and u: "\<not> is_real c ! v \<Longrightarrow> g' < n \<Longrightarrow> g' \<noteq> v \<Longrightarrow> cnt v g' \<le> b' \<Longrightarrow> ext (watermarks c ! v) \<le> F g' b' v"
    for g' b'
    using assms by (simp_all add: cell_ok_def)
  show "ext (watermarks c ! v) \<le> F g k v" if "g < n"
    using r e u[of g k] that by (cases "is_real c ! v") auto
qed

lemma cell_ok_fields:
  assumes "cell_ok n F cnt g k c"
  shows "cell_groupId c = g" "cell_blockId c = k" "length (watermarks c) = n" "length (is_real c) = n"
  using assms by (simp_all add: cell_ok_def)

abbreviation cells_of :: "Manager \<Rightarrow> nat \<Rightarrow> Cell list" where
  "cells_of m g \<equiv> cells (chains m ! g)"

abbreviation head :: "Manager \<Rightarrow> nat \<Rightarrow> nat" where
  "head m g \<equiv> snd (buffer m ! g)"

definition cells_inv :: "nat \<Rightarrow> final_votes \<Rightarrow> (nat \<Rightarrow> nat \<Rightarrow> nat) \<Rightarrow> Manager \<Rightarrow> bool" where
  "cells_inv n F cnt m \<longleftrightarrow>
     length (chains m) = n \<and> length (buffer m) = n \<and> invalid m = [] \<and>
     (\<forall>g < n. fst (buffer m ! g) = g \<and> head m g < length (cells_of m g) \<and>
        (\<forall>k < length (cells_of m g). cell_ok n F cnt g k (cells_of m g ! k)) \<and>
        (\<forall>v < n. v \<noteq> g \<longrightarrow> cnt v g \<le> length (cells_of m g)))"

definition delivered_inv :: "nat \<Rightarrow> final_votes \<Rightarrow> Manager \<Rightarrow> bool" where
  "delivered_inv n F m \<longleftrightarrow>
     set (delivered m) = {(g, k). g < n \<and> k < head m g} \<and>
     sorted_wrt (\<lambda>x y. block_key n F x < block_key n F y) (delivered m) \<and>
     (\<forall>x \<in> set (delivered m). \<forall>g < n. \<forall>k. head m g \<le> k \<longrightarrow> block_key n F x < block_key n F (g, k))"

lemma cells_invD:
  assumes "cells_inv n F cnt m" and "g < n"
  shows "length (chains m) = n" "length (buffer m) = n" "buffer m ! g = (g, head m g)"
    "head m g < length (cells_of m g)"
    "k < length (cells_of m g) \<Longrightarrow> cell_ok n F cnt g k (cells_of m g ! k)"
    "v < n \<Longrightarrow> v \<noteq> g \<Longrightarrow> cnt v g \<le> length (cells_of m g)"
  using assms by (auto simp: cells_inv_def prod_eq_iff)

lemma cells_invI:
  assumes "length (chains m) = n" "length (buffer m) = n" "invalid m = []"
    "\<And>g. g < n \<Longrightarrow> fst (buffer m ! g) = g" "\<And>g. g < n \<Longrightarrow> head m g < length (cells_of m g)"
    "\<And>g k. g < n \<Longrightarrow> k < length (cells_of m g) \<Longrightarrow> cell_ok n F cnt g k (cells_of m g ! k)"
    "\<And>g v. g < n \<Longrightarrow> v < n \<Longrightarrow> v \<noteq> g \<Longrightarrow> cnt v g \<le> length (cells_of m g)"
  shows "cells_inv n F cnt m"
  using assms by (simp add: cells_inv_def)

section \<open>A comparison is final\<close>

lemma less_from_key:
  assumes "cell_ok n F cnt g k l" and "cell_ok n F cnt g' k' r" and "g < n" and "g' < n"
    and "less_from j i l r" and "i + j = n"
  shows "(map (F g k) [i..<n], k, g) < (map (F g' k') [i..<n], k', g')"
  using assms(5,6)
proof (induction j arbitrary: i)
  case 0
  then show ?case using assms(1,2) by (auto simp: cell_ok_def split: if_splits)
next
  case (Suc j)
  then have i: "i < n" and upt: "[i..<n] = i # [Suc i..<n]" by (simp_all add: upt_conv_Cons)
  have "is_real l ! i" using Suc.prems(1) by (simp split: if_splits)
  then have l: "-1 \<le> watermarks l ! i" "ext (watermarks l ! i) = F g k i"
    using cell_okD(1,3)[OF assms(1) i] by auto
  have r: "-1 \<le> watermarks r ! i" "ext (watermarks r ! i) \<le> F g' k' i"
    using cell_okD(1,5)[OF assms(2) i] assms(4) by auto
  show ?case
  proof (cases "watermarks l ! i < watermarks r ! i")
    case True
    with l r have "F g k i < F g' k' i" by (metis ext_less less_le_trans)
    then show ?thesis by (simp add: upt less_prod_def)
  next
    case False
    with Suc.prems(1) have "is_real r ! i" "watermarks l ! i = watermarks r ! i" "less_from j (Suc i) l r"
      by (auto split: if_splits)
    then have "F g k i = F g' k' i" using l(2) cell_okD(3)[OF assms(2) i] by simp
    with Suc.IH[of "Suc i"] \<open>less_from j (Suc i) l r\<close> Suc.prems(2) show ?thesis
      by (auto simp: upt less_prod_def)
  qed
qed

lemma mustLessThan_key:
  assumes "cell_ok n F cnt g k l" and "cell_ok n F cnt g' k' r" and "g < n" and "g' < n"
    and "mustLessThan l r" and "(g, k) \<noteq> (g', k')"
  shows "block_key n F (g, k) < block_key n F (g', k')"
proof -
  have "less_from n 0 l r"
    using assms by (auto simp: mustLessThan_def cell_ok_def split: if_splits)
  from less_from_key[OF assms(1-4) this] show ?thesis by (simp add: block_key_def)
qed

lemma head_cell:
  assumes "cells_inv n F cnt m" and "g < n"
  shows "cell_at m (buffer m ! g) = cells_of m g ! head m g"
    and "cell_ok n F cnt g (head m g) (cells_of m g ! head m g)"
  using cells_invD(3-5)[OF assms] by (simp_all add: cell_at_def prod_eq_iff)

text \<open>The cell that is popped is a head, and it precedes every block not yet delivered.\<close>

lemma globalMinimum_head:
  assumes "cells_inv n F cnt m" and "globalMinimum m = Some p"
  obtains g where "g < n" "p = (g, head m g)"
    "\<forall>g' < n. mustLessThan (cells_of m g ! head m g) (cells_of m g' ! head m g')"
proof -
  have p: "p \<in> set (buffer m)" "list_all (\<lambda>r. mustLessThan (cell_at m p) (cell_at m r)) (buffer m)"
    using assms(2) by (auto simp: globalMinimum_def find_Some_iff)
  then obtain g where g: "g < n" "p = buffer m ! g"
    using assms(1) by (auto simp: cells_inv_def in_set_conv_nth)
  have "mustLessThan (cells_of m g ! head m g) (cells_of m g' ! head m g')" if "g' < n" for g'
    using p(2) g head_cell(1)[OF assms(1)] that assms(1) by (auto simp: list_all_length cells_inv_def)
  with g that cells_invD(3)[OF assms(1) g(1)] show ?thesis by simp
qed

lemma minimum_precedes:
  assumes "steady F" and "cells_inv n F cnt m" and "g < n"
    and "\<forall>g' < n. mustLessThan (cells_of m g ! head m g) (cells_of m g' ! head m g')"
    and "g' < n" and "head m g' \<le> k" and "(g', k) \<noteq> (g, head m g)"
  shows "block_key n F (g, head m g) < block_key n F (g', k)"
proof (cases "g' = g")
  case True
  with later_block[OF assms(1,3), of "head m g" k] assms(6,7) show ?thesis by (auto simp: less_le)
next
  case False
  have "block_key n F (g, head m g) < block_key n F (g', head m g')"
    using False assms(3-5)
    by (intro mustLessThan_key[OF head_cell(2)[OF assms(2,3)] head_cell(2)[OF assms(2,5)]]) auto
  also have "\<dots> \<le> block_key n F (g', k)" by (rule later_block[OF assms(1,5,6)])
  finally show ?thesis .
qed

section \<open>The operations keep the invariant\<close>

lemma set_cell_simps [simp]:
  "length (chains (set_cell p c m)) = length (chains m)" "buffer (set_cell p c m) = buffer m"
  "invalid (set_cell p c m) = invalid m" "delivered (set_cell p c m) = delivered m"
  "g < length (chains m) \<Longrightarrow> cells_of (set_cell p c m) g = (if g = fst p then (cells_of m g)[snd p := c] else cells_of m g)"
  by (auto simp: set_cell_def nth_list_update)

lemma raise_height_simps [simp]:
  "length (chains (raise_height g h m)) = length (chains m)" "buffer (raise_height g h m) = buffer m"
  "invalid (raise_height g h m) = invalid m" "delivered (raise_height g h m) = delivered m"
  "cells_of (raise_height g h m) g' = cells_of m g'"
proof -
  show "cells_of (raise_height g h m) g' = cells_of m g'"
    by (cases "g < length (chains m)") (auto simp: raise_height_def nth_list_update list_update_beyond)
qed (simp_all add: raise_height_def)

lemma deliver_simps [simp]:
  "chains (deliver p m) = chains m" "buffer (deliver p m) = buffer m" "invalid (deliver p m) = invalid m"
  "cell_at (deliver p m) q = cell_at m q"
  by (simp_all add: deliver_def cell_at_def)

lemma cells_inv_cong:
  assumes "length (chains m') = length (chains m)" "buffer m' = buffer m" "invalid m' = invalid m"
    "\<And>g. g < length (chains m) \<Longrightarrow> cells_of m' g = cells_of m g"
  shows "cells_inv n F cnt m' = cells_inv n F cnt m"
  using assms by (auto simp: cells_inv_def)

lemma delivered_inv_cong:
  assumes "buffer m' = buffer m" "delivered m' = delivered m"
  shows "delivered_inv n F m' = delivered_inv n F m"
  using assms by (simp add: delivered_inv_def)

lemma cells_inv_set:
  assumes "cells_inv n F cnt m" and "g < n" and "k < length (cells_of m g)" and "cell_ok n F cnt g k c"
  shows "cells_inv n F cnt (set_cell (g, k) c m)"
  using assms by (auto simp: cells_inv_def nth_list_update)

lemma new_Cell_ok:
  assumes "\<forall>v < n. v \<noteq> g \<longrightarrow> cnt v g \<le> b" and "g < n" and "steady F"
  shows "cell_ok n F cnt g b (new_Cell n g b)"
proof -
  have "ext (int b) = F g b g"
    using assms(3) by (simp add: ext_def steady_def nat_add_distrib)
  with assms(1,2) show ?thesis
    by (auto simp: cell_ok_def new_Cell_def nth_list_update INVALID_WATERMARK_def)
qed

lemma create_ok:
  assumes "cells_inv n F cnt m" and "steady F" and "g < n" and "b \<le> length (cells_of m g)"
  obtains m' where "createBlockIfNotExist g b m = Inr ((g, b), m')" "cells_inv n F cnt m'"
    "b < length (cells_of m' g)" "buffer m' = buffer m" "delivered m' = delivered m"
    "\<And>g'. g' < n \<Longrightarrow> cells_of m' g' = cells_of m g' \<or> cells_of m' g' = cells_of m g' @ [new_Cell n g' b]"
    "\<And>k. k < length (cells_of m g) \<Longrightarrow> cells_of m' g ! k = cells_of m g ! k"
proof (cases "b < length (cells_of m g)")
  case True
  then have "createBlockIfNotExist g b m = Inr ((g, b), m)"
    using assms(1,3) by (simp add: createBlockIfNotExist_def cells_inv_def Let_def)
  from that[OF this assms(1) True] show ?thesis by simp
next
  case False
  with assms(4) have len: "length (cells_of m g) = b" by simp
  let ?ch = "(chains m ! g)\<lparr>cells := cells_of m g @ [new_Cell n g b]\<rparr>"
  let ?m = "m\<lparr>chains := (chains m)[g := ?ch]\<rparr>"
  have "createBlockIfNotExist g b m = Inr ((g, b), ?m)"
    using assms(1,3) len by (simp add: createBlockIfNotExist_def cells_inv_def Let_def)
  moreover have new: "cell_ok n F cnt g b (new_Cell n g b)"
    using cells_invD(6)[OF assms(1,3)] len assms(2,3) by (intro new_Cell_ok) auto
  moreover have cells: "cells_of ?m g' = (if g' = g then cells_of m g @ [new_Cell n g b] else cells_of m g')"
    if "g' < n" for g'
    using that assms(1) by (auto simp: cells_inv_def nth_list_update)
  moreover have "cells_inv n F cnt ?m"
    using assms(1) new len cells unfolding cells_inv_def
    by (auto simp: nth_append less_Suc_eq intro: le_SucI)
  ultimately show ?thesis using that[of ?m] assms(3) len by (auto simp: nth_append)
qed

text \<open>What a cell inherits from its predecessor.\<close>

definition bounds_upto :: "nat \<Rightarrow> Cell \<Rightarrow> Cell \<Rightarrow> int list" where
  "bounds_upto j prev c =
     map (\<lambda>i. if i < j \<and> \<not> is_real c ! i then watermarks prev ! i else watermarks c ! i) [0..<length (is_real c)]"

lemma bounds_upto_nth [simp]:
  "i < length (is_real c) \<Longrightarrow>
     bounds_upto j prev c ! i = (if i < j \<and> \<not> is_real c ! i then watermarks prev ! i else watermarks c ! i)"
  "length (bounds_upto j prev c) = length (is_real c)"
  by (simp_all add: bounds_upto_def)

lemma bounds_upto_0: "length (watermarks c) = length (is_real c) \<Longrightarrow> bounds_upto 0 prev c = watermarks c"
  by (rule nth_equalityI) simp_all

lemma bounds_upto_Suc:
  assumes "j < length (is_real c)"
  shows "bounds_upto (Suc j) prev c =
     (if is_real c ! j then bounds_upto j prev c else (bounds_upto j prev c)[j := watermarks prev ! j])"
  by (rule nth_equalityI) (auto simp: nth_list_update less_Suc_eq)

lemma inherit_ok:
  assumes "length (watermarks c) = length (is_real c)" and "j \<le> length (is_real c)"
    and "\<forall>i < j. is_real c ! i \<longrightarrow> watermarks prev ! i \<le> watermarks c ! i"
  shows "inherit j prev c = Inr (c\<lparr>watermarks := bounds_upto j prev c\<rparr>)"
  using assms(2,3)
proof (induction j)
  case 0
  then show ?case using bounds_upto_0[OF assms(1), of prev] by simp
next
  case (Suc j)
  then have IH: "inherit j prev c = Inr (c\<lparr>watermarks := bounds_upto j prev c\<rparr>)" and j: "j < length (is_real c)"
    by simp_all
  show ?case
  proof (cases "is_real c ! j")
    case True
    with Suc.prems(2) j have "watermarks prev ! j \<le> bounds_upto j prev c ! j" by simp
    with True show ?thesis by (simp add: IH bounds_upto_Suc[OF j])
  next
    case False
    then show ?thesis by (simp add: IH bounds_upto_Suc[OF j])
  qed
qed

text \<open>Votes already cast are not above those still to come.\<close>

definition cast_first :: "nat \<Rightarrow> final_votes \<Rightarrow> (nat \<Rightarrow> nat \<Rightarrow> nat) \<Rightarrow> bool" where
  "cast_first n F cnt \<longleftrightarrow>
     (\<forall>v < n. \<forall>g < n. \<forall>g' < n. \<forall>b b'. g \<noteq> v \<longrightarrow> g' \<noteq> v \<longrightarrow> b < cnt v g \<longrightarrow> cnt v g' \<le> b' \<longrightarrow> F g b v \<le> F g' b' v)"

lemma inherited_ok:
  assumes "cast_first n F cnt" and "steady F" and "g < n"
    and "cell_ok n F cnt g k prev" and "cell_ok n F cnt g (Suc k) c"
  shows "\<forall>i < n. is_real c ! i \<longrightarrow> watermarks prev ! i \<le> watermarks c ! i"
    and "cell_ok n F cnt g (Suc k) (c\<lparr>watermarks := bounds_upto n prev c\<rparr>)"
proof -
  have "watermarks prev ! i \<le> watermarks c ! i" if "i < n" "is_real c ! i" for i
  proof -
    have "is_real prev ! i" using that cell_okD(2)[OF assms(4), of i] cell_okD(2)[OF assms(5), of i] by auto
    then have "ext (watermarks prev ! i) \<le> ext (watermarks c ! i)"
      using that cell_okD(3)[OF assms(4)] cell_okD(3)[OF assms(5)] assms(2) by (simp add: steady_def)
    then show ?thesis using cell_okD(1)[OF assms(4) that(1)] cell_okD(1)[OF assms(5) that(1)] by simp
  qed
  then show "\<forall>i < n. is_real c ! i \<longrightarrow> watermarks prev ! i \<le> watermarks c ! i" by blast
  have low: "ext (watermarks prev ! v) \<le> F g' b' v"
    if "v < n" "\<not> is_real c ! v" "g' < n" "g' \<noteq> v" "cnt v g' \<le> b'" for v g' b'
  proof (cases "is_real prev ! v")
    case True
    with that(1,2) cell_okD(2)[OF assms(4) that(1)] cell_okD(2)[OF assms(5) that(1)] have "g \<noteq> v" "k < cnt v g"
      by auto
    with assms(1,3) that have "F g k v \<le> F g' b' v" unfolding cast_first_def by blast
    with True cell_okD(3)[OF assms(4) that(1)] show ?thesis by simp
  next
    case False
    then show ?thesis using cell_okD(4)[OF assms(4) that(1)] that by blast
  qed
  show "cell_ok n F cnt g (Suc k) (c\<lparr>watermarks := bounds_upto n prev c\<rparr>)"
    using cell_ok_fields[OF assms(5)] cell_okD[OF assms(5)] cell_okD(1)[OF assms(4)] low
    by (auto simp: cell_ok_def)
qed

text \<open>A bound on the first watermark of the cells of the other groups, for termination.\<close>

definition first_bounded :: "nat \<Rightarrow> int \<Rightarrow> Manager \<Rightarrow> bool" where
  "first_bounded n C m \<longleftrightarrow> -1 \<le> C \<and> (\<forall>g < n. g \<noteq> 0 \<longrightarrow> (\<forall>c \<in> set (cells_of m g). watermarks c ! 0 \<le> C))"

lemma exchange_ok:
  assumes "cells_inv n F cnt m" and "steady F" and "cast_first n F cnt" and "g < n"
    and "Suc (head m g) < length (cells_of m g)"
  defines "c \<equiv> (cells_of m g ! Suc (head m g))\<lparr>watermarks :=
      bounds_upto n (cells_of m g ! head m g) (cells_of m g ! Suc (head m g))\<rparr>"
  defines "m' \<equiv> set_cell (g, Suc (head m g)) c (m\<lparr>buffer := (buffer m)[g := (g, Suc (head m g))]\<rparr>)"
  shows "exchange (g, head m g) (g, Suc (head m g)) m = Inr m'" and "cells_inv n F cnt m'"
    and "first_bounded n C m \<Longrightarrow> first_bounded n C m'"
proof -
  let ?prev = "cells_of m g ! head m g" and ?next = "cells_of m g ! Suc (head m g)"
  have prev: "cell_ok n F cnt g (head m g) ?prev" by (rule head_cell(2)[OF assms(1,4)])
  have nxt: "cell_ok n F cnt g (Suc (head m g)) ?next" by (rule cells_invD(5)[OF assms(1,4,5)])
  note fields = cell_ok_fields[OF prev] cell_ok_fields[OF nxt]
  note inh = inherited_ok[OF assms(3,2,4) prev nxt]
  have "inherit n ?prev ?next = Inr c"
    unfolding c_def using fields inh(1) by (intro inherit_ok) simp_all
  moreover have "invalid m = []" using assms(1) by (simp add: cells_inv_def)
  ultimately have "exchange (buffer m ! g) (g, Suc (head m g)) m = Inr m'"
    using fields by (simp add: exchange_def head_cell(1)[OF assms(1,4)] cell_at_def[of m "(g, k)" for k] Let_def m'_def)
  then show "exchange (g, head m g) (g, Suc (head m g)) m = Inr m'"
    by (simp only: cells_invD(3)[OF assms(1,4), symmetric])
  have "cells_inv n F cnt (m\<lparr>buffer := (buffer m)[g := (g, Suc (head m g))]\<rparr>)"
    using assms(1,4,5) by (auto simp: cells_inv_def nth_list_update)
  then show "cells_inv n F cnt m'"
    unfolding m'_def using inh(2) assms(4,5) by (intro cells_inv_set) (simp_all add: c_def)
  assume C: "first_bounded n C m"
  have "watermarks c ! 0 \<le> C" if "g \<noteq> 0"
  proof -
    have "?prev \<in> set (cells_of m g)" "?next \<in> set (cells_of m g)" using assms(5) by simp_all
    with C that assms(4) have "watermarks ?prev ! 0 \<le> C" "watermarks ?next ! 0 \<le> C"
      by (auto simp: first_bounded_def)
    with fields assms(4) show ?thesis by (simp add: c_def)
  qed
  with C assms(1) show "first_bounded n C m'"
    by (auto simp: first_bounded_def m'_def cells_inv_def dest!: set_update_subset_insert[THEN subsetD])
qed

lemma delivered_next:
  assumes "steady F" and "cells_inv n F cnt m" and "delivered_inv n F m" and "g < n"
    and "\<forall>g' < n. mustLessThan (cells_of m g ! head m g) (cells_of m g' ! head m g')"
    and "buffer m' = (buffer m)[g := (g, Suc (head m g))]"
    and "delivered m' = delivered m @ [(g, head m g)]"
  shows "delivered_inv n F m'"
proof -
  have h: "head m' g' = (if g' = g then Suc (head m g) else head m g')" if "g' < n" for g'
    using assms(2,4,6) that by (simp add: cells_inv_def nth_list_update)
  have old: "head m g' \<le> k" if "g' < n" "head m' g' \<le> k" for g' k
    using h[OF that(1)] that(2) by (auto split: if_splits)
  have first: "block_key n F (g, head m g) < block_key n F (g', k)" if "g' < n" "head m' g' \<le> k" for g' k
    using h[OF that(1)] that(2)
    by (intro minimum_precedes[OF assms(1,2,4,5) that(1) old[OF that]]) (auto split: if_splits)
  have "set (delivered m') = {(g', k). g' < n \<and> k < head m' g'}"
  proof -
    have "set (delivered m') = {(g', k). g' < n \<and> k < head m g'} \<union> {(g, head m g)}"
      using assms(3,7) by (auto simp: delivered_inv_def)
    also have "\<dots> = {(g', k). g' < n \<and> k < head m' g'}"
      using h assms(4) by (auto simp: less_Suc_eq split: if_splits)
    finally show ?thesis .
  qed
  moreover have "sorted_wrt (\<lambda>x y. block_key n F x < block_key n F y) (delivered m')"
    using assms(3,4,7) by (auto simp: delivered_inv_def sorted_wrt_append)
  moreover have "\<forall>x \<in> set (delivered m'). \<forall>g' < n. \<forall>k. head m' g' \<le> k \<longrightarrow> block_key n F x < block_key n F (g', k)"
    using assms(3,7) old first unfolding delivered_inv_def by auto
  ultimately show ?thesis by (simp add: delivered_inv_def)
qed

lemma pop_one_ok:
  assumes "steady F" and "cast_first n F cnt" and "cells_inv n F cnt m" and "delivered_inv n F m" and "g < n"
    and "\<forall>g' < n. mustLessThan (cells_of m g ! head m g) (cells_of m g' ! head m g')"
  obtains m' where "pop_one (g, head m g) m = Inr m'" "cells_inv n F cnt m'" "delivered_inv n F m'"
    "buffer m' = (buffer m)[g := (g, Suc (head m g))]" "\<And>C. first_bounded n C m \<Longrightarrow> first_bounded n C m'"
proof -
  let ?d = "deliver (g, head m g) m"
  note cell = head_cell[OF assms(3,5)] cell_ok_fields[OF head_cell(2)[OF assms(3,5)]]
  have d: "delivered ?d = delivered m @ [(g, head m g)]"
    using cell by (simp add: deliver_def cell_at_def)
  have inv_d: "cells_inv n F cnt ?d" using assms(3) by (subst cells_inv_cong[of ?d m]) simp_all
  have "Suc (head m g) \<le> length (cells_of ?d g)" using cells_invD(4)[OF assms(3,5)] by simp
  then obtain m1 where m1: "createBlockIfNotExist g (Suc (head m g)) ?d = Inr ((g, Suc (head m g)), m1)"
    "cells_inv n F cnt m1" "Suc (head m g) < length (cells_of m1 g)" "buffer m1 = buffer ?d"
    "delivered m1 = delivered ?d"
    "\<And>g'. g' < n \<Longrightarrow> cells_of m1 g' = cells_of ?d g' \<or> cells_of m1 g' = cells_of ?d g' @ [new_Cell n g' (Suc (head m g))]"
    by (rule create_ok[OF inv_d assms(1,5)]) blast
  note m1 = m1[unfolded deliver_simps]
  have h: "head m1 g = head m g" by (simp add: m1(4))
  note ex = exchange_ok[OF m1(2) assms(1,2,5), unfolded h, OF m1(3)]
  define m' where "m' = set_cell (g, Suc (head m g))
      ((cells_of m1 g ! Suc (head m g))\<lparr>watermarks :=
         bounds_upto n (cells_of m1 g ! head m g) (cells_of m1 g ! Suc (head m g))\<rparr>)
      (m1\<lparr>buffer := (buffer m1)[g := (g, Suc (head m g))]\<rparr>)"
  have "pop_one (g, head m g) m = Inr m'"
    using m1(1) ex(1) cell by (simp add: pop_one_def cell_at_def Let_def m'_def)
  moreover have "cells_inv n F cnt m'" using ex(2) by (simp add: m'_def)
  moreover have b: "buffer m' = (buffer m)[g := (g, Suc (head m g))]" by (simp add: m'_def m1(4))
  moreover have "delivered_inv n F m'"
    using delivered_next[OF assms(1,3,4,5,6) b] by (simp add: m'_def m1(5) d)
  moreover have "first_bounded n C m'" if C: "first_bounded n C m" for C
  proof -
    have "first_bounded n C m1"
      unfolding first_bounded_def
    proof (intro conjI allI impI ballI)
      show "-1 \<le> C" using C by (simp add: first_bounded_def)
    next
      fix g' c assume g': "g' < n" "g' \<noteq> 0" and c: "c \<in> set (cells_of m1 g')"
      have "c \<in> set (cells_of m g') \<or> c = new_Cell n g' (Suc (head m g))" using m1(6)[OF g'(1)] c by auto
      then show "watermarks c ! 0 \<le> C"
        using C g' by (auto simp: first_bounded_def new_Cell_def INVALID_WATERMARK_def nth_list_update)
    qed
    then show ?thesis using ex(3) by (simp add: m'_def)
  qed
  ultimately show ?thesis using that by blast
qed

section \<open>The delivery loop ends\<close>

lemma popped_bounded:
  assumes "steady F" and "cells_inv n F cnt m" and "2 \<le> n" and "g < n" and "first_bounded n C m"
    and min: "\<forall>g' < n. mustLessThan (cells_of m g ! head m g) (cells_of m g' ! head m g')"
  shows "if g = 0 then int (head m g) \<le> C else head m g < cnt 0 g"
proof -
  let ?l = "cells_of m g ! head m g"
  define g' where "g' = (if g = 0 then 1 else 0 :: nat)"
  have g': "g' < n" "g' \<noteq> g" using assms(3) by (auto simp: g'_def)
  let ?r = "cells_of m g' ! head m g'"
  note l = head_cell(2)[OF assms(2,4)] and r = head_cell(2)[OF assms(2) g'(1)]
  have n: "0 < n" using assms(3) by simp
  have "mustLessThan ?l ?r" using min g'(1) by blast
  then have "less_from n 0 ?l ?r"
    using g'(2) cell_ok_fields[OF l] cell_ok_fields[OF r] by (simp add: mustLessThan_def)
  then have less: "is_real ?l ! 0" "watermarks ?l ! 0 \<le> watermarks ?r ! 0"
    using n by (cases n; auto split: if_splits)+
  show ?thesis
  proof (cases "g = 0")
    case True
    have "ext (watermarks ?l ! 0) = enat (Suc (head m g))"
      using cell_okD(3)[OF l n less(1)] assms(1) True by (simp add: steady_def)
    then have "watermarks ?l ! 0 = int (head m g)" using cell_okD(1)[OF l n] by (simp add: ext_def)
    moreover have "?r \<in> set (cells_of m g')" using cells_invD(4)[OF assms(2) g'(1)] by simp
    then have "watermarks ?r ! 0 \<le> C" using assms(5) g'(1) True by (auto simp: first_bounded_def g'_def)
    ultimately show ?thesis using less(2) True by simp
  next
    case False
    then show ?thesis using cell_okD(2)[OF l n] less(1) by simp
  qed
qed

text \<open>The number of blocks that may still be popped.\<close>

definition pops_left :: "nat \<Rightarrow> nat \<Rightarrow> fault + Manager \<Rightarrow> nat" where
  "pops_left n N r = (case r of Inl _ \<Rightarrow> 0 | Inr m \<Rightarrow> \<Sum>g<n. N - head m g)"

lemma pops_left_less:
  assumes "length (buffer m) = n" and "g < n" and "head m g < N" and "buffer m' = (buffer m)[g := (g, Suc (head m g))]"
  shows "pops_left n N (Inr m') < pops_left n N (Inr m)"
proof -
  have "(\<Sum>g'<n. N - head m' g') < (\<Sum>g'<n. N - head m g')"
    using assms by (intro sum_strict_mono_ex1) (auto simp: nth_list_update intro!: bexI[of _ g])
  then show ?thesis by (simp add: pops_left_def)
qed

lemma first_bounded_exists: "\<exists>C. first_bounded n C m"
proof -
  let ?S = "insert (-1) (\<Union>g<n. (\<lambda>c. watermarks c ! 0) ` set (cells_of m g))"
  have fin: "finite ?S" by simp
  have "first_bounded n (Max ?S) m"
    unfolding first_bounded_def
  proof (intro conjI allI impI ballI)
    show "-1 \<le> Max ?S" by (rule Max_ge[OF fin]) simp
    show "watermarks c ! 0 \<le> Max ?S" if "g < n" "c \<in> set (cells_of m g)" for g c
      using that by (intro Max_ge[OF fin]) blast
  qed
  then show ?thesis by blast
qed

lemma popBlocks_ok:
  assumes "steady F" and "cast_first n F cnt" and "2 \<le> n" and "cells_inv n F cnt m" and "delivered_inv n F m"
  obtains m' where "popBlocks m = Some (Inr m')" "cells_inv n F cnt m'" "delivered_inv n F m'"
    "globalMinimum m' = None"
proof -
  obtain C where C: "first_bounded n C m" using first_bounded_exists by blast
  define N where "N = Suc (nat C) + (\<Sum>g<n. cnt 0 g)"
  define P where "P r \<longleftrightarrow> (\<exists>m. r = Inr m \<and> cells_inv n F cnt m \<and> delivered_inv n F m \<and> first_bounded n C m)" for r :: "fault + Manager"
  have step: "P (pop_next r) \<and> pops_left n N (pop_next r) < pops_left n N r" if Pr: "P r" and pop: "can_pop r" for r
  proof -
    obtain m where m: "r = Inr m" "cells_inv n F cnt m" "delivered_inv n F m" "first_bounded n C m"
      using Pr by (auto simp: P_def)
    obtain p where p: "globalMinimum m = Some p" using pop m(1) by (auto simp: can_pop_def)
    obtain g where g: "g < n" "p = (g, head m g)"
      "\<forall>g' < n. mustLessThan (cells_of m g ! head m g) (cells_of m g' ! head m g')"
      using globalMinimum_head[OF m(2) p] by blast
    obtain m' where m': "pop_one (g, head m g) m = Inr m'" "cells_inv n F cnt m'" "delivered_inv n F m'"
      "buffer m' = (buffer m)[g := (g, Suc (head m g))]" "first_bounded n C m'"
      using pop_one_ok[OF assms(1,2) m(2,3) g(1,3)] m(4) by metis
    have "cnt 0 g \<le> (\<Sum>g<n. cnt 0 g)" using g(1) by (intro member_le_sum) auto
    then have "head m g < N"
      using popped_bounded[OF assms(1) m(2) assms(3) g(1) m(4) g(3)] by (auto simp: N_def split: if_splits)
    then have "pops_left n N (Inr m') < pops_left n N (Inr m)"
      using m(2) g(1) m'(4) by (intro pops_left_less) (auto simp: cells_inv_def)
    with m(1) m' p g(2) show ?thesis by (auto simp: pop_next_def P_def)
  qed
  have P0: "P (Inr m)" using C assms(4,5) by (auto simp: P_def)
  obtain r where r: "popBlocks m = Some r"
    unfolding popBlocks_def using measure_while_option_Some[of P can_pop pop_next "pops_left n N", OF step P0] by blast
  have "P r"
    using while_option_rule[of P can_pop pop_next "Inr m" r] step P0 r by (simp add: popBlocks_def)
  moreover have "\<not> can_pop r" using while_option_stop[of can_pop pop_next "Inr m" r] r by (simp add: popBlocks_def)
  ultimately obtain m' where "r = Inr m'" "cells_inv n F cnt m'" "delivered_inv n F m'" "globalMinimum m' = None"
    by (auto simp: P_def can_pop_def simp del: not_None_eq)
  with that r show ?thesis by blast
qed

section \<open>Decisions\<close>

lemma update_heads_ok:
  assumes "cast_first n F cnt" and "steady F" and "v < n" and "-1 \<le> w"
    and low: "\<And>g' b'. g' < n \<Longrightarrow> g' \<noteq> v \<Longrightarrow> cnt v g' \<le> b' \<Longrightarrow> ext w \<le> F g' b' v"
    and "cells_inv n F cnt m"
    and "\<forall>g < n. \<forall>c \<in> set (cells_of m g). \<not> is_real c ! v \<longrightarrow> watermarks c ! v \<le> w"
    and "set ps \<subseteq> set (buffer m)"
  shows "\<exists>m'. update_heads ps v w m = Inr m' \<and> cells_inv n F cnt m' \<and> buffer m' = buffer m \<and> delivered m' = delivered m"
  using assms(6-8)
proof (induction ps arbitrary: m)
  case (Cons p ps)
  obtain g where g: "g < n" "p = buffer m ! g"
    using Cons.prems(1,3) by (auto simp: cells_inv_def in_set_conv_nth)
  define c where "c = cells_of m g ! head m g"
  have c: "cell_at m p = c" "cell_ok n F cnt g (head m g) c"
    using head_cell[OF Cons.prems(1) g(1)] g(2) by (simp_all add: c_def)
  have mem: "c \<in> set (cells_of m g)" using cells_invD(4)[OF Cons.prems(1) g(1)] by (simp add: c_def)
  show ?case
  proof (cases "is_real c ! v")
    case True
    with Cons.IH[OF Cons.prems(1,2)] Cons.prems(3) c(1) show ?thesis by (simp add: Let_def)
  next
    case False
    let ?c = "c\<lparr>watermarks := (watermarks c)[v := w]\<rparr>"
    let ?m = "set_cell p ?c m"
    have chk: "cell_groupId c \<noteq> v" "watermarks c ! v \<le> w"
      using False cell_okD(2)[OF c(2) assms(3)] cell_ok_fields[OF c(2)] Cons.prems(2) g(1) mem by auto
    have "cell_ok n F cnt g (head m g) ?c"
      using c(2) assms(3,4) low False by (auto simp: cell_ok_def nth_list_update)
    then have inv: "cells_inv n F cnt ?m"
      using cells_inv_set[OF Cons.prems(1) g(1) cells_invD(4)[OF Cons.prems(1) g(1)]]
        cells_invD(3)[OF Cons.prems(1) g(1)] g(2) by simp
    have "\<forall>g < n. \<forall>c \<in> set (cells_of ?m g). \<not> is_real c ! v \<longrightarrow> watermarks c ! v \<le> w"
      using Cons.prems(1,2) assms(3) cell_ok_fields[OF c(2)]
      by (auto simp: cells_inv_def dest!: set_update_subset_insert[THEN subsetD])
    from Cons.IH[OF inv this] Cons.prems(3) chk False c(1) show ?thesis by (simp add: Let_def)
  qed
qed simp

lemma cell_ok_other:
  assumes "cell_ok n F cnt g' k c" and "(g', k) \<noteq> (g, b)" and "b = cnt v g"
  shows "cell_ok n F (cnt(v := (cnt v)(g := Suc b))) g' k c"
  using assms by (auto simp: cell_ok_def less_Suc_eq)

lemma cell_ok_voted:
  assumes "cell_ok n F cnt g b c" and "b = cnt v g" and "v \<noteq> g" and "F g b v = ext w" and "-1 \<le> w"
  shows "cell_ok n F (cnt(v := (cnt v)(g := Suc b))) g b
     (c\<lparr>is_real := (is_real c)[v := True], watermarks := (watermarks c)[v := w]\<rparr>)"
  using assms by (auto simp: cell_ok_def nth_list_update)

lemma unvoted_below:
  assumes "cell_ok n F cnt g' k c" and "v < n" and "\<not> is_real c ! v"
    and "g < n" and "g \<noteq> v" and "b = cnt v g" and "F g b v = ext w" and "-1 \<le> w"
  shows "watermarks c ! v \<le> w"
  using cell_okD(4)[OF assms(1-5), of b] cell_okD(1)[OF assms(1,2)] assms(6-8) by simp

lemma vote_inv:
  assumes "cells_inv n F cnt m" and "g < n" and "v \<noteq> g" and "b < length (cells_of m g)"
    and "b = cnt v g" and "F g b v = ext w" and "-1 \<le> w"
  defines "c \<equiv> cells_of m g ! b"
  shows "cells_inv n F (cnt(v := (cnt v)(g := Suc b)))
     (set_cell (g, b) (c\<lparr>is_real := (is_real c)[v := True], watermarks := (watermarks c)[v := w]\<rparr>) m)"
    (is "cells_inv n F ?cnt (set_cell (g, b) ?c m)")
proof -
  have "cell_ok n F ?cnt g b ?c"
    using cells_invD(5)[OF assms(1,2,4)] assms(3,5-7) unfolding c_def by (intro cell_ok_voted)
  then have cell: "cell_ok n F ?cnt g' k (cells_of (set_cell (g, b) ?c m) g' ! k)"
    if "g' < n" "k < length (cells_of m g')" for g' k
    using cell_ok_other[OF cells_invD(5)[OF assms(1) that], of g b v] assms(4,5) that cells_invD(1)[OF assms(1,2)]
    by (cases "(g', k) = (g, b)") (auto simp: nth_list_update)
  have len: "length (cells_of (set_cell (g, b) ?c m) g') = length (cells_of m g')" if "g' < n" for g'
    using that cells_invD(1)[OF assms(1,2)] by simp
  show ?thesis
  proof (rule cells_invI)
    fix g' k assume "g' < n" "k < length (cells_of (set_cell (g, b) ?c m) g')"
    then show "cell_ok n F ?cnt g' k (cells_of (set_cell (g, b) ?c m) g' ! k)" using cell len by metis
  next
    fix g' u assume g': "g' < n" "u < n" "u \<noteq> g'"
    have "?cnt u g' \<le> length (cells_of m g')"
      using cells_invD(6)[OF assms(1) g'] assms(4) by auto
    then show "?cnt u g' \<le> length (cells_of (set_cell (g, b) ?c m) g')" using len[OF g'(1)] by simp
  qed (use assms(1) len in \<open>simp_all add: cells_inv_def\<close>)
qed

lemma pushDecision_ok:
  fixes cnt :: "nat \<Rightarrow> nat \<Rightarrow> nat"
  defines "cnt' \<equiv> \<lambda>v g b. cnt(v := (cnt v)(g := Suc b))"
  assumes "steady F" and "2 \<le> n" and "cells_inv n F cnt m" and "delivered_inv n F m"
    and "g < n" and "v < n" and "v \<noteq> g" and "b = cnt v g" and "F g b v = ext w" and "-1 \<le> w"
    and cast: "cast_first n F (cnt' v g b)"
  obtains m' where "pushDecision g b v w m = Some (Inr m')" "cells_inv n F (cnt' v g b) m'"
    "delivered_inv n F m'" "globalMinimum m' = None"
proof -
  have "b \<le> length (cells_of m g)" using cells_invD(6)[OF assms(4,6,7,8)] assms(9) by simp
  then obtain m1 where m1: "createBlockIfNotExist g b m = Inr ((g, b), m1)" "cells_inv n F cnt m1"
    "b < length (cells_of m1 g)" "buffer m1 = buffer m" "delivered m1 = delivered m"
    by (rule create_ok[OF assms(4,2,6)]) blast
  define c where "c = cells_of m1 g ! b"
  define c' where "c' = c\<lparr>is_real := (is_real c)[v := True], watermarks := (watermarks c)[v := w]\<rparr>"
  define m2 where "m2 = raise_height g (int b) (raise_height v w (set_cell (g, b) c' m1))"
  have c: "cell_ok n F cnt g b c" unfolding c_def by (rule cells_invD(5)[OF m1(2) assms(6) m1(3)])
  have nr: "\<not> is_real c ! v" using cell_okD(2)[OF c assms(7)] assms(8,9) by simp
  have below: "watermarks x ! v \<le> w" if "cell_ok n F cnt g' k x" "\<not> is_real x ! v" for g' k x
    using unvoted_below[OF that(1) assms(7) that(2) assms(6) assms(8)[symmetric] assms(9-11)] .
  have set: "setIthWaterMark v w c = Inr (True, c')"
    using nr below[OF c nr] by (simp add: setIthWaterMark_def c'_def)
  have inv2: "cells_inv n F (cnt' v g b) m2"
    using vote_inv[OF m1(2) assms(6,8) m1(3) assms(9-11)]
    unfolding m2_def cnt'_def c'_def c_def by (subst cells_inv_cong) auto
  have "watermarks x ! v \<le> w" if x: "g' < n" "x \<in> set (cells_of m2 g')" "\<not> is_real x ! v" for g' x
  proof -
    have "x = c' \<or> x \<in> set (cells_of m1 g')"
      using x m1(2) by (auto simp: m2_def cells_inv_def split: if_splits dest!: set_update_subset_insert[THEN subsetD])
    moreover have "is_real c' ! v" using cell_ok_fields[OF c] assms(7) by (simp add: c'_def)
    ultimately obtain k where "k < length (cells_of m1 g')" "x = cells_of m1 g' ! k"
      using x(3) by (auto simp: in_set_conv_nth)
    with cells_invD(5)[OF m1(2) x(1)] below x(3) show ?thesis by blast
  qed
  then have low: "\<forall>g' < n. \<forall>x \<in> set (cells_of m2 g'). \<not> is_real x ! v \<longrightarrow> watermarks x ! v \<le> w" by blast
  have uncast: "ext w \<le> F g' b' v" if "g' < n" "g' \<noteq> v" "cnt' v g b v g' \<le> b'" for g' b'
    using cast that assms(6-10) unfolding cast_first_def by (metis cnt'_def fun_upd_same lessI)
  obtain m3 where m3: "updateEstimate v w m2 = Inr m3" "cells_inv n F (cnt' v g b) m3"
    "buffer m3 = buffer m2" "delivered m3 = delivered m2"
    using update_heads_ok[OF cast assms(2,7,11) uncast inv2 low, of "buffer m2"] by (auto simp: updateEstimate_def)
  have "delivered_inv n F m3"
    using assms(5) m3(3,4) m1(4,5) by (subst delivered_inv_cong[of m3 m]) (simp_all add: m2_def)
  then obtain m4 where m4: "popBlocks m3 = Some (Inr m4)" "cells_inv n F (cnt' v g b) m4"
    "delivered_inv n F m4" "globalMinimum m4 = None"
    using popBlocks_ok[OF assms(2) cast assms(3) m3(2)] by blast
  have "length (chains m) \<noteq> 1" "v < length (chains m)"
    using assms(3,4,7) by (auto simp: cells_inv_def)
  with assms(8) m1(1) set m3(1) m4(1) have "pushDecision g b v w m = Some (Inr m4)"
    by (simp add: pushDecision_def cell_at_def c_def[symmetric] m2_def[symmetric])
  with m4 that show ?thesis by blast
qed

section \<open>The logs of the voters\<close>

text \<open>
  Every group has a log of its votes \<open>(g, b, w)\<close>, agreed on by consensus inside the group.
  The logs are orderly when the watermarks of a group never decrease and it votes on the
  blocks of every other group one after the other.
\<close>

type_synonym vote = "nat \<times> nat \<times> int"

definition about :: "nat \<Rightarrow> vote list \<Rightarrow> vote list" where
  "about g xs = filter (\<lambda>x. fst x = g) xs"

definition orderly :: "vote list \<Rightarrow> bool" where
  "orderly xs \<longleftrightarrow>
     sorted (map (snd \<circ> snd) xs) \<and> (\<forall>x \<in> set xs. -1 \<le> snd (snd x)) \<and>
     (\<forall>g \<in> set (map fst xs). map (fst \<circ> snd) (about g xs) = [0..<length (about g xs)])"

definition final_vote :: "(nat \<Rightarrow> vote list) \<Rightarrow> final_votes" where
  "final_vote L g b v =
     (if v = g then enat (Suc b)
      else if b < length (about g (L v)) then ext (snd (snd (about g (L v) ! b))) else \<infinity>)"

text \<open>What a node has seen of the log of voter \<open>v\<close>, and a sequence of decisions that fits the logs.\<close>

definition log_of :: "nat \<Rightarrow> decision list \<Rightarrow> vote list" where
  "log_of v ds = map (\<lambda>(g, b, u, w). (g, b, w)) (filter (\<lambda>(g, b, u, w). u = v) ds)"

definition fits :: "nat \<Rightarrow> (nat \<Rightarrow> vote list) \<Rightarrow> decision list \<Rightarrow> bool" where
  "fits n L ds \<longleftrightarrow> list_all (\<lambda>(g, b, v, w). g < n \<and> v < n) ds \<and> (\<forall>v < n. prefix (log_of v ds) (L v))"

abbreviation seen :: "decision list \<Rightarrow> nat \<Rightarrow> nat \<Rightarrow> nat" where
  "seen ds v g \<equiv> length (about g (log_of v ds))"

lemma orderly_blocks:
  assumes "orderly xs" and "b < length (about g xs)"
  shows "fst (snd (about g xs ! b)) = b"
proof -
  have "about g xs ! b \<in> set (about g xs)" using assms(2) by simp
  then have "g \<in> set (map fst xs)" by (force simp: about_def)
  with assms(1) have "map (fst \<circ> snd) (about g xs) = [0..<length (about g xs)]" unfolding orderly_def by blast
  from arg_cong[OF this, of "\<lambda>ys. ys ! b"] assms(2) show ?thesis by simp
qed

lemma orderly_about:
  assumes "orderly xs"
  shows "sorted (map (snd \<circ> snd) (about g xs))" and "\<forall>x \<in> set (about g xs). -1 \<le> snd (snd x)"
  using assms sorted_filter[of "snd \<circ> snd" xs] by (auto simp: orderly_def about_def)

lemma steady_final:
  assumes "\<forall>v. orderly (L v)"
  shows "steady (final_vote L)"
proof -
  have "ext (snd (snd (about g (L v) ! b))) \<le> ext (snd (snd (about g (L v) ! b')))"
    if "b \<le> b'" "b' < length (about g (L v))" for g v b b'
  proof -
    have "orderly (L v)" using assms by blast
    note o = orderly_about[OF this, of g]
    have "snd (snd (about g (L v) ! b)) \<le> snd (snd (about g (L v) ! b'))"
      using sorted_nth_mono[OF o(1) that(1)] that by simp
    moreover have "-1 \<le> snd (snd (about g (L v) ! b))" using o(2) that by auto
    ultimately show ?thesis by simp
  qed
  then show ?thesis by (auto simp: steady_def final_vote_def)
qed

lemma cast_first_final:
  assumes "\<forall>v. orderly (L v)" and "fits n L ds"
  shows "cast_first n (final_vote L) (seen ds)"
  unfolding cast_first_def
proof (intro allI impI)
  fix v g g' b b'
  assume a: "v < n" "g < n" "g' < n" "g \<noteq> v" "g' \<noteq> v" "b < seen ds v g" "seen ds v g' \<le> b'"
  have o: "orderly (L v)" using assms(1) by blast
  obtain rest where L: "L v = log_of v ds @ rest" using assms(2) a(1) by (auto simp: fits_def prefix_def)
  have app: "about h (L v) = about h (log_of v ds) @ about h rest" for h by (simp add: L about_def)
  let ?x = "about g (log_of v ds) ! b"
  have x: "?x \<in> set (log_of v ds)" using nth_mem[OF a(6)] by (auto simp: about_def)
  have Fx: "final_vote L g b v = ext (snd (snd ?x))"
    using a(4,6) by (simp add: final_vote_def app nth_append)
  show "final_vote L g b v \<le> final_vote L g' b' v"
  proof (cases "b' < length (about g' (L v))")
    case True
    let ?y = "about g' rest ! (b' - seen ds v g')"
    have "b' - seen ds v g' < length (about g' rest)" using True a(7) by (simp add: app)
    from nth_mem[OF this] have y: "?y \<in> set rest" by (auto simp: about_def)
    have "snd (snd ?x) \<le> snd (snd ?y)" "-1 \<le> snd (snd ?x)"
      using o x y by (auto simp: orderly_def L sorted_append)
    then show ?thesis using Fx a(5,7) True by (simp add: final_vote_def app nth_append)
  next
    case False
    then show ?thesis using a(5) by (simp add: final_vote_def)
  qed
qed

lemma fits_snoc:
  assumes "\<forall>v. orderly (L v)" and "fits n L (ds @ [(g, b, v, w)])" and "v \<noteq> g"
  shows "b = seen ds v g" and "final_vote L g b v = ext w" and "-1 \<le> w"
    and "seen (ds @ [(g, b, v, w)]) = (seen ds)(v := (seen ds v)(g := Suc b))"
proof -
  have v: "v < n" and o: "orderly (L v)" using assms(1,2) by (auto simp: fits_def)
  have "log_of v (ds @ [(g, b, v, w)]) = log_of v ds @ [(g, b, w)]" by (simp add: log_of_def)
  then obtain rest where L: "L v = log_of v ds @ (g, b, w) # rest"
    using assms(2) v by (auto simp: fits_def prefix_def)
  have ab: "about g (L v) = about g (log_of v ds) @ (g, b, w) # about g rest" by (simp add: L about_def)
  then have len: "seen ds v g < length (about g (L v))" by simp
  show b: "b = seen ds v g" using orderly_blocks[OF o len] ab by simp
  show "final_vote L g b v = ext w" using assms(3) ab by (simp add: final_vote_def b)
  show "-1 \<le> w" using o by (simp add: orderly_def L)
  show "seen (ds @ [(g, b, v, w)]) = (seen ds)(v := (seen ds v)(g := Suc b))"
    by (auto simp: fun_eq_iff log_of_def about_def b)
qed

section \<open>Runs\<close>

lemma init_heads_run:
  assumes "length (chains m) = n" and "length (buffer m) = i" and "i \<le> n"
    and "\<forall>g. i \<le> g \<longrightarrow> g < n \<longrightarrow> chains m ! g = \<lparr>height = -1, cells = []\<rparr>"
  shows "init_heads [i..<n] m = Inr (m\<lparr>
     chains := map (\<lambda>g. if g < i then chains m ! g else \<lparr>height = -1, cells = [new_Cell n g 0]\<rparr>) [0..<n],
     buffer := buffer m @ map (\<lambda>g. (g, 0)) [i..<n]\<rparr>)"
  using assms
proof (induction "n - i" arbitrary: i m)
  case 0
  then have "i = n" by simp
  moreover have "map (\<lambda>g. if g < n then chains m ! g else \<lparr>height = -1, cells = [new_Cell n g 0]\<rparr>) [0..<n] = chains m"
    using 0 by (intro nth_equalityI) auto
  ultimately show ?case by simp
next
  case (Suc j)
  then have i: "i < n" "[i..<n] = i # [Suc i..<n]" by (simp_all add: upt_conv_Cons)
  let ?m = "m\<lparr>chains := (chains m)[i := \<lparr>height = -1, cells = [new_Cell n i 0]\<rparr>], buffer := buffer m @ [(i, 0)]\<rparr>"
  have step: "init_heads [i..<n] m = init_heads [Suc i..<n] ?m"
    using Suc.prems i by (simp add: createBlockIfNotExist_def buffer_push_def cell_at_def new_Cell_def Let_def)
  have "init_heads [Suc i..<n] ?m = Inr (?m\<lparr>
     chains := map (\<lambda>g. if g < Suc i then chains ?m ! g else \<lparr>height = -1, cells = [new_Cell n g 0]\<rparr>) [0..<n],
     buffer := buffer ?m @ map (\<lambda>g. (g, 0)) [Suc i..<n]\<rparr>)"
    using Suc.prems Suc.hyps(2) i by (intro Suc.hyps(1)) auto
  moreover have "map (\<lambda>g. if g < Suc i then chains ?m ! g else \<lparr>height = -1, cells = [new_Cell n g 0]\<rparr>) [0..<n]
      = map (\<lambda>g. if g < i then chains m ! g else \<lparr>height = -1, cells = [new_Cell n g 0]\<rparr>) [0..<n]"
    using Suc.prems(1) i by (intro map_cong) (auto simp: nth_list_update less_Suc_eq)
  ultimately show ?case unfolding step by (simp add: i)
qed

definition initial :: "nat \<Rightarrow> Manager" where
  "initial n =
     \<lparr>chains = map (\<lambda>g. \<lparr>height = -1, cells = [new_Cell n g 0]\<rparr>) [0..<n],
      buffer = map (\<lambda>g. (g, 0)) [0..<n], invalid = [], delivered = []\<rparr>"

lemma setGroupCount_run: "setGroupCount n = Inr (initial n)"
  unfolding setGroupCount_def by (subst init_heads_run) (simp_all add: initial_def)

text \<open>Some group waits for a vote on its next block.\<close>

definition waiting :: "nat \<Rightarrow> (nat \<Rightarrow> nat \<Rightarrow> nat) \<Rightarrow> Manager \<Rightarrow> bool" where
  "waiting n cnt m \<longleftrightarrow> (\<exists>g < n. \<exists>v < n. v \<noteq> g \<and> cnt v g \<le> head m g)"

lemma initial_inv:
  assumes "steady F" and "2 \<le> n"
  shows "cells_inv n F (\<lambda>_ _. 0) (initial n)" and "delivered_inv n F (initial n)"
    and "waiting n (\<lambda>_ _. 0) (initial n)"
proof -
  show "cells_inv n F (\<lambda>_ _. 0) (initial n)"
    using assms(1) by (intro cells_invI) (auto simp: initial_def intro!: new_Cell_ok)
  show "delivered_inv n F (initial n)" by (auto simp: delivered_inv_def initial_def)
  show "waiting n (\<lambda>_ _. 0) (initial n)"
    using assms(2) unfolding waiting_def by (intro exI[of _ "0::nat"]) (auto intro: exI[of _ "1::nat"])
qed

lemma less_from_total:
  assumes "cell_ok n F cnt g k l" and "cell_ok n F cnt g' k' r"
    and "\<forall>v < n. is_real l ! v" and "\<forall>v < n. is_real r ! v" and "i + j = n"
    and "(map (F g k) [i..<n], k, g) < (map (F g' k') [i..<n], k', g')"
  shows "less_from j i l r"
  using assms(5,6)
proof (induction j arbitrary: i)
  case 0
  then show ?case using cell_ok_fields[OF assms(1)] cell_ok_fields[OF assms(2)] by auto
next
  case (Suc j)
  then have i: "i < n" "[i..<n] = i # [Suc i..<n]" by (simp_all add: upt_conv_Cons)
  have e: "F g k i = ext (watermarks l ! i)" "F g' k' i = ext (watermarks r ! i)"
    using cell_okD(3)[OF assms(1) i(1)] cell_okD(3)[OF assms(2) i(1)] assms(3,4) i(1) by auto
  have "watermarks l ! i < watermarks r ! i \<or>
      watermarks l ! i = watermarks r ! i \<and> (map (F g k) [Suc i..<n], k, g) < (map (F g' k') [Suc i..<n], k', g')"
    using Suc.prems(2) cell_okD(1)[OF assms(1) i(1)] cell_okD(1)[OF assms(2) i(1)]
    by (auto simp: i(2) e less_prod_def)
  with Suc.IH[of "Suc i"] Suc.prems(1) assms(3,4) i(1) show ?case by auto
qed

lemma no_minimum_waiting:
  assumes "cells_inv n F cnt m" and "0 < n" and "globalMinimum m = None"
  shows "waiting n cnt m"
proof (rule ccontr)
  assume nw: "\<not> waiting n cnt m"
  have all: "is_real (cells_of m g ! head m g) ! v" if "g < n" "v < n" for g v
    using cell_okD(2)[OF head_cell(2)[OF assms(1) that(1)] that(2)] nw that by (force simp: waiting_def)
  let ?key = "\<lambda>g. block_key n F (g, head m g)"
  obtain g where g: "g < n" "\<forall>g' < n. ?key g \<le> ?key g'"
    using ex_min_if_finite[of "?key ` {..<n}"] assms(2) by (force simp: not_less)
  have "mustLessThan (cells_of m g ! head m g) (cells_of m g' ! head m g')" if g': "g' < n" for g'
  proof (cases "g' = g")
    case True
    then show ?thesis by (simp add: mustLessThan_def)
  next
    case False
    then have "?key g < ?key g'" using g(2) g' by (auto simp: less_le)
    then have "less_from n 0 (cells_of m g ! head m g) (cells_of m g' ! head m g')"
      using less_from_total[OF head_cell(2)[OF assms(1) g(1)] head_cell(2)[OF assms(1) g']] all g(1) g'
      by (simp add: block_key_def)
    then show ?thesis
      using False cell_ok_fields[OF head_cell(2)[OF assms(1) g(1)]] cell_ok_fields[OF head_cell(2)[OF assms(1) g']]
      by (simp add: mustLessThan_def)
  qed
  then have "list_all (\<lambda>r. mustLessThan (cell_at m (buffer m ! g)) (cell_at m r)) (buffer m)"
    using assms(1) head_cell(1)[OF assms(1)] g(1) by (auto simp: list_all_length cells_inv_def)
  moreover have "buffer m ! g \<in> set (buffer m)" using assms(1) g(1) by (simp add: cells_inv_def)
  ultimately show False using assms(3) unfolding globalMinimum_def find_None_iff by blast
qed

lemma cells_inv_own:
  assumes "\<And>v g. v \<noteq> g \<Longrightarrow> cnt' v g = cnt v g" and "cells_inv n F cnt m"
  shows "cells_inv n F cnt' m"
proof -
  have "cell_ok n F cnt' g k c" if c: "cell_ok n F cnt g k c" for g k c
  proof -
    have "is_real c ! v \<longleftrightarrow> v = g \<or> k < cnt' v g" if "v < n" for v
      using cell_okD(2)[OF c that] assms(1)[of v g] by (cases "v = g") auto
    moreover have "ext (watermarks c ! v) \<le> F g' b' v"
      if "v < n" "\<not> is_real c ! v" "g' < n" "g' \<noteq> v" "cnt' v g' \<le> b'" for v g' b'
      using cell_okD(4)[OF c that(1-4)] assms(1)[OF that(4)[symmetric]] that(5) by simp
    ultimately show ?thesis using cell_ok_fields[OF c] cell_okD(1,3)[OF c] by (simp add: cell_ok_def)
  qed
  then show ?thesis using assms by (auto simp: cells_inv_def)
qed

lemma fits_prefix: "fits n L (ds @ es) \<Longrightarrow> fits n L ds"
  unfolding fits_def log_of_def by (auto dest: append_prefixD)

lemma pushAll_ok:
  assumes "\<forall>v. orderly (L v)" and "2 \<le> n" and "fits n L (ds @ es)"
    and "cells_inv n (final_vote L) (seen ds) m" and "delivered_inv n (final_vote L) m" and "waiting n (seen ds) m"
  shows "\<exists>m'. pushAll es m = Some (Inr m') \<and> cells_inv n (final_vote L) (seen (ds @ es)) m' \<and>
     delivered_inv n (final_vote L) m' \<and> waiting n (seen (ds @ es)) m'"
  using assms(3-6)
proof (induction es arbitrary: ds m)
  case (Cons e es)
  obtain g b v w where e: "e = (g, b, v, w)" by (metis surj_pair)
  have fits: "fits n L (ds @ [(g, b, v, w)])"
    using Cons.prems(1) fits_prefix[of n L "ds @ [e]" es] by (simp add: e)
  then have gv: "g < n" "v < n" by (auto simp: fits_def)
  obtain m1 where m1: "pushDecision g b v w m = Some (Inr m1)"
    "cells_inv n (final_vote L) (seen (ds @ [(g, b, v, w)])) m1" "delivered_inv n (final_vote L) m1"
    "waiting n (seen (ds @ [(g, b, v, w)])) m1"
  proof (cases "v = g")
    case True
    have len: "length (chains m) \<noteq> 1" using Cons.prems(2) assms(2) by (auto simp: cells_inv_def)
    have eq: "seen (ds @ [(g, b, v, w)]) u h = seen ds u h" if "u \<noteq> h" for u h
      using that True by (simp add: log_of_def about_def)
    have "cells_inv n (final_vote L) (seen (ds @ [(g, b, v, w)])) m"
      by (rule cells_inv_own[OF eq Cons.prems(2)])
    moreover obtain h u where hu: "h < n" "u < n" "u \<noteq> h" "seen ds u h \<le> head m h"
      using Cons.prems(4) by (auto simp: waiting_def)
    then have "waiting n (seen (ds @ [(g, b, v, w)])) m"
      unfolding waiting_def eq[OF hu(3), symmetric] by blast
    ultimately show ?thesis using that[of m] True len Cons.prems(3) by (simp add: pushDecision_def)
  next
    case False
    note f = fits_snoc[OF assms(1) fits False]
    have "cast_first n (final_vote L) ((seen ds)(v := (seen ds v)(g := Suc b)))"
      using cast_first_final[OF assms(1) fits] unfolding f(4) .
    then obtain m' where m': "pushDecision g b v w m = Some (Inr m')"
      "cells_inv n (final_vote L) (seen (ds @ [(g, b, v, w)])) m'" "delivered_inv n (final_vote L) m'"
      "globalMinimum m' = None"
      using pushDecision_ok[OF steady_final[OF assms(1)] assms(2) Cons.prems(2,3) gv False f(1-3)]
      unfolding f(4) by blast
    have "waiting n (seen (ds @ [(g, b, v, w)])) m'"
      using assms(2) by (intro no_minimum_waiting[OF m'(2) _ m'(4)]) simp
    with m' that show ?thesis by blast
  qed
  have "fits n L ((ds @ [(g, b, v, w)]) @ es)" using Cons.prems(1) by (simp add: e)
  from Cons.IH[OF this m1(2-4)] m1(1) show ?case by (simp add: e)
qed simp

text \<open>A run from the start on the votes seen by one node.\<close>

lemma run_ok:
  assumes "\<forall>v. orderly (L v)" and "2 \<le> n" and "fits n L ds"
  shows "\<exists>m. pushAll ds (initial n) = Some (Inr m) \<and> cells_inv n (final_vote L) (seen ds) m \<and>
     delivered_inv n (final_vote L) m \<and> waiting n (seen ds) m"
proof -
  have "seen [] = (\<lambda>_ _. 0)" by (simp add: log_of_def about_def fun_eq_iff)
  then show ?thesis
    using pushAll_ok[OF assms(1,2), of "[]" ds "initial n"] initial_inv[OF steady_final[OF assms(1)] assms(2)] assms(3)
    by simp
qed

section \<open>Agreement\<close>

text \<open>Two initial segments of one linear order: one is a prefix of the other.\<close>

lemma initial_segments:
  fixes key :: "'a \<Rightarrow> 'k::linorder"
  assumes "sorted_wrt (\<lambda>x y. key x < key y) xs" and "sorted_wrt (\<lambda>x y. key x < key y) ys"
    and "set xs \<subseteq> U" and "set ys \<subseteq> U"
    and "\<forall>x \<in> set xs. \<forall>y \<in> U - set xs. key x < key y" and "\<forall>x \<in> set ys. \<forall>y \<in> U - set ys. key x < key y"
  shows "prefix xs ys \<or> prefix ys xs"
  using assms
proof (induction xs arbitrary: ys U)
  case (Cons x xs)
  show ?case
  proof (cases ys)
    case (Cons y ys')
    have "x = y"
    proof (rule ccontr)
      assume "x \<noteq> y"
      have "key x < key y"
        using Cons.prems(1,4,5) \<open>x \<noteq> y\<close> \<open>ys = y # ys'\<close> by (cases "y \<in> set xs") auto
      moreover have "key y < key x"
        using Cons.prems(2,3,6) \<open>x \<noteq> y\<close> \<open>ys = y # ys'\<close> by (cases "x \<in> set ys'") auto
      ultimately show False by simp
    qed
    have nx: "x \<notin> set xs" "x \<notin> set ys'"
      using Cons.prems(1,2) \<open>x = y\<close> \<open>ys = y # ys'\<close> by auto
    have "prefix xs ys' \<or> prefix ys' xs"
      using Cons.prems nx \<open>x = y\<close> \<open>ys = y # ys'\<close> by (intro Cons.IH[of ys' "U - {x}"]) auto
    then show ?thesis using \<open>x = y\<close> \<open>ys = y # ys'\<close> by simp
  qed simp
qed simp

lemma delivered_segment:
  assumes "delivered_inv n F m"
  shows "set (delivered m) \<subseteq> {(g, k). g < n}"
    and "\<forall>x \<in> set (delivered m). \<forall>y \<in> {(g, k). g < n} - set (delivered m). block_key n F x < block_key n F y"
proof -
  show "set (delivered m) \<subseteq> {(g, k). g < n}" using assms by (auto simp: delivered_inv_def)
  show "\<forall>x \<in> set (delivered m). \<forall>y \<in> {(g, k). g < n} - set (delivered m). block_key n F x < block_key n F y"
  proof (intro ballI)
    fix x y assume x: "x \<in> set (delivered m)" and y: "y \<in> {(g, k). g < n} - set (delivered m)"
    obtain g k where gk: "y = (g, k)" by fastforce
    with y assms have "g < n" "head m g \<le> k" by (auto simp: delivered_inv_def)
    with assms x gk show "block_key n F x < block_key n F y" by (simp add: delivered_inv_def)
  qed
qed

lemma delivered_agree:
  assumes "delivered_inv n F m" and "delivered_inv n F m'"
  shows "prefix (delivered m) (delivered m') \<or> prefix (delivered m') (delivered m)"
proof (rule initial_segments[where key = "block_key n F" and U = "{(g, k). g < n}"])
  show "sorted_wrt (\<lambda>x y. block_key n F x < block_key n F y) (delivered m)"
    "sorted_wrt (\<lambda>x y. block_key n F x < block_key n F y) (delivered m')"
    using assms by (simp_all add: delivered_inv_def)
qed (fact delivered_segment[OF assms(1)] delivered_segment[OF assms(2)])+

text \<open>The blocks of one group are delivered in the order of their numbers.\<close>

lemma delivered_group:
  assumes "steady F" and "delivered_inv n F m" and "g < n"
  shows "map snd (filter (\<lambda>x. fst x = g) (delivered m)) = [0..<head m g]"
proof -
  let ?xs = "filter (\<lambda>x. fst x = g) (delivered m)"
  have "sorted_wrt (\<lambda>x y. block_key n F x < block_key n F y) ?xs"
    using assms(2) by (auto simp: delivered_inv_def sorted_wrt_filter)
  then have "sorted_wrt (\<lambda>x y. snd x < snd y) ?xs"
  proof (rule sorted_wrt_mono_rel[rotated])
    fix x y assume xy: "x \<in> set ?xs" "y \<in> set ?xs" "block_key n F x < block_key n F y"
    then have "x = (g, snd x)" "y = (g, snd y)" by (auto simp: prod_eq_iff)
    with xy(3) later_block[OF assms(1,3), of "snd y" "snd x"] show "snd x < snd y"
      by (metis leD leI)
  qed
  then have "sorted_wrt (<) (map snd ?xs)" by (simp add: sorted_wrt_map)
  moreover have "set (map snd ?xs) = {0..<head m g}"
    using assms(2,3) by (force simp: delivered_inv_def)
  ultimately show ?thesis
    by (intro sorted_distinct_set_unique) (auto simp: strict_sorted_iff)
qed

lemma delivered_distinct:
  assumes "delivered_inv n F m"
  shows "distinct (delivered m)"
proof -
  have "sorted_wrt (<) (map (block_key n F) (delivered m))"
    using assms by (simp add: delivered_inv_def sorted_wrt_map)
  then show ?thesis by (auto simp: strict_sorted_iff distinct_map)
qed

end
