(* ===== verification/Codec.thy ===== *)
theory Codec
  imports Proto
begin

text \<open>
  Serialization. The archives of \<^verbatim>\<open>zpp::bits\<close> are third-party code: a \<open>codec\<close> is how the library
  writes a value of one type into a buffer at a position and how it reads one. What the
  repository relies on is \<open>codec_ok\<close>: a written value can be read back from the bytes that
  were written, and the other bytes of the buffer stay. An archive call with several
  arguments handles them in order, which is \<open>seq_codec\<close>; the member functions \<^verbatim>\<open>serialize\<close> of the
  messages are such calls. Modelled here: \<^verbatim>\<open>proto/block_order.h\<close>, the archive functions of
  \<^verbatim>\<open>proto/user_request.h\<close> and \<^verbatim>\<open>proto/read_write_set.h\<close>.
\<close>

section \<open>Archives\<close>

record 'a codec =
  out_of :: "'a \<Rightarrow> string \<Rightarrow> nat \<Rightarrow> (string \<times> nat) option"
  in_of :: "string \<Rightarrow> nat \<Rightarrow> ('a \<times> nat) option"

definition bytes :: "string \<Rightarrow> nat \<Rightarrow> nat \<Rightarrow> string" where
  "bytes b i j = take (j - i) (drop i b)"

text \<open>Two buffers agree on the bytes from \<open>i\<close> to \<open>j\<close>, which exist.\<close>

definition agree :: "string \<Rightarrow> string \<Rightarrow> nat \<Rightarrow> nat \<Rightarrow> bool" where
  "agree b b' i j \<longleftrightarrow> i \<le> j \<and> j \<le> length b \<and> j \<le> length b' \<and> bytes b i j = bytes b' i j"

text \<open>What a write from position \<open>pos\<close> to \<open>pos'\<close> leaves of the buffer.\<close>

definition wrote :: "string \<Rightarrow> nat \<Rightarrow> string \<Rightarrow> nat \<Rightarrow> bool" where
  "wrote buf pos buf' pos' \<longleftrightarrow>
     pos \<le> pos' \<and> pos' \<le> length buf' \<and> take pos buf' = take pos buf \<and> drop pos' buf' = drop pos' buf"

definition codec_ok :: "'a codec \<Rightarrow> bool" where
  "codec_ok c \<longleftrightarrow>
     (\<forall>x buf pos buf' pos'. pos \<le> length buf \<longrightarrow> out_of c x buf pos = Some (buf', pos') \<longrightarrow>
        wrote buf pos buf' pos' \<and> (\<forall>b. agree b buf' pos pos' \<longrightarrow> in_of c b pos = Some (x, pos')))"

text \<open>A codec whose values all take the same number of bytes.\<close>

definition fixed_size :: "'a codec \<Rightarrow> nat \<Rightarrow> bool" where
  "fixed_size c n \<longleftrightarrow>
     (\<forall>x buf pos buf' pos'. out_of c x buf pos = Some (buf', pos') \<longrightarrow> pos' = pos + n)"

definition seq_codec :: "'a codec \<Rightarrow> 'b codec \<Rightarrow> ('a \<times> 'b) codec" where
  "seq_codec c d =
     \<lparr>out_of = (\<lambda>(x, y) buf pos. do { (buf, pos) \<leftarrow> out_of c x buf pos; out_of d y buf pos }),
      in_of = (\<lambda>buf pos. do { (x, pos) \<leftarrow> in_of c buf pos; (y, pos) \<leftarrow> in_of d buf pos; Some ((x, y), pos) })\<rparr>"

definition map_codec :: "('a \<Rightarrow> 'b) \<Rightarrow> ('b \<Rightarrow> 'a) \<Rightarrow> 'a codec \<Rightarrow> 'b codec" where
  "map_codec f g c =
     \<lparr>out_of = (\<lambda>y buf pos. out_of c (g y) buf pos),
      in_of = (\<lambda>buf pos. do { (x, pos) \<leftarrow> in_of c buf pos; Some (f x, pos) })\<rparr>"

lemma codec_okD:
  assumes "codec_ok c" and "out_of c x buf pos = Some (buf', pos')" and "pos \<le> length buf"
  shows "wrote buf pos buf' pos'" "agree b buf' pos pos' \<Longrightarrow> in_of c b pos = Some (x, pos')"
  using assms unfolding codec_ok_def by blast+

text \<open>Writes compose, and the bytes of an earlier write stay readable.\<close>

lemma wrote_trans:
  assumes "wrote a i b j" and "wrote b j c k"
  shows "wrote a i c k"
proof -
  from assms have f: "i \<le> j" "j \<le> k" "take j c = take j b" "drop j b = drop j a" by (simp_all add: wrote_def)
  have "take i c = take i (take j c)" using f(1) by (simp add: min.absorb1)
  also have "\<dots> = take i b" unfolding f(3) using f(1) by (simp add: min.absorb1)
  finally have "take i c = take i b" .
  moreover have "drop k b = drop (k - j) (drop j b)" using f(2) by simp
  then have "drop k b = drop k a" unfolding f(4) using f(2) by simp
  ultimately show ?thesis using assms by (simp add: wrote_def)
qed

lemma agree_sub:
  assumes "agree b b' i k" and "i \<le> j" and "j \<le> l" and "l \<le> k"
  shows "agree b b' j l"
proof -
  have "bytes c j l = take (l - j) (drop (j - i) (bytes c i k))" for c
    using assms(2-4) by (simp add: bytes_def drop_take min_def)
  then show ?thesis using assms by (auto simp: agree_def)
qed

lemma agree_refl: "i \<le> j \<Longrightarrow> j \<le> length b \<Longrightarrow> agree b b i j"
  by (simp add: agree_def)

lemma agree_trans: "agree a b i j \<Longrightarrow> agree b c i j \<Longrightarrow> agree a c i j"
  by (simp add: agree_def)

lemma agree_sym: "agree a b i j \<Longrightarrow> agree b a i j"
  by (simp add: agree_def)

lemma wrote_before:
  assumes "wrote a j b k" and "i \<le> i'" and "i' \<le> j" and "j \<le> length a"
  shows "agree a b i i'"
proof -
  have "bytes c i i' = take (i' - i) (drop i (take j c))" for c
    using assms(3) by (simp add: bytes_def drop_take)
  moreover have "take j a = take j b" "j \<le> length b" using assms(1) by (auto simp: wrote_def)
  ultimately show ?thesis using assms by (simp add: agree_def)
qed

lemma wrote_after:
  assumes "wrote a j b k" and "k \<le> i" and "i \<le> i'" and "i' \<le> length a"
  shows "agree a b i i'"
proof -
  have d: "drop k b = drop k a" using assms(1) by (simp add: wrote_def)
  have "drop i b = drop (i - k) (drop k b)" using assms(2) by simp
  then have "drop i b = drop i a" unfolding d using assms(2) by simp
  moreover have "length b - k = length a - k" using d by (metis length_drop)
  ultimately show ?thesis using assms by (auto simp: agree_def wrote_def bytes_def)
qed

lemma seq_codec_ok:
  assumes "codec_ok c" and "codec_ok d"
  shows "codec_ok (seq_codec c d)"
  unfolding codec_ok_def
proof (intro allI impI)
  fix xy buf pos buf' pos'
  assume pos: "pos \<le> length buf" and out: "out_of (seq_codec c d) xy buf pos = Some (buf', pos')"
  obtain x y where xy: "xy = (x, y)" by fastforce
  from out obtain b1 p1 where 1: "out_of c x buf pos = Some (b1, p1)" and 2: "out_of d y b1 p1 = Some (buf', pos')"
    by (auto simp: seq_codec_def xy bind_eq_Some_conv)
  note w1 = codec_okD(1)[OF assms(1) 1 pos]
  then have p1: "p1 \<le> length b1" by (simp add: wrote_def)
  note w2 = codec_okD(1)[OF assms(2) 2 p1]
  have "in_of (seq_codec c d) b pos = Some (xy, pos')" if "agree b buf' pos pos'" for b
  proof -
    have "agree b1 buf' pos p1" using wrote_before[OF w2 _ order_refl p1] w1 by (simp add: wrote_def)
    then have "agree b b1 pos p1"
      using agree_sub[OF that order_refl, of p1] w1 w2 by (auto simp: wrote_def intro: agree_trans agree_sym)
    moreover have "agree b buf' p1 pos'" using agree_sub[OF that, of p1 pos'] w1 w2 by (simp add: wrote_def)
    ultimately show ?thesis
      using codec_okD(2)[OF assms(1) 1 pos] codec_okD(2)[OF assms(2) 2 p1] by (simp add: seq_codec_def xy)
  qed
  then show "wrote buf pos buf' pos' \<and>
      (\<forall>b. agree b buf' pos pos' \<longrightarrow> in_of (seq_codec c d) b pos = Some (xy, pos'))"
    using wrote_trans[OF w1 w2] by blast
qed

lemma map_codec_ok:
  assumes "codec_ok c" and "\<And>y. f (g y) = y"
  shows "codec_ok (map_codec f g c)"
  unfolding codec_ok_def
proof (intro allI impI)
  fix y buf pos buf' pos'
  assume pos: "pos \<le> length buf" and "out_of (map_codec f g c) y buf pos = Some (buf', pos')"
  then have out: "out_of c (g y) buf pos = Some (buf', pos')" by (simp add: map_codec_def)
  show "wrote buf pos buf' pos' \<and>
      (\<forall>b. agree b buf' pos pos' \<longrightarrow> in_of (map_codec f g c) b pos = Some (y, pos'))"
    using codec_okD[OF assms(1) out pos] by (simp add: map_codec_def assms(2))
qed

lemma seq_fixed_size: "fixed_size c m \<Longrightarrow> fixed_size d n \<Longrightarrow> fixed_size (seq_codec c d) (m + n)"
  unfolding fixed_size_def seq_codec_def by (auto simp: bind_eq_Some_conv) (metis add.assoc)

lemma map_fixed_size: "fixed_size c n \<Longrightarrow> fixed_size (map_codec f g c) n"
  unfolding fixed_size_def by (auto simp: map_codec_def)

text \<open>Writing a value at a position and reading it there.\<close>

definition to_string :: "'a codec \<Rightarrow> 'a \<Rightarrow> string \<Rightarrow> nat \<Rightarrow> bool \<times> string" where
  "to_string c x buf pos = (case out_of c x buf pos of None \<Rightarrow> (False, buf) | Some (buf', pos') \<Rightarrow> (True, buf'))"

definition from_string :: "'a codec \<Rightarrow> string \<Rightarrow> nat \<Rightarrow> 'a option" where
  "from_string c buf pos = map_option fst (in_of c buf pos)"

lemma string_roundtrip:
  assumes "codec_ok c" and "to_string c x buf pos = (True, buf')" and "pos \<le> length buf"
  shows "from_string c buf' pos = Some x"
proof -
  from assms(2) obtain pos' where out: "out_of c x buf pos = Some (buf', pos')"
    by (auto simp: to_string_def split: option.splits)
  have "wrote buf pos buf' pos'" by (rule codec_okD(1)[OF assms(1) out assms(3)])
  then have "agree buf' buf' pos pos'" by (simp add: wrote_def agree_refl)
  from codec_okD(2)[OF assms(1) out assms(3) this] show ?thesis by (simp add: from_string_def)
qed

end
