(* ===== verification/BlockCodec.thy ===== *)
theory BlockCodec
  imports Codec
begin

text \<open>
  Blocks and their serialized form, \<^verbatim>\<open>include/proto/block.h\<close>, the fragment message of
  \<^verbatim>\<open>include/proto/fragment.h\<close>, and the archive functions of the requests, read-write sets and
  block orders. The codecs of the types the library handles itself (integers, arrays,
  strings, vectors) are the fields of \<open>prims\<close>.
\<close>

section \<open>Blocks\<close>

record Header =
  number :: "64 word"
  previousHash :: string
  dataHash :: string

record ExecuteResult =
  txReadWriteSet :: "TxReadWriteSet list"
  transactionFilter :: "8 word list"

type_synonym SignaturePair = "string \<times> SignatureString"

record Metadata =
  consensusSignatures :: "SignaturePair list"
  validateSignatures :: "SignaturePair list"

record Block =
  header :: Header
  body :: "Envelop list"
  executeResult :: ExecuteResult
  metadata :: Metadata

record PosList =
  valid :: bool
  headerPos :: nat
  bodyPos :: nat
  execResultPos :: nat
  metadataPos :: nat
  endPos :: nat

definition PosList_init :: PosList where
  "PosList_init = \<lparr>valid = False, headerPos = 0, bodyPos = 0, execResultPos = 0, metadataPos = 0, endPos = 0\<rparr>"

text \<open>A lookup compares all bytes of the digest.\<close>

fun findEnvelop :: "tid_type \<Rightarrow> Envelop list \<Rightarrow> Envelop option" where
  "findEnvelop d [] = None"
| "findEnvelop d (e # es) = (if CompareTID (digest (signature e)) d \<noteq> 0 then findEnvelop d es else Some e)"

text \<open>\<^verbatim>\<open>transactionFilter[i]\<close> is read without a check of its length.\<close>

definition findRWSet :: "tid_type \<Rightarrow> ExecuteResult \<Rightarrow> (TxReadWriteSet \<times> 8 word) option" where
  "findRWSet d er =
     (case filter (\<lambda>i. \<not> CompareTID (requestDigest (txReadWriteSet er ! i)) d \<noteq> 0) [0..<length (txReadWriteSet er)] of
        [] \<Rightarrow> None
      | i # is \<Rightarrow> Some (txReadWriteSet er ! i, transactionFilter er ! i))"

section \<open>Archive functions\<close>

record prims =
  c_u64 :: "64 word codec"
  c_u32 :: "32 word codec"
  c_i64 :: "int codec"
  c_i32 :: "int codec"
  c_hash :: "string codec"
  c_digest :: "tid_type codec"
  c_string :: "string codec"
  c_filter :: "8 word list codec"
  c_envelops :: "Envelop list codec"
  c_rwsets :: "TxReadWriteSet list codec"
  c_kvs :: "KVList codec"
  c_sigpairs :: "SignaturePair list codec"
  c_sigs :: "SignatureString list codec"

definition prims_ok :: "prims \<Rightarrow> bool" where
  "prims_ok z \<longleftrightarrow>
     codec_ok (c_u64 z) \<and> codec_ok (c_u32 z) \<and> codec_ok (c_i64 z) \<and> codec_ok (c_i32 z) \<and> codec_ok (c_hash z) \<and>
     codec_ok (c_digest z) \<and> codec_ok (c_string z) \<and> codec_ok (c_filter z) \<and> codec_ok (c_envelops z) \<and>
     codec_ok (c_rwsets z) \<and> codec_ok (c_kvs z) \<and> codec_ok (c_sigpairs z) \<and> codec_ok (c_sigs z)"

definition KV_serialize :: "prims \<Rightarrow> KV codec" where
  "KV_serialize z =
     map_codec (\<lambda>(k, v). \<lparr>kv_key = k, kv_value = v\<rparr>) (\<lambda>kv. (kv_key kv, kv_value kv))
       (seq_codec (c_string z) (c_string z))"

definition TxReadWriteSet_serialize :: "prims \<Rightarrow> TxReadWriteSet codec" where
  "TxReadWriteSet_serialize z =
     map_codec (\<lambda>(d, v, c, r, w). \<lparr>requestDigest = d, retValue = v, retCode = c, rw_reads = r, rw_writes = w\<rparr>)
       (\<lambda>t. (requestDigest t, retValue t, retCode t, rw_reads t, rw_writes t))
       (seq_codec (c_digest z) (seq_codec (c_string z) (seq_codec (c_i32 z) (seq_codec (c_kvs z) (c_kvs z)))))"

definition SignatureString_serialize :: "prims \<Rightarrow> SignatureString codec" where
  "SignatureString_serialize z =
     map_codec (\<lambda>(s, d). \<lparr>ski = s, digest = d\<rparr>) (\<lambda>s. (ski s, digest s)) (seq_codec (c_string z) (c_digest z))"

definition UserRequest_serialize :: "prims \<Rightarrow> UserRequest codec" where
  "UserRequest_serialize z =
     map_codec (\<lambda>(c, f, a, n). \<lparr>ccName = c, funcName = f, req_args = a, nonce = n\<rparr>)
       (\<lambda>r. (ccName r, funcName r, req_args r, nonce r))
       (seq_codec (c_string z) (seq_codec (c_string z) (seq_codec (c_string z) (c_i64 z))))"

definition Envelop_serialize :: "prims \<Rightarrow> Envelop codec" where
  "Envelop_serialize z =
     map_codec (\<lambda>(p, s). \<lparr>payload = p, signature = s\<rparr>) (\<lambda>e. (payload e, signature e))
       (seq_codec (c_string z) (SignatureString_serialize z))"

text \<open>\<^verbatim>\<open>Envelop::deserializeFromString\<close> returns the position after the envelope, or -1.\<close>

definition Envelop_deserializeFromString :: "prims \<Rightarrow> string \<Rightarrow> nat \<Rightarrow> int \<times> Envelop option" where
  "Envelop_deserializeFromString z buf pos =
     (case in_of (Envelop_serialize z) buf pos of None \<Rightarrow> (-1, None) | Some (e, pos') \<Rightarrow> (int pos', Some e))"

definition Envelop_serializeToString :: "prims \<Rightarrow> Envelop \<Rightarrow> string \<Rightarrow> nat \<Rightarrow> bool \<times> string" where
  "Envelop_serializeToString z e buf pos = to_string (Envelop_serialize z) e buf pos"

definition Header_serialize :: "prims \<Rightarrow> Header codec" where
  "Header_serialize z =
     map_codec (\<lambda>(n, p, d). \<lparr>number = n, previousHash = p, dataHash = d\<rparr>)
       (\<lambda>h. (number h, previousHash h, dataHash h))
       (seq_codec (c_u64 z) (seq_codec (c_hash z) (c_hash z)))"

definition ExecuteResult_serialize :: "prims \<Rightarrow> ExecuteResult codec" where
  "ExecuteResult_serialize z =
     map_codec (\<lambda>(t, f). \<lparr>txReadWriteSet = t, transactionFilter = f\<rparr>)
       (\<lambda>e. (txReadWriteSet e, transactionFilter e)) (seq_codec (c_rwsets z) (c_filter z))"

definition Metadata_serialize :: "prims \<Rightarrow> Metadata codec" where
  "Metadata_serialize z =
     map_codec (\<lambda>(c, v). \<lparr>consensusSignatures = c, validateSignatures = v\<rparr>)
       (\<lambda>m. (consensusSignatures m, validateSignatures m)) (seq_codec (c_sigpairs z) (c_sigpairs z))"

definition Header_serializeToString :: "prims \<Rightarrow> Header \<Rightarrow> string \<Rightarrow> nat \<Rightarrow> bool \<times> string" where
  "Header_serializeToString z h buf pos = to_string (Header_serialize z) h buf pos"

definition Header_deserializeFromString :: "prims \<Rightarrow> string \<Rightarrow> nat \<Rightarrow> Header option" where
  "Header_deserializeFromString z buf pos = from_string (Header_serialize z) buf pos"

section \<open>Block orders\<close>

record BlockOrderMsg =
  bo_chainId :: int
  bo_blockId :: int
  bo_voteChainId :: int
  bo_voteBlockId :: int

definition BlockOrder_serialize :: "prims \<Rightarrow> BlockOrderMsg codec" where
  "BlockOrder_serialize z =
     map_codec (\<lambda>(c, b, vc, vb). \<lparr>bo_chainId = c, bo_blockId = b, bo_voteChainId = vc, bo_voteBlockId = vb\<rparr>)
       (\<lambda>b. (bo_chainId b, bo_blockId b, bo_voteChainId b, bo_voteBlockId b))
       (seq_codec (c_i32 z) (seq_codec (c_i32 z) (seq_codec (c_i32 z) (c_i32 z))))"

definition BlockOrder_serializeToString :: "prims \<Rightarrow> BlockOrderMsg \<Rightarrow> string \<Rightarrow> nat \<Rightarrow> bool \<times> string" where
  "BlockOrder_serializeToString z bo buf pos = to_string (BlockOrder_serialize z) bo buf pos"

definition BlockOrder_deserializeFromString :: "prims \<Rightarrow> string \<Rightarrow> nat \<Rightarrow> BlockOrderMsg option" where
  "BlockOrder_deserializeFromString z buf pos = from_string (BlockOrder_serialize z) buf pos"

record SignedBlockOrder =
  serializedBlockOrder :: string
  signatures :: "SignatureString list"

definition SignedBlockOrder_serialize :: "prims \<Rightarrow> SignedBlockOrder codec" where
  "SignedBlockOrder_serialize z =
     map_codec (\<lambda>(o', s). \<lparr>serializedBlockOrder = o', signatures = s\<rparr>) (\<lambda>s. (serializedBlockOrder s, signatures s))
       (seq_codec (c_string z) (c_sigs z))"

definition SignedBlockOrder_serializeToString :: "prims \<Rightarrow> SignedBlockOrder \<Rightarrow> string \<Rightarrow> nat \<Rightarrow> bool \<times> string" where
  "SignedBlockOrder_serializeToString z s buf pos = to_string (SignedBlockOrder_serialize z) s buf pos"

definition SignedBlockOrder_deserializeFromString :: "prims \<Rightarrow> string \<Rightarrow> nat \<Rightarrow> SignedBlockOrder option" where
  "SignedBlockOrder_deserializeFromString z buf pos = from_string (SignedBlockOrder_serialize z) buf pos"

section \<open>Serialized blocks\<close>

text \<open>
  Every step records the position before it, and the first failure returns the positions so
  far. What a failing read leaves in the block is not used by the callers: there is no block
  then.
\<close>

definition Block_serializeToString :: "prims \<Rightarrow> Block \<Rightarrow> string \<Rightarrow> nat \<Rightarrow> PosList \<times> string" where
  "Block_serializeToString z b buf pos =
     (let pl = PosList_init\<lparr>headerPos := pos\<rparr> in
      case out_of (Header_serialize z) (header b) buf pos of None \<Rightarrow> (pl, buf) | Some (buf, pos) \<Rightarrow>
     (let pl = pl\<lparr>bodyPos := pos\<rparr> in
      case out_of (c_envelops z) (body b) buf pos of None \<Rightarrow> (pl, buf) | Some (buf, pos) \<Rightarrow>
     (let pl = pl\<lparr>execResultPos := pos\<rparr> in
      case out_of (ExecuteResult_serialize z) (executeResult b) buf pos of None \<Rightarrow> (pl, buf) | Some (buf, pos) \<Rightarrow>
     (let pl = pl\<lparr>metadataPos := pos\<rparr> in
      case out_of (Metadata_serialize z) (metadata b) buf pos of None \<Rightarrow> (pl, buf) | Some (buf, pos) \<Rightarrow>
        (pl\<lparr>endPos := pos, valid := True\<rparr>, buf)))))"

definition Block_deserializeFromString :: "prims \<Rightarrow> string option \<Rightarrow> nat \<Rightarrow> PosList \<times> Block option" where
  "Block_deserializeFromString z storage pos =
     (case storage of None \<Rightarrow> (PosList_init, None) | Some buf \<Rightarrow>
     (let pl = PosList_init\<lparr>headerPos := pos\<rparr> in
      case in_of (Header_serialize z) buf pos of None \<Rightarrow> (pl, None) | Some (h, pos) \<Rightarrow>
     (let pl = pl\<lparr>bodyPos := pos\<rparr> in
      case in_of (c_envelops z) buf pos of None \<Rightarrow> (pl, None) | Some (bd, pos) \<Rightarrow>
     (let pl = pl\<lparr>execResultPos := pos\<rparr> in
      case in_of (ExecuteResult_serialize z) buf pos of None \<Rightarrow> (pl, None) | Some (er, pos) \<Rightarrow>
     (let pl = pl\<lparr>metadataPos := pos\<rparr> in
      case in_of (Metadata_serialize z) buf pos of None \<Rightarrow> (pl, None) | Some (md, pos) \<Rightarrow>
        (pl\<lparr>endPos := pos, valid := True\<rparr>,
         Some \<lparr>header = h, body = bd, executeResult = er, metadata = md\<rparr>))))))"

definition UpdateSerializedHeader :: "prims \<Rightarrow> Header \<Rightarrow> string \<Rightarrow> nat \<Rightarrow> PosList \<times> string" where
  "UpdateSerializedHeader z h buf pos =
     (let pl = PosList_init\<lparr>headerPos := pos\<rparr> in
      case out_of (Header_serialize z) h buf pos of None \<Rightarrow> (pl, buf) | Some (buf, pos) \<Rightarrow>
        (pl\<lparr>bodyPos := pos, valid := True\<rparr>, buf))"

definition AppendSerializedExecutionResult :: "prims \<Rightarrow> Block \<Rightarrow> string \<Rightarrow> nat \<Rightarrow> PosList \<times> string" where
  "AppendSerializedExecutionResult z b buf pos =
     (let pl = PosList_init\<lparr>execResultPos := pos\<rparr> in
      case out_of (ExecuteResult_serialize z) (executeResult b) buf pos of None \<Rightarrow> (pl, buf) | Some (buf, pos) \<Rightarrow>
     (let pl = pl\<lparr>metadataPos := pos\<rparr> in
      case out_of (Metadata_serialize z) (metadata b) buf pos of None \<Rightarrow> (pl, buf) | Some (buf, pos) \<Rightarrow>
        (pl\<lparr>endPos := pos, valid := True\<rparr>, buf)))"

definition AppendSerializedMetadata :: "prims \<Rightarrow> Metadata \<Rightarrow> string \<Rightarrow> nat \<Rightarrow> PosList \<times> string" where
  "AppendSerializedMetadata z m buf pos =
     (let pl = PosList_init\<lparr>metadataPos := pos\<rparr> in
      case out_of (Metadata_serialize z) m buf pos of None \<Rightarrow> (pl, buf) | Some (buf, pos) \<Rightarrow>
        (pl\<lparr>endPos := pos, valid := True\<rparr>, buf))"

section \<open>Fragments\<close>

record EncodeBlockFragment =
  blockSignatures :: "SignaturePair list"
  ebf_blockNumber :: "64 word"
  ebf_root :: string
  ebf_size :: "64 word"
  ebf_start :: "32 word"
  ebf_end :: "32 word"
  encodeMessage :: string

definition ebf_fields :: "prims \<Rightarrow> (SignaturePair list \<times> 64 word \<times> string \<times> 64 word \<times> 32 word \<times> 32 word) codec" where
  "ebf_fields z = seq_codec (c_sigpairs z) (seq_codec (c_u64 z) (seq_codec (c_hash z)
     (seq_codec (c_u64 z) (seq_codec (c_u32 z) (c_u32 z)))))"

definition EBF_serializeToString :: "prims \<Rightarrow> EncodeBlockFragment \<Rightarrow> string \<Rightarrow> nat \<Rightarrow> bool \<Rightarrow> bool \<times> string" where
  "EBF_serializeToString z f buf offset withBody =
     (case out_of (ebf_fields z)
        (blockSignatures f, ebf_blockNumber f, ebf_root f, ebf_size f, ebf_start f, ebf_end f) buf offset of
        None \<Rightarrow> (False, buf)
      | Some (buf, pos) \<Rightarrow> if \<not> withBody then (True, buf) else (True, take pos buf @ encodeMessage f))"

definition EBF_deserializeFromString :: "prims \<Rightarrow> string \<Rightarrow> nat \<Rightarrow> EncodeBlockFragment option" where
  "EBF_deserializeFromString z raw offset =
     (case in_of (ebf_fields z) raw offset of
        None \<Rightarrow> None
      | Some ((sigs, n, r, sz, s, e), pos) \<Rightarrow>
          Some \<lparr>blockSignatures = sigs, ebf_blockNumber = n, ebf_root = r, ebf_size = sz, ebf_start = s, ebf_end = e,
                encodeMessage = drop pos raw\<rparr>)"

end
