(* ===== verification/GlobalOrder.thy ===== *)
theory GlobalOrder
  imports BlockOrder BlockCodec
begin

text \<open>
  How a group votes on the order of blocks: the order assigner of
  \<^verbatim>\<open>block_order/interchain_order_manager.h\<close>, the callbacks of the Raft groups in
  \<^verbatim>\<open>block_order/global_ordering.h\<close> and the status of a Raft group in
  \<^verbatim>\<open>block_order/agreement_raft_fsm.h\<close>.

  Raft itself is a library: a proposal of the leader is appended to the list \<open>proposed\<close>,
  and an applied entry arrives at \<^verbatim>\<open>applyRawBlockOrder\<close>. Entries are read with the archives of
  \<open>BlockCodec\<close>; the verification of signatures and the arrival of a block are arguments.
\<close>

section \<open>Votes for blocks\<close>

record Slot =
  slot_blockId :: nat
  slot_votes :: "nat list"
  slot_finished :: bool

definition MAX_BLOCK_QUEUE_SIZE :: nat where "MAX_BLOCK_QUEUE_SIZE = 256"

type_synonym BlockVotes = "nat \<Rightarrow> nat \<Rightarrow> Slot"

definition new_BlockVotes :: BlockVotes where
  "new_BlockVotes = (\<lambda>_ _. \<lparr>slot_blockId = 0, slot_votes = [], slot_finished = False\<rparr>)"

text \<open>
  \<^verbatim>\<open>getRef\<close>: the slot of a block in the ring of its chain, cleared if it belongs to an
  older block. The slot of a newer block is returned as it is.
\<close>

definition getRef :: "nat \<Rightarrow> nat \<Rightarrow> BlockVotes \<Rightarrow> Slot" where
  "getRef chainId blockId bv =
     (let res = bv chainId (blockId mod MAX_BLOCK_QUEUE_SIZE) in
      if slot_blockId res < blockId
      then \<lparr>slot_blockId = blockId, slot_votes = [], slot_finished = False\<rparr>
      else res)"

definition setRef :: "nat \<Rightarrow> nat \<Rightarrow> Slot \<Rightarrow> BlockVotes \<Rightarrow> BlockVotes" where
  "setRef chainId blockId s bv =
     bv(chainId := (bv chainId)(blockId mod MAX_BLOCK_QUEUE_SIZE := s))"

section \<open>The order assigner\<close>

record OrderAssigner =
  myClock :: int
  myChainId :: nat
  blockVotes :: BlockVotes

definition new_OrderAssigner :: "nat \<Rightarrow> OrderAssigner" where
  "new_OrderAssigner chain = \<lparr>myClock = -1, myChainId = chain, blockVotes = new_BlockVotes\<rparr>"

definition getBlockOrder :: "nat \<Rightarrow> nat \<Rightarrow> OrderAssigner \<Rightarrow> (int \<times> int) \<times> OrderAssigner" where
  "getBlockOrder chainId blockId oa =
     (let res = getRef chainId blockId (blockVotes oa) in
      if slot_finished res then ((-1, -1), oa\<lparr>blockVotes := setRef chainId blockId res (blockVotes oa)\<rparr>)
      else
        ((int (myChainId oa), if myChainId oa = chainId then int blockId else myClock oa),
         oa\<lparr>blockVotes := setRef chainId blockId (res\<lparr>slot_finished := True\<rparr>) (blockVotes oa)\<rparr>))"

definition addVoteForBlock :: "nat \<Rightarrow> nat \<Rightarrow> nat \<Rightarrow> OrderAssigner \<Rightarrow> int \<times> OrderAssigner" where
  "addVoteForBlock chainId blockId voteChainId oa =
     (if myChainId oa = chainId then (-1, oa)
      else
        (let res = getRef chainId blockId (blockVotes oa) in
         if slot_finished res then (-1, oa\<lparr>blockVotes := setRef chainId blockId res (blockVotes oa)\<rparr>)
         else
           (let res' = res\<lparr>slot_votes := List.insert voteChainId (slot_votes res)\<rparr>
            in (int (length (slot_votes res')),
                oa\<lparr>blockVotes := setRef chainId blockId res' (blockVotes oa)\<rparr>))))"

definition getVoteForBlock :: "nat \<Rightarrow> nat \<Rightarrow> OrderAssigner \<Rightarrow> int \<times> OrderAssigner" where
  "getVoteForBlock chainId blockId oa =
     (if myChainId oa = chainId then (-1, oa)
      else
        (let res = getRef chainId blockId (blockVotes oa);
             oa' = oa\<lparr>blockVotes := setRef chainId blockId res (blockVotes oa)\<rparr>
         in (if slot_finished res then -1 else int (length (slot_votes res)), oa')))"

definition increaseLocalClock :: "nat \<Rightarrow> nat \<Rightarrow> OrderAssigner \<Rightarrow> fault + bool \<times> OrderAssigner" where
  "increaseLocalClock chainId blockId oa =
     (if myChainId oa = chainId then
        (if int blockId - 1 < myClock oa then Inr (False, oa)
         else if int blockId - 1 \<noteq> myClock oa then Inl CheckFailed
         else Inr (True, oa\<lparr>myClock := int blockId\<rparr>))
      else Inr (False, oa))"

section \<open>The node\<close>

record Node =
  isRaftLeader :: bool
  assigner :: OrderAssigner
  orderManager :: Manager
  proposed :: "BlockOrderMsg list"

definition voteNewBlock :: "nat \<Rightarrow> nat \<Rightarrow> Node \<Rightarrow> bool \<times> Node" where
  "voteNewBlock chainId blockId nd =
     (if \<not> isRaftLeader nd then (False, nd)
      else
        (case getBlockOrder chainId blockId (assigner nd) of
           (localVC, oa) \<Rightarrow>
             (let nd' = nd\<lparr>assigner := oa\<rparr> in
              if fst localVC = -1 \<and> snd localVC = -1 then (True, nd')
              else
                (True, nd'\<lparr>proposed := proposed nd @
                   [\<lparr>bo_chainId = int chainId, bo_blockId = int blockId,
                     bo_voteChainId = fst localVC, bo_voteBlockId = snd localVC\<rparr>]\<rparr>))))"

definition minThreshHold :: "nat \<Rightarrow> int" where
  "minThreshHold groupCount = int (groupCount div 2 + 1)"

text \<open>
  The two callbacks that the leader of a group installs; on other nodes they return true.
\<close>

definition getBlockVoteCountCallback :: "nat \<Rightarrow> nat \<Rightarrow> nat \<Rightarrow> Node \<Rightarrow> fault + bool \<times> Node" where
  "getBlockVoteCountCallback groupCount chainId blockId nd =
     (if \<not> isRaftLeader nd then Inr (True, nd)
      else
        (case getVoteForBlock chainId blockId (assigner nd) of
           (cnt, oa) \<Rightarrow>
             if \<not> cnt \<le> int groupCount then Inl CheckFailed
             else Inr (cnt < 0 \<or> minThreshHold groupCount \<le> cnt, nd\<lparr>assigner := oa\<rparr>)))"

definition increaseBlockVoteCallback :: "nat \<Rightarrow> nat \<Rightarrow> nat \<Rightarrow> nat \<Rightarrow> Node \<Rightarrow> fault + bool \<times> Node" where
  "increaseBlockVoteCallback groupCount chainId blockId voteChainId nd =
     (if \<not> isRaftLeader nd then Inr (True, nd)
      else
        (case addVoteForBlock chainId blockId voteChainId (assigner nd) of
           (cnt, oa) \<Rightarrow>
             if \<not> cnt \<le> int groupCount then Inl CheckFailed
             else if cnt \<noteq> minThreshHold groupCount then Inr (True, nd\<lparr>assigner := oa\<rparr>)
             else Inr (voteNewBlock chainId blockId (nd\<lparr>assigner := oa\<rparr>))))"

section \<open>Validation of a log entry\<close>

text \<open>
  Up to twenty rounds of waiting for the block; \<open>arrived i\<close> tells whether the block is
  there after round \<open>i\<close>.
\<close>

fun wait_rounds :: "nat \<Rightarrow> (nat \<Rightarrow> bool) \<Rightarrow> nat \<Rightarrow> nat \<Rightarrow> nat \<Rightarrow> Node \<Rightarrow> fault + bool \<times> Node" where
  "wait_rounds 0 arrived groupCount c b nd = Inr (False, nd)"
| "wait_rounds (Suc k) arrived groupCount c b nd =
     (if arrived (20 - Suc k) then Inr (True, nd)
      else
        (case getBlockVoteCountCallback groupCount c b nd of
           Inl e \<Rightarrow> Inl e
         | Inr (True, nd') \<Rightarrow> Inr (True, nd')
         | Inr (False, nd') \<Rightarrow> wait_rounds k arrived groupCount c b nd'))"

definition onValidate ::
  "prims \<Rightarrow> (SignedBlockOrder \<Rightarrow> bool) \<Rightarrow> (nat \<Rightarrow> bool) \<Rightarrow>
     nat \<Rightarrow> string \<Rightarrow> Node \<Rightarrow> fault + bool \<times> Node" where
  "onValidate z sigs_ok arrived groupCount decision nd =
     (case SignedBlockOrder_deserializeFromString z decision 0 of
        None \<Rightarrow> Inr (False, nd)
      | Some sb \<Rightarrow>
          (case BlockOrder_deserializeFromString z (serializedBlockOrder sb) 0 of
             None \<Rightarrow> Inr (False, nd)
           | Some bo \<Rightarrow>
               if bo_voteChainId bo = -1 then Inr (True, nd)
               else
                 (let c = nat (bo_chainId bo); b = nat (bo_blockId bo) in
                  case increaseBlockVoteCallback groupCount c b (nat (bo_voteChainId bo)) nd of
                    Inl e \<Rightarrow> Inl e
                  | Inr (False, nd') \<Rightarrow> Inr (False, nd')
                  | Inr (True, nd') \<Rightarrow>
                      (case getBlockVoteCountCallback groupCount c b nd' of
                         Inl e \<Rightarrow> Inl e
                       | Inr (True, nd'') \<Rightarrow> Inr (True, nd'')
                       | Inr (False, nd'') \<Rightarrow>
                           if signatures sb \<noteq> [] \<and> \<not> sigs_ok sb then Inr (False, nd'')
                           else wait_rounds 20 arrived groupCount c b nd''))))"

section \<open>Application of a log entry\<close>

definition with_manager :: "Node \<Rightarrow> (fault + Manager) option \<Rightarrow> (fault + bool \<times> Node) option" where
  "with_manager nd r =
     (case r of None \<Rightarrow> None
      | Some (Inl e) \<Rightarrow> Some (Inl e)
      | Some (Inr m) \<Rightarrow> Some (Inr (True, nd\<lparr>orderManager := m\<rparr>)))"

definition applyRawBlockOrder ::
  "prims \<Rightarrow> string \<Rightarrow> Node \<Rightarrow>
     (fault + bool \<times> Node) option" where
  "applyRawBlockOrder z decision nd =
     (case SignedBlockOrder_deserializeFromString z decision 0 of
        None \<Rightarrow> Some (Inr (False, nd))
      | Some sb \<Rightarrow>
          (case BlockOrder_deserializeFromString z (serializedBlockOrder sb) 0 of
             None \<Rightarrow> Some (Inr (False, nd))
           | Some bo \<Rightarrow>
               if bo_voteChainId bo = -1 then
                 (if bo_blockId bo = -1 \<and> bo_voteBlockId bo = -1
                  then with_manager nd (manager_invalidateChain (nat (bo_chainId bo)) (orderManager nd))
                  else Some (Inl CheckFailed))
               else
                 (let c = nat (bo_chainId bo); b = nat (bo_blockId bo) in
                  case (if isRaftLeader nd then increaseLocalClock c b (assigner nd)
                        else Inr (False, assigner nd)) of
                    Inl e \<Rightarrow> Some (Inl e)
                  | Inr (_, oa) \<Rightarrow>
                      with_manager (nd\<lparr>assigner := oa\<rparr>)
                        (pushDecision c b (nat (bo_voteChainId bo)) (bo_voteBlockId bo) (orderManager nd)))))"

text \<open>\<^verbatim>\<open>on_apply\<close> of the Raft state machine stops at the first entry that is refused.\<close>

fun on_apply ::
  "prims \<Rightarrow> string list \<Rightarrow> Node \<Rightarrow>
     (fault + bool \<times> Node) option" where
  "on_apply z [] nd = Some (Inr (True, nd))"
| "on_apply z (x # xs) nd =
     (case applyRawBlockOrder z x nd of
        Some (Inr (True, nd')) \<Rightarrow> on_apply z xs nd'
      | r \<Rightarrow> r)"

section \<open>Status of a Raft group\<close>

datatype Status = INIT | READY_STATUS | ERROR_STATUS

datatype raft_event = LeaderStart | StopFollowing nat | StartFollowing nat | ReadyCall

text \<open>
  The events of one node in the group of leader \<open>leaderId\<close>. \<^verbatim>\<open>ready\<close> returns once the
  status is no longer \<^verbatim>\<open>INIT\<close> and stores \<^verbatim>\<open>READY\<close> whatever it was. A stopped leader is
  reported by \<^verbatim>\<open>onError\<close>, the second component.
\<close>

fun raft_step :: "nat \<Rightarrow> nat \<Rightarrow> raft_event \<Rightarrow> Status \<Rightarrow> Status \<times> nat option" where
  "raft_step myId leaderId LeaderStart s = (if myId \<noteq> leaderId then s else READY_STATUS, None)"
| "raft_step myId leaderId (StopFollowing p) s =
     (if p = leaderId then (ERROR_STATUS, Some leaderId) else (s, None))"
| "raft_step myId leaderId (StartFollowing p) s = (if p = leaderId then READY_STATUS else s, None)"
| "raft_step myId leaderId ReadyCall s = (if s = INIT then INIT else READY_STATUS, None)"

end
