(* ===== verification/OrderProperties.thy ===== *)
theory OrderProperties
  imports BlockOrderCorrect GlobalOrder
begin

text \<open>
  The properties of the order of blocks across groups: agreement and progress of the
  manager, the behaviour of the order assigner, and two ways in which the manager fails.
\<close>

section \<open>Agreement and progress\<close>

definition order_run :: "nat \<Rightarrow> decision list \<Rightarrow> (fault + Manager) option" where
  "order_run n ds = (case setGroupCount n of Inl e \<Rightarrow> Some (Inl e) | Inr m \<Rightarrow> pushAll ds m)"

lemma order_run_initial: "order_run n ds = pushAll ds (initial n)"
  by (simp add: order_run_def setGroupCount_run)

text \<open>
  C3: agreement on the order of blocks. Let every group have an orderly log of votes, and
  let two nodes process decisions that, voter by voter, are prefixes of these logs, in any
  interleaving. Then neither run fails a check or loops, and of the two sequences of
  delivered blocks one is a prefix of the other.
\<close>

theorem blocks_agree:
  assumes "\<forall>v. orderly (L v)" and "2 \<le> n" and "fits n L ds" and "fits n L ds'"
  shows "\<exists>m m'. order_run n ds = Some (Inr m) \<and> order_run n ds' = Some (Inr m') \<and>
     (prefix (delivered m) (delivered m') \<or> prefix (delivered m') (delivered m))"
proof -
  obtain m where m: "order_run n ds = Some (Inr m)" "delivered_inv n (final_vote L) m"
    using run_ok[OF assms(1-3)] by (auto simp: order_run_initial)
  obtain m' where m': "order_run n ds' = Some (Inr m')" "delivered_inv n (final_vote L) m'"
    using run_ok[OF assms(1,2,4)] by (auto simp: order_run_initial)
  from m m' delivered_agree[OF m(2) m'(2)] show ?thesis by blast
qed

text \<open>Two groups that have each voted on two blocks of the other.\<close>

definition demo_logs :: "nat \<Rightarrow> vote list" where
  "demo_logs v =
     (if v = 0 then [(1, 0, 0), (1, 1, 2)] else if v = 1 then [(0, 0, -1), (0, 1, 0)] else [])"

definition demo_decisions :: "decision list" where
  "demo_decisions = [(1, 0, 0, 0), (0, 0, 1, -1), (1, 1, 0, 2), (0, 1, 1, 0)]"

definition demo_decisions' :: "decision list" where
  "demo_decisions' = [(0, 0, 1, -1), (0, 1, 1, 0), (1, 0, 0, 0)]"

lemma demo_orderly: "\<forall>v. orderly (demo_logs v)"
  by (simp add: demo_logs_def orderly_def about_def)

lemma demo_fits: "fits 2 demo_logs demo_decisions" "fits 2 demo_logs demo_decisions'"
  by (auto simp: fits_def demo_logs_def demo_decisions_def demo_decisions'_def log_of_def less_2_cases_iff)

theorem blocks_agree_witness:
  "\<exists>m m'. order_run 2 demo_decisions = Some (Inr m) \<and> order_run 2 demo_decisions' = Some (Inr m') \<and>
     (prefix (delivered m) (delivered m') \<or> prefix (delivered m') (delivered m))"
  using blocks_agree[OF demo_orderly _ demo_fits] by simp




section \<open>Failures of the manager\<close>

text \<open>
  a gap in the block numbers. The cells that fill a gap in a chain all get the number
  of the requested block, so when decisions on a later block of a group arrive before
  those on an earlier one, the delivery of the block before the gap fails a check and
  ends the process.
\<close>

theorem gap_aborts:
  "order_run 2 [(0, 2, 1, -1), (0, 0, 1, -1), (1, 0, 0, 5)] = Some (Inl CheckFailed)"
  by code_simp

definition unvoted :: "nat \<Rightarrow> Cell" where
  "unvoted k = \<lparr>cell_groupId = Suc 0, cell_blockId = k, watermarks = [-1, int k], is_real = [True, True]\<rparr>"




lemma unvoted_fields [simp]:
  "cell_groupId (unvoted k) = Suc 0" "cell_blockId (unvoted k) = k" "length (watermarks (unvoted k)) = 2"
  "cell_groupId (new_Cell n g b) = g" "cell_blockId (new_Cell n g b) = b" "length (watermarks (new_Cell n g b)) = n"
  by (simp_all add: unvoted_def new_Cell_def)







section \<open>The order assigner\<close>

text \<open>The calls that change the assigner of a leader.\<close>

datatype assigner_call = Vote nat nat | AddVote nat nat nat | CountVotes nat nat | Tick nat nat

fun assigner_step :: "assigner_call \<Rightarrow> Node \<Rightarrow> fault + Node" where
  "assigner_step (Vote c b) nd = Inr (snd (voteNewBlock c b nd))"
| "assigner_step (AddVote c b v) nd = Inr (nd\<lparr>assigner := snd (addVoteForBlock c b v (assigner nd))\<rparr>)"
| "assigner_step (CountVotes c b) nd = Inr (nd\<lparr>assigner := snd (getVoteForBlock c b (assigner nd))\<rparr>)"
| "assigner_step (Tick c b) nd =
     (case increaseLocalClock c b (assigner nd) of Inl e \<Rightarrow> Inl e | Inr (_, oa) \<Rightarrow> Inr (nd\<lparr>assigner := oa\<rparr>))"

fun assigner_run :: "assigner_call list \<Rightarrow> Node \<Rightarrow> fault + Node" where
  "assigner_run [] nd = Inr nd"
| "assigner_run (x # xs) nd = (case assigner_step x nd of Inl e \<Rightarrow> Inl e | Inr nd' \<Rightarrow> assigner_run xs nd')"






definition new_leader :: "nat \<Rightarrow> Manager \<Rightarrow> Node" where
  "new_leader c m = \<lparr>isRaftLeader = True, assigner = new_OrderAssigner c, orderManager = m, proposed = []\<rparr>"


definition demo_calls :: "assigner_call list" where
  "demo_calls = [Vote 1 0, Tick 0 0, AddVote 1 1 2, Vote 1 1, Vote 1 1, Vote 0 1, Tick 0 1, Vote 1 2]"

lemma demo_calls_run:
  "map_sum id (map bo_voteBlockId \<circ> proposed) (assigner_run demo_calls (new_leader 0 (initial 2)))
     = Inr [-1, 0, 1, 1]"
  by code_simp


text \<open>The block a call is about, and calls that come before the slot of a block is reused.\<close>

fun call_block :: "assigner_call \<Rightarrow> (nat \<times> nat) option" where
  "call_block (Vote c b) = Some (c, b)"
| "call_block (AddVote c b v) = Some (c, b)"
| "call_block (CountVotes c b) = Some (c, b)"
| "call_block (Tick c b) = None"

definition before_reuse :: "nat \<Rightarrow> nat \<Rightarrow> assigner_call \<Rightarrow> bool" where
  "before_reuse c b x =
     (case call_block x of None \<Rightarrow> True
      | Some (c', b') \<Rightarrow> c' = c \<longrightarrow> b' mod MAX_BLOCK_QUEUE_SIZE = b mod MAX_BLOCK_QUEUE_SIZE \<longrightarrow> b' \<le> b)"

definition votes_on :: "nat \<Rightarrow> nat \<Rightarrow> Node \<Rightarrow> nat" where
  "votes_on c b nd = length (filter (\<lambda>bo. bo_chainId bo = int c \<and> bo_blockId bo = int b) (proposed nd))"

definition slot_inv :: "nat \<Rightarrow> nat \<Rightarrow> Node \<Rightarrow> bool" where
  "slot_inv c b nd \<longleftrightarrow>
     (let s = blockVotes (assigner nd) c (b mod MAX_BLOCK_QUEUE_SIZE) in
      if slot_blockId s < b then votes_on c b nd = 0
      else slot_blockId s = b \<and> (votes_on c b nd = 0 \<or> slot_finished s \<and> votes_on c b nd = 1))"

text \<open>
  A call about block \<open>(c', b')\<close> leaves every other slot alone and in its own slot keeps
  the finished flag of the block it finds there.
\<close>

lemma slot_inv_set:
  assumes "slot_inv c b nd" and "c' = c \<Longrightarrow> b' mod MAX_BLOCK_QUEUE_SIZE = b mod MAX_BLOCK_QUEUE_SIZE \<Longrightarrow> b' \<le> b"
    and "blockVotes (assigner nd') = setRef c' b' s (blockVotes (assigner nd))"
    and "slot_blockId s = slot_blockId (getRef c' b' (blockVotes (assigner nd)))"
    and "slot_finished (getRef c' b' (blockVotes (assigner nd))) \<Longrightarrow> slot_finished s"
    and "proposed nd' = proposed nd \<or>
      slot_finished s \<and> \<not> slot_finished (getRef c' b' (blockVotes (assigner nd))) \<and>
      (\<exists>bo. proposed nd' = proposed nd @ [bo] \<and> bo_chainId bo = int c' \<and> bo_blockId bo = int b')"
  shows "slot_inv c b nd'"
proof (cases "c' = c \<and> b' mod MAX_BLOCK_QUEUE_SIZE = b mod MAX_BLOCK_QUEUE_SIZE")
  case False
  then have "votes_on c b nd' = votes_on c b nd"
    using assms(6) by (auto simp: votes_on_def)
  moreover have "blockVotes (assigner nd') c (b mod MAX_BLOCK_QUEUE_SIZE)
      = blockVotes (assigner nd) c (b mod MAX_BLOCK_QUEUE_SIZE)"
    using False assms(3) by (auto simp: setRef_def)
  ultimately show ?thesis using assms(1) by (simp only: slot_inv_def)
next
  case True
  let ?old = "blockVotes (assigner nd) c (b mod MAX_BLOCK_QUEUE_SIZE)"
  have new: "blockVotes (assigner nd') c (b mod MAX_BLOCK_QUEUE_SIZE) = s"
    using True assms(3) by (simp add: setRef_def)
  have le: "b' \<le> b" using True assms(2) by simp
  have ref: "getRef c' b' (blockVotes (assigner nd)) =
      (if slot_blockId ?old < b' then \<lparr>slot_blockId = b', slot_votes = [], slot_finished = False\<rparr> else ?old)"
    using True by (simp add: getRef_def Let_def)
  have votes: "votes_on c b nd' = votes_on c b nd \<or>
      slot_finished s \<and> \<not> slot_finished (getRef c' b' (blockVotes (assigner nd))) \<and>
      votes_on c b nd' = votes_on c b nd + (if b' = b then 1 else 0)"
    using assms(6) True by (auto simp: votes_on_def)
  show ?thesis
    using assms(1,4,5) votes le unfolding slot_inv_def new Let_def ref
    by (auto split: if_splits)
qed

lemma slot_inv_step:
  assumes "slot_inv c b nd" and "before_reuse c b x" and "assigner_step x nd = Inr nd'"
  shows "slot_inv c b nd'"
proof (cases x)
  case (Vote c' b')
  let ?r = "getRef c' b' (blockVotes (assigner nd))"
  have nd': "nd' = snd (voteNewBlock c' b' nd)" using assms(3) Vote by simp
  show ?thesis
  proof (cases "isRaftLeader nd")
    case True
    show ?thesis
      by (rule slot_inv_set[OF assms(1), of c' b' nd' "if slot_finished ?r then ?r else ?r\<lparr>slot_finished := True\<rparr>"])
        (use assms(2) Vote True in \<open>auto simp: before_reuse_def nd' voteNewBlock_def getBlockOrder_def Let_def\<close>)
  qed (use assms(1) nd' in \<open>simp add: voteNewBlock_def\<close>)
next
  case (AddVote c' b' v)
  let ?r = "getRef c' b' (blockVotes (assigner nd))"
  have nd': "nd' = nd\<lparr>assigner := snd (addVoteForBlock c' b' v (assigner nd))\<rparr>" using assms(3) AddVote by simp
  show ?thesis
  proof (cases "myChainId (assigner nd) = c'")
    case False
    show ?thesis
      by (rule slot_inv_set[OF assms(1), of c' b' nd'
            "if slot_finished ?r then ?r else ?r\<lparr>slot_votes := List.insert v (slot_votes ?r)\<rparr>"])
        (use assms(2) AddVote False in \<open>auto simp: before_reuse_def nd' addVoteForBlock_def Let_def\<close>)
  qed (use assms(1) nd' in \<open>simp add: addVoteForBlock_def\<close>)
next
  case (CountVotes c' b')
  let ?r = "getRef c' b' (blockVotes (assigner nd))"
  have nd': "nd' = nd\<lparr>assigner := snd (getVoteForBlock c' b' (assigner nd))\<rparr>" using assms(3) CountVotes by simp
  show ?thesis
  proof (cases "myChainId (assigner nd) = c'")
    case False
    show ?thesis
      by (rule slot_inv_set[OF assms(1), of c' b' nd' ?r])
        (use assms(2) CountVotes False in \<open>auto simp: before_reuse_def nd' getVoteForBlock_def Let_def\<close>)
  qed (use assms(1) nd' in \<open>simp add: getVoteForBlock_def\<close>)
next
  case (Tick c' b')
  then have "blockVotes (assigner nd') = blockVotes (assigner nd)" "proposed nd' = proposed nd"
    using assms(3) by (auto simp: increaseLocalClock_def split: if_splits)
  then show ?thesis using assms(1) by (simp only: slot_inv_def votes_on_def)
qed

text \<open>
  C26: a leader votes at most once on a block. Whatever calls its assigner gets before the
  slot of the block in the ring of 256 slots is taken by a later block, there is at most
  one proposal for the block.
\<close>

theorem vote_once:
  assumes "assigner_run xs (new_leader own m) = Inr nd" and "list_all (before_reuse c b) xs"
  shows "votes_on c b nd \<le> 1"
proof -
  have "slot_inv c b nd'" if "slot_inv c b nd0" "assigner_run ys nd0 = Inr nd'" "list_all (before_reuse c b) ys"
    for nd0 nd' ys
    using that
  proof (induction ys arbitrary: nd0)
    case (Cons y ys)
    then obtain nd1 where "assigner_step y nd0 = Inr nd1" "assigner_run ys nd1 = Inr nd'"
      by (auto split: sum.splits)
    with Cons.IH[of nd1] slot_inv_step[OF Cons.prems(1) _, of y nd1] Cons.prems(3) show ?case by simp
  qed simp
  moreover have "slot_inv c b (new_leader own m)"
    by (simp add: slot_inv_def new_leader_def new_OrderAssigner_def new_BlockVotes_def votes_on_def)
  ultimately have "slot_inv c b nd" using assms by blast
  then show ?thesis by (auto simp: slot_inv_def Let_def split: if_splits)
qed

theorem vote_once_witness:
  "\<exists>nd. assigner_run demo_calls (new_leader 0 (initial 2)) = Inr nd \<and> votes_on 1 1 nd \<le> 1"
proof -
  obtain nd where nd: "assigner_run demo_calls (new_leader 0 (initial 2)) = Inr nd"
    using demo_calls_run by (cases "assigner_run demo_calls (new_leader 0 (initial 2))") auto
  have "list_all (before_reuse 1 1) demo_calls" by code_simp
  from vote_once[OF nd this] nd show ?thesis by blast
qed

text \<open>
  a majority forces a vote. When an entry of another group brings the number of votes
  on a block to more than half of the groups and the leader has not voted on that block,
  validating the entry makes the leader propose its own vote with its current clock.
\<close>

theorem majority_forces_vote:
  assumes "isRaftLeader nd" and "myChainId (assigner nd) \<noteq> c"
    and "blockVotes (assigner nd) c (b mod MAX_BLOCK_QUEUE_SIZE) =
           \<lparr>slot_blockId = b, slot_votes = vs, slot_finished = False\<rparr>"
    and "v \<notin> set vs" and "Suc (length vs) = groupCount div 2 + 1" and "0 < groupCount"
  shows "\<exists>nd'. increaseBlockVoteCallback groupCount c b v nd = Inr (True, nd') \<and>
     proposed nd' = proposed nd @ [\<lparr>bo_chainId = int c, bo_blockId = int b,
        bo_voteChainId = int (myChainId (assigner nd)), bo_voteBlockId = myClock (assigner nd)\<rparr>] \<and>
     slot_finished (blockVotes (assigner nd') c (b mod MAX_BLOCK_QUEUE_SIZE))"
  using assms
  by (auto simp: increaseBlockVoteCallback_def addVoteForBlock_def getRef_def setRef_def Let_def
      minThreshHold_def voteNewBlock_def getBlockOrder_def)

theorem majority_forces_vote_witness:
  "\<exists>nd'. increaseBlockVoteCallback 3 1 0 2
       ((new_leader 0 (initial 3))\<lparr>assigner := snd (addVoteForBlock 1 0 1 (new_OrderAssigner 0))\<rparr>) = Inr (True, nd') \<and>
     length (proposed nd') = 1"
proof -
  let ?nd = "(new_leader 0 (initial 3))\<lparr>assigner := snd (addVoteForBlock 1 0 1 (new_OrderAssigner 0))\<rparr>"
  have "blockVotes (assigner ?nd) 1 (0 mod MAX_BLOCK_QUEUE_SIZE) =
      \<lparr>slot_blockId = 0, slot_votes = [1], slot_finished = False\<rparr>"
    "isRaftLeader ?nd" "myChainId (assigner ?nd) = 0" "proposed ?nd = []"
    by (simp_all add: new_leader_def addVoteForBlock_def new_OrderAssigner_def new_BlockVotes_def getRef_def
        setRef_def Let_def)
  with majority_forces_vote[of ?nd 1 0 "[1]" 2 3] show ?thesis by auto
qed

text \<open>
  a group that lost its leader looks healthy again. After the leader of a Raft group
  stopped, the status is an error; the next call of \<open>ready\<close> sets it back.
\<close>

theorem error_status_forgotten:
  "fst (raft_step me leader ReadyCall (fst (raft_step me leader (StopFollowing leader) s))) = READY_STATUS"
  by simp

end
