(* ===== verification/FragmentUtil.thy ===== *)
theory FragmentUtil
  imports Prelude "HOL-Library.While_Combinator"
begin

text \<open>
  How the fragments of a block are shared between the servers of two regions,
  \<^verbatim>\<open>include/peer/replicator/v2/fragment_util.h\<close>. A block is cut into as many fragments as the least
  common multiple of the two numbers of servers; every local server sends the same number
  of consecutive fragments and every remote server receives the same number. The numbers are
  \<^verbatim>\<open>int\<close>s of a few dozen servers, far from overflow, and are integers here.
\<close>

section \<open>Definitions\<close>

text \<open>The loop of \<^verbatim>\<open>LCM\<close> subtracts the smaller from the larger; \<^const>\<open>None\<close> is a loop that does not end.\<close>

definition lcm_step :: "int \<times> int \<Rightarrow> int \<times> int" where
  "lcm_step = (\<lambda>(hcf, temp). if hcf > temp then (hcf - temp, temp) else (hcf, temp - hcf))"

definition frag_LCM :: "int \<Rightarrow> int \<Rightarrow> int option" where
  "frag_LCM n1 n2 = map_option (\<lambda>(hcf, temp). (n1 * n2) div hcf) (while_option (\<lambda>(hcf, temp). hcf \<noteq> temp) lcm_step (n1, n2))"

record fragment_util =
  localServerCount :: int
  remoteServerCount :: int
  totalFragments :: int
  localFPS :: int
  remoteFPS :: int

definition fu_reset :: "int \<Rightarrow> int \<Rightarrow> fragment_util option" where
  "fu_reset l r =
     (case frag_LCM l r of
        None \<Rightarrow> None
      | Some t \<Rightarrow> Some \<lparr>localServerCount = l, remoteServerCount = r, totalFragments = t, localFPS = t div l, remoteFPS = t div r\<rparr>)"

record FragmentConfig =
  startFragmentId :: int
  endFragmentId :: int
  fc_localId :: int
  fc_remoteId :: int

fun sender_loop :: "int \<Rightarrow> int \<Rightarrow> int list \<Rightarrow> int \<times> FragmentConfig list \<Rightarrow> int \<times> FragmentConfig list" where
  "sender_loop rfps localId [] s = s"
| "sender_loop rfps localId (i # is) (nextStart, ret) =
     sender_loop rfps localId is
       (if i mod rfps = rfps - 1
        then (i + 1, ret @ [\<lparr>startFragmentId = nextStart, endFragmentId = i + 1, fc_localId = localId, fc_remoteId = (i + 1 - 1) div rfps\<rparr>])
        else (nextStart, ret))"

definition getSenderConfig :: "fragment_util \<Rightarrow> int \<Rightarrow> FragmentConfig list" where
  "getSenderConfig u localId =
     (let start = localFPS u * localId;
          stop = localFPS u * (localId + 1);
          (nextStart, ret) = sender_loop (remoteFPS u) localId [start..stop - 1] (start, [])
      in if nextStart \<noteq> stop
         then ret @ [\<lparr>startFragmentId = nextStart, endFragmentId = stop, fc_localId = localId, fc_remoteId = (stop - 1) div remoteFPS u\<rparr>]
         else ret)"

record bfg_config =
  dataShardCnt :: int
  parityShardCnt :: int
  instanceCount :: int
  bfg_concurrency :: int

definition bfg_valid :: "bfg_config \<Rightarrow> bool" where
  "bfg_valid c \<longleftrightarrow> dataShardCnt c > 0 \<and> parityShardCnt c \<ge> 0 \<and> instanceCount c > 0 \<and> bfg_concurrency c > 0"

definition getBFGConfig :: "fragment_util \<Rightarrow> bfg_config" where
  "getBFGConfig u =
     (let localByzantine = (localServerCount u - 1) div 3;
          remoteByzantine = (remoteServerCount u - 1) div 3;
          parity = remoteByzantine * remoteFPS u + localByzantine * localFPS u
      in \<lparr>dataShardCnt = totalFragments u - parity, parityShardCnt = parity, instanceCount = 1, bfg_concurrency = 1\<rparr>)"

text \<open>The node counts of the regions, in the order of the hash map. The local region must be present.\<close>

definition GenerateAllConfig ::
  "(int \<times> int) list \<Rightarrow> int \<Rightarrow> int \<Rightarrow> ((int \<rightharpoonup> bfg_config) \<times> (int \<rightharpoonup> FragmentConfig list)) option" where
  "GenerateAllConfig regions localRegionId localId =
     fold (\<lambda>(r, n) acc.
         (case acc of
            None \<Rightarrow> None
          | Some (b, s) \<Rightarrow>
              if r = localRegionId then Some (b, s)
              else (case map_of regions localRegionId of
                      None \<Rightarrow> None
                    | Some l \<Rightarrow> (case fu_reset l n of
                          None \<Rightarrow> None
                        | Some u \<Rightarrow> Some (b(r \<mapsto> getBFGConfig u), s(r \<mapsto> getSenderConfig u localId))))))
       regions (Some (Map.empty, Map.empty))"

section \<open>The least common multiple\<close>

text \<open>Subtraction keeps the greatest common divisor and makes the sum smaller.\<close>

lemma lcm_step_inv:
  assumes "0 < a" and "0 < b" and "gcd a b = g" and "a \<noteq> b"
  shows "\<exists>a' b'. lcm_step (a, b) = (a', b') \<and> 0 < a' \<and> 0 < b' \<and> gcd a' b' = g \<and> nat (a' + b') < nat (a + b)"
proof (cases "a > b")
  case True
  with assms show ?thesis by (simp add: lcm_step_def gcd_diff1)
next
  case False
  moreover have "gcd a (b - a) = gcd a b" by (metis gcd.commute gcd_diff1)
  ultimately show ?thesis using assms by (simp add: lcm_step_def)
qed

lemma lcm_loop:
  assumes "0 < n1" and "0 < n2"
  shows "while_option (\<lambda>(hcf, temp). hcf \<noteq> temp) lcm_step (n1, n2) = Some (gcd n1 n2, gcd n1 n2)"
proof -
  let ?P = "\<lambda>(a, b). 0 < a \<and> 0 < b \<and> gcd a b = gcd n1 n2" and ?b = "\<lambda>(hcf, temp). hcf \<noteq> (temp :: int)"
  have step: "?P s \<Longrightarrow> ?b s \<Longrightarrow> ?P (lcm_step s) \<and> (\<lambda>(a, b). nat (a + b)) (lcm_step s) < (\<lambda>(a, b). nat (a + b)) s" for s
    using lcm_step_inv[of "fst s" "snd s" "gcd n1 n2"] by (cases s) force
  then obtain t where t: "while_option ?b lcm_step (n1, n2) = Some t"
    using measure_while_option_Some[of ?P ?b lcm_step "\<lambda>(a, b). nat (a + b)" "(n1, n2)"] assms by auto
  have "?P t" by (rule while_option_rule[OF _ t]) (use step assms in auto)
  moreover have "\<not> ?b t" by (rule while_option_stop[OF t])
  ultimately show ?thesis using t by (cases t) (auto simp: abs_if)
qed

lemma frag_LCM_lcm:
  assumes "0 < n1" and "0 < n2"
  shows "frag_LCM n1 n2 = Some (lcm n1 n2)"
proof -
  have "lcm n1 n2 = n1 * n2 div gcd n1 n2" using assms by (simp add: lcm_altdef_int)
  then show ?thesis by (simp add: frag_LCM_def lcm_loop[OF assms])
qed

text \<open>With a region without servers the loop subtracts zero for ever.\<close>

lemma frag_LCM_zero:
  assumes "0 < n"
  shows "frag_LCM 0 n = None"
proof -
  have step: "lcm_step (0, n) = (0, n)" using assms by (simp add: lcm_step_def)
  have "(lcm_step ^^ k) (0, n) = (0, n)" for k by (induction k) (simp_all add: step)
  then show ?thesis using assms by (simp add: frag_LCM_def while_option_def)
qed

section \<open>Shares\<close>

definition fu_ok :: "fragment_util \<Rightarrow> bool" where
  "fu_ok u \<longleftrightarrow> 0 < localServerCount u \<and> 0 < remoteServerCount u \<and> 0 < localFPS u \<and> 0 < remoteFPS u \<and>
     totalFragments u = localServerCount u * localFPS u \<and> totalFragments u = remoteServerCount u * remoteFPS u"

lemma fu_reset_ok:
  assumes "0 < l" and "0 < r"
  shows "\<exists>u. fu_reset l r = Some u \<and> fu_ok u \<and> localServerCount u = l \<and> remoteServerCount u = r \<and> totalFragments u = lcm l r"
proof -
  have "l dvd lcm l r" "r dvd lcm l r" "0 < lcm l r" using assms by (simp_all add: lcm_pos_int)
  then show ?thesis using assms by (auto simp: fu_reset_def frag_LCM_lcm fu_ok_def pos_imp_zdiv_pos_iff zdvd_imp_le)
qed

text \<open>The fragments of a configuration.\<close>

definition fragments_of :: "FragmentConfig \<Rightarrow> int list" where
  "fragments_of c = [startFragmentId c..endFragmentId c - 1]"

definition config_ok :: "int \<Rightarrow> int \<Rightarrow> FragmentConfig \<Rightarrow> bool" where
  "config_ok rfps localId c \<longleftrightarrow> fc_localId c = localId \<and> startFragmentId c < endFragmentId c \<and>
     (\<forall>i. startFragmentId c \<le> i \<and> i < endFragmentId c \<longrightarrow> i div rfps = fc_remoteId c)"

text \<open>Where no fragment between \<open>s\<close> and \<open>i\<close> is the last of its remote server, all of them belong to one server.\<close>

lemma div_succ:
  assumes "0 < m" and "i mod m \<noteq> m - 1"
  shows "(i + 1) div m = i div (m :: int)"
proof -
  have "i mod m + 1 < m" using assms pos_mod_bound[OF assms(1), of i] by linarith
  moreover have "i + 1 = m * (i div m) + (i mod m + 1)" by simp
  ultimately show ?thesis using pos_mod_sign[OF assms(1), of i] by (intro int_div_pos_eq) auto
qed

lemma same_remote:
  assumes "0 < rfps" and "j \<le> (i :: int)" and "\<forall>k. j \<le> k \<and> k < i \<longrightarrow> k mod rfps \<noteq> rfps - 1"
  shows "j div rfps = i div rfps"
  using assms(2,3)
proof (induction i rule: int_ge_induct)
  case (step i)
  then have "j div rfps = i div rfps" by simp
  also have "\<dots> = (i + 1) div rfps" using div_succ[OF assms(1), of i] step by simp
  finally show ?case .
qed simp

text \<open>The loop cuts the range at the last fragment of every remote server.\<close>

lemma upto_append: "a \<le> b \<Longrightarrow> b \<le> c \<Longrightarrow> [a..b - 1] @ [b..c - 1] = [a..c - (1::int)]"
  using upto_split1[of a b "c - 1"] by (cases "b = c") auto

lemma sender_loop_cuts:
  assumes "0 < rfps" and "nextStart \<le> i" and "\<forall>k. nextStart \<le> k \<and> k < i \<longrightarrow> k mod rfps \<noteq> rfps - 1"
    and "\<forall>c \<in> set ret. config_ok rfps localId c"
    and "sender_loop rfps localId [i..i + int n - 1] (nextStart, ret) = (n', ret')"
  shows "concat (map fragments_of ret') = concat (map fragments_of ret) @ [nextStart..n' - 1] \<and>
    (\<forall>c \<in> set ret'. config_ok rfps localId c) \<and> nextStart \<le> n' \<and> n' \<le> i + int n \<and>
    (\<forall>k. n' \<le> k \<and> k < i + int n \<longrightarrow> k mod rfps \<noteq> rfps - 1)"
  using assms(2-5)
proof (induction n arbitrary: i nextStart ret)
  case 0
  then show ?case by simp
next
  case (Suc n)
  have upt: "[i..i + int (Suc n) - 1] = i # [i + 1..i + 1 + int n - 1]"
    using upto_rec1[of i "i + int n"] by simp
  have len: "i + int (Suc n) = i + 1 + int n" by simp
  show ?case
  proof (cases "i mod rfps = rfps - 1")
    case True
    let ?c = "\<lparr>startFragmentId = nextStart, endFragmentId = i + 1, fc_localId = localId, fc_remoteId = (i + 1 - 1) div rfps\<rparr>"
    have run: "sender_loop rfps localId [i + 1..i + 1 + int n - 1] (i + 1, ret @ [?c]) = (n', ret')"
      using Suc.prems(4) unfolding upt by (simp only: sender_loop.simps True if_True refl)
    have "j div rfps = (i + 1 - 1) div rfps" if "nextStart \<le> j" "j < i + 1" for j
    proof (rule same_remote[OF assms(1)])
      show "j \<le> i + 1 - 1" using that(2) by linarith
      have "k < i" if "k < i + 1 - 1" for k using that by linarith
      then show "\<forall>k. j \<le> k \<and> k < i + 1 - 1 \<longrightarrow> k mod rfps \<noteq> rfps - 1" using Suc.prems(2) that(1) order_trans by blast
    qed
    moreover have "nextStart < i + 1" using Suc.prems(1) by linarith
    ultimately have c: "config_ok rfps localId ?c" unfolding config_ok_def FragmentConfig.simps by blast
    have ok: "\<forall>c \<in> set (ret @ [?c]). config_ok rfps localId c" using Suc.prems(3) c by simp
    have ih: "concat (map fragments_of ret') = concat (map fragments_of (ret @ [?c])) @ [i + 1..n' - 1] \<and>
      (\<forall>c \<in> set ret'. config_ok rfps localId c) \<and> i + 1 \<le> n' \<and> n' \<le> i + 1 + int n \<and>
      (\<forall>k. n' \<le> k \<and> k < i + 1 + int n \<longrightarrow> k mod rfps \<noteq> rfps - 1)"
      by (rule Suc.IH[OF _ _ ok run]) simp_all
    then have le: "nextStart \<le> i + 1" "i + 1 \<le> n'" using Suc.prems(1) by linarith+
    have "concat (map fragments_of (ret @ [?c])) = concat (map fragments_of ret) @ [nextStart..i + 1 - 1]"
      by (simp only: fragments_of_def map_append concat_append list.map concat.simps FragmentConfig.simps append_Nil2)
    then have "concat (map fragments_of ret') = concat (map fragments_of ret) @ [nextStart..n' - 1]"
      using ih upto_append[OF le] by (simp only: append_assoc)
    moreover have "nextStart \<le> n'" using le by (rule order_trans)
    ultimately show ?thesis unfolding len using ih by blast
  next
    case False
    have run: "sender_loop rfps localId [i + 1..i + 1 + int n - 1] (nextStart, ret) = (n', ret')"
      using Suc.prems(4) unfolding upt by (simp only: sender_loop.simps False if_False)
    have "k mod rfps \<noteq> rfps - 1" if "nextStart \<le> k" "k < i + 1" for k
    proof (cases "k = i")
      case True
      then show ?thesis using False by simp
    next
      case False
      then have "k < i" using that(2) by linarith
      then show ?thesis using Suc.prems(2) that(1) by blast
    qed
    then have "\<forall>k. nextStart \<le> k \<and> k < i + 1 \<longrightarrow> k mod rfps \<noteq> rfps - 1" by blast
    moreover have "nextStart \<le> i + 1" using Suc.prems(1) by linarith
    ultimately show ?thesis unfolding len using Suc.IH[OF _ _ Suc.prems(3) run] by blast
  qed
qed

text \<open>A server sends its own share, each message to the one server its fragments belong to.\<close>

lemma getSenderConfig_share:
  assumes "fu_ok u"
  shows "concat (map fragments_of (getSenderConfig u k)) = [localFPS u * k..localFPS u * (k + 1) - 1] \<and>
    (\<forall>c \<in> set (getSenderConfig u k). config_ok (remoteFPS u) k c)"
proof -
  let ?start = "localFPS u * k" and ?stop = "localFPS u * (k + 1)" and ?r = "remoteFPS u"
  obtain n' ret' where run: "sender_loop ?r k [?start..?stop - 1] (?start, []) = (n', ret')" by fastforce
  have pos: "0 < ?r" "0 < localFPS u" using assms by (simp_all add: fu_ok_def)
  have stop: "?start + int (nat (localFPS u)) = ?stop" using pos by (simp add: distrib_left)
  have cuts: "concat (map fragments_of ret') = concat (map fragments_of []) @ [?start..n' - 1] \<and>
      (\<forall>c \<in> set ret'. config_ok ?r k c) \<and> ?start \<le> n' \<and> n' \<le> ?stop \<and> (\<forall>i. n' \<le> i \<and> i < ?stop \<longrightarrow> i mod ?r \<noteq> ?r - 1)"
    using sender_loop_cuts[OF pos(1), of ?start ?start "[]" k "nat (localFPS u)" n' ret'] run unfolding stop by simp
  show ?thesis
  proof (cases "n' = ?stop")
    case True
    then show ?thesis using cuts run by (simp add: getSenderConfig_def Let_def)
  next
    case False
    let ?c = "\<lparr>startFragmentId = n', endFragmentId = ?stop, fc_localId = k, fc_remoteId = (?stop - 1) div ?r\<rparr>"
    have all: "getSenderConfig u k = ret' @ [?c]" using False run by (simp add: getSenderConfig_def Let_def)
    have "j div ?r = (?stop - 1) div ?r" if "n' \<le> j" "j < ?stop" for j
    proof (rule same_remote[OF pos(1)])
      show "j \<le> ?stop - 1" using that(2) by linarith
      have "i < ?stop" if "i < ?stop - 1" for i using that by linarith
      then show "\<forall>i. j \<le> i \<and> i < ?stop - 1 \<longrightarrow> i mod ?r \<noteq> ?r - 1" using cuts that(1) order_trans by blast
    qed
    moreover have "n' < ?stop" using cuts False by linarith
    ultimately have "config_ok ?r k ?c" unfolding config_ok_def FragmentConfig.simps by blast
    moreover have "[?start..n' - 1] @ [n'..?stop - 1] = [?start..?stop - 1]" using cuts by (intro upto_append) auto
    ultimately show ?thesis using cuts by (simp add: all fragments_of_def)
  qed
qed

text \<open>Together the local servers send every fragment once.\<close>

lemma shares_join:
  assumes "0 \<le> (f :: int)"
  shows "concat (map (\<lambda>k. [f * int k..f * (int k + 1) - 1]) [0..<n]) = [0..f * int n - 1]"
proof (induction n)
  case (Suc n)
  have "[0..f * int n - 1] @ [f * int n..f * (int n + 1) - 1] = [0..f * (int n + 1) - 1]"
    using assms by (intro upto_append) (auto simp: distrib_left)
  with Suc show ?case by (simp add: add.commute)
qed simp

lemma fragments_partition:
  assumes "fu_ok u"
  shows "concat (map (\<lambda>k. concat (map fragments_of (getSenderConfig u (int k)))) [0..<nat (localServerCount u)])
    = [0..totalFragments u - 1]"
proof -
  have "0 \<le> localFPS u" "localFPS u * int (nat (localServerCount u)) = totalFragments u"
    using assms by (simp_all add: fu_ok_def mult.commute)
  then show ?thesis using shares_join[of "localFPS u" "nat (localServerCount u)"] getSenderConfig_share[OF assms] by simp
qed

lemma div_below:
  assumes "i < n * m" and "0 < m"
  shows "i div m < (n :: int)"
proof (rule ccontr)
  assume "\<not> i div m < n"
  then have "n * m \<le> i div m * m" using assms(2) by (intro mult_right_mono) auto
  then show False using assms minus_mod_eq_div_mult[of i m] pos_mod_sign[OF assms(2), of i] by linarith
qed

lemma sender_config_remote:
  assumes "fu_ok u" and "0 \<le> k" and "k < localServerCount u" and "c \<in> set (getSenderConfig u k)"
  shows "0 \<le> fc_remoteId c \<and> fc_remoteId c < remoteServerCount u \<and> 0 \<le> startFragmentId c \<and> endFragmentId c \<le> totalFragments u"
proof -
  have u: "0 < localFPS u" "0 < remoteFPS u" "totalFragments u = localServerCount u * localFPS u"
      "totalFragments u = remoteServerCount u * remoteFPS u"
    using assms(1) by (simp_all add: fu_ok_def)
  have c: "config_ok (remoteFPS u) k c" using getSenderConfig_share[OF assms(1)] assms(4) by simp
  then have ne: "startFragmentId c \<le> endFragmentId c - 1" and rem: "fc_remoteId c = startFragmentId c div remoteFPS u"
    by (auto simp: config_ok_def)
  have "set (fragments_of c) \<subseteq> set (concat (map fragments_of (getSenderConfig u k)))" using assms(4) by auto
  then have sub: "{startFragmentId c..endFragmentId c - 1} \<subseteq> {localFPS u * k..localFPS u * (k + 1) - 1}"
    unfolding conjunct1[OF getSenderConfig_share[OF assms(1)]] by (simp add: fragments_of_def)
  then have lo: "localFPS u * k \<le> startFragmentId c" and hi: "endFragmentId c \<le> localFPS u * (k + 1)" using ne by auto
  have "localFPS u * (k + 1) \<le> localFPS u * localServerCount u" using u(1) assms(3) by (intro mult_left_mono) auto
  then have top: "endFragmentId c \<le> totalFragments u" using hi u(3) by (simp add: mult.commute)
  have bot: "0 \<le> startFragmentId c" using lo mult_nonneg_nonneg[of "localFPS u" k] u(1) assms(2) by linarith
  have "startFragmentId c < remoteServerCount u * remoteFPS u" using top ne u(4) by linarith
  then have "startFragmentId c div remoteFPS u < remoteServerCount u" by (intro div_below u(2))
  then show ?thesis using bot top rem u(2) by (simp add: pos_imp_zdiv_nonneg_iff)
qed

section \<open>The erasure code survives the faulty servers\<close>

lemma third_below: "0 < n \<Longrightarrow> 3 * ((n - 1) div 3) < (n :: int)"
  by presburger

lemma faulty_share:
  assumes "0 < n" and "0 < (f :: int)"
  shows "3 * ((n - 1) div 3 * f) < n * f"
proof -
  have "3 * ((n - 1) div 3) * f < n * f" using third_below[OF assms(1)] assms(2) by (rule mult_strict_right_mono)
  then show ?thesis by simp
qed

lemma getBFGConfig_valid:
  assumes "fu_ok u"
  shows "bfg_valid (getBFGConfig u) \<and> dataShardCnt (getBFGConfig u) + parityShardCnt (getBFGConfig u) = totalFragments u"
proof -
  let ?l = "(localServerCount u - 1) div 3 * localFPS u" and ?r = "(remoteServerCount u - 1) div 3 * remoteFPS u"
  have u: "0 < localServerCount u" "0 < remoteServerCount u" "0 < localFPS u" "0 < remoteFPS u"
      "totalFragments u = localServerCount u * localFPS u" "totalFragments u = remoteServerCount u * remoteFPS u"
    using assms by (simp_all add: fu_ok_def)
  have "3 * ?l < totalFragments u" using faulty_share[OF u(1,3)] unfolding u(5) .
  moreover have "3 * ?r < totalFragments u" using faulty_share[OF u(2,4)] unfolding u(6) .
  moreover have "0 \<le> ?l" "0 \<le> ?r" using u(1-4) by (auto intro!: mult_nonneg_nonneg simp: pos_imp_zdiv_nonneg_iff)
  ultimately show ?thesis by (simp add: bfg_valid_def getBFGConfig_def Let_def)
qed

text \<open>The fragments that the servers of \<open>S\<close> hold, each a share of \<open>f\<close>.\<close>

lemma card_shares:
  assumes "finite S" and "0 < (f :: int)"
  shows "card {i. i div f \<in> S} \<le> card S * nat f \<and> finite {i. i div f \<in> S}"
proof -
  have iff: "i div f = s \<longleftrightarrow> s * f \<le> i \<and> i < s * f + f" for i s
  proof
    assume s: "i div f = s"
    have "(i div f) * f + i mod f = i" "0 \<le> i mod f" "i mod f < f" using assms(2) by simp_all
    then show "s * f \<le> i \<and> i < s * f + f" unfolding s by linarith
  next
    assume i: "s * f \<le> i \<and> i < s * f + f"
    have "i = f * s + (i - s * f)" by (simp add: mult.commute)
    then show "i div f = s" by (rule int_div_pos_eq) (use i in simp_all)
  qed
  have "{i. i div f \<in> S} = (\<Union>s \<in> S. {i. i div f = s})" by blast
  then have eq: "{i. i div f \<in> S} = (\<Union>s \<in> S. {s * f..<s * f + f})" unfolding iff atLeastLessThan_def lessThan_def atLeast_def Int_def by simp
  have "card (\<Union>s \<in> S. {s * f..<s * f + f}) \<le> (\<Sum>s \<in> S. card {s * f..<s * f + f})" by (rule card_UN_le[OF assms(1)])
  then show ?thesis unfolding eq using assms(1) by simp
qed

lemma enough_fragments:
  assumes "fu_ok u" and "finite F" and "finite G"
    and "int (card F) \<le> (localServerCount u - 1) div 3" and "int (card G) \<le> (remoteServerCount u - 1) div 3"
  shows "dataShardCnt (getBFGConfig u) \<le> int (card {i \<in> {0..<totalFragments u}. i div localFPS u \<notin> F \<and> i div remoteFPS u \<notin> G})"
proof -
  let ?l = "localFPS u" and ?r = "remoteFPS u" and ?t = "totalFragments u"
  let ?A = "{i. i div ?l \<in> F}" and ?B = "{i. i div ?r \<in> G}"
  have pos: "0 < ?l" "0 < ?r" using assms(1) by (simp_all add: fu_ok_def)
  have A: "int (card ?A) \<le> int (card F) * ?l" "finite ?A" and B: "int (card ?B) \<le> int (card G) * ?r" "finite ?B"
    using card_shares[OF assms(2) pos(1)] card_shares[OF assms(3) pos(2)] pos
    by (auto simp: nat_le_iff simp flip: of_nat_le_iff[where 'a = int])
  have "{i \<in> {0..<?t}. i div ?l \<notin> F \<and> i div ?r \<notin> G} = {0..<?t} - (?A \<union> ?B)" by auto
  moreover have "card {0..<?t} - card (?A \<union> ?B) \<le> card ({0..<?t} - (?A \<union> ?B))" using A B by (intro diff_card_le_card_Diff) simp
  moreover have "card (?A \<union> ?B) \<le> card ?A + card ?B" by (rule card_Un_le)
  ultimately have "?t - (int (card ?A) + int (card ?B)) \<le> int (card {i \<in> {0..<?t}. i div ?l \<notin> F \<and> i div ?r \<notin> G})" by simp
  moreover have "int (card F) * ?l \<le> (localServerCount u - 1) div 3 * ?l" "int (card G) * ?r \<le> (remoteServerCount u - 1) div 3 * ?r"
    using assms(4,5) pos by (auto intro: mult_right_mono)
  ultimately show ?thesis using A(1) B(1) by (simp add: getBFGConfig_def Let_def)
qed

end
