(* ===== verification/Merkle.thy ===== *)
theory Merkle
  imports Schedule
begin

text \<open>
  The Merkle tree of \<^verbatim>\<open>include/common/parallel_merkle_tree.h\<close> and
  \<^verbatim>\<open>src/common/parallel_merkle_tree.cpp\<close>. The digest of a data block and
  \<^verbatim>\<open>Config::HashFunc\<close> (SHA-256 over two digests) are parameters: \<open>digest\<close> may fail, and
  \<open>hash\<close> is any binary function. \<open>zero\<close> is the value a freshly allocated digest has.

  A sibling of a proof is a pointer into a buffer of the tree. The buffers are kept for
  the life of the tree and are not written again after a proof points into them, so a
  sibling is modelled by the digest it points to.
\<close>

section \<open>Configuration and state\<close>

datatype ModeType = ModeProofGen | ModeTreeBuild | ModeProofGenAndTreeBuild

record merkle_config =
  NumRoutines :: nat
  Mode :: ModeType
  RunInParallel :: bool
  LeafGenParallel :: bool

record 'h mproof =
  Siblings :: "'h list"
  Path :: "32 word"

record 'h merkle =
  mt_config :: merkle_config
  leafMap :: "'h \<rightharpoonup> nat"
  mt_tree :: "'h list list"
  Root :: 'h
  Leaves :: "'h list"
  Proofs :: "'h mproof list"
  Depth :: nat

definition proof_equal :: "'h mproof \<Rightarrow> 'h mproof \<Rightarrow> bool" where
  "proof_equal p q \<longleftrightarrow> Path p = Path q \<and> length (Siblings q) = length (Siblings p) \<and>
     list_all (\<lambda>i. Siblings p ! i = Siblings q ! i) [0..<length (Siblings q)]"

section \<open>Depth\<close>

text \<open>
  \<^verbatim>\<open>log2\<close> of a positive \<^verbatim>\<open>int\<close> in double precision is an integer exactly for the powers of
  two, so rounding up is computed here on integers.
\<close>

fun ilog2 :: "nat \<Rightarrow> nat" where
  "ilog2 n = (if n \<le> 1 then 0 else Suc (ilog2 (n div 2)))"

declare ilog2.simps [simp del]

definition calTreeDepth :: "nat \<Rightarrow> nat" where
  "calTreeDepth blockLen = (if 2 ^ ilog2 blockLen \<noteq> blockLen then ilog2 blockLen + 1 else ilog2 blockLen)"

definition calculateNumRoutine :: "nat \<Rightarrow> nat \<Rightarrow> nat" where
  "calculateNumRoutine numRoutines workCount =
     (let n = (if numRoutines > workCount div 16 then workCount div 16 else numRoutines)
      in if n = 0 then 1 else n)"

section \<open>Leaves\<close>

fun leafGen :: "('b \<Rightarrow> 'h option) \<Rightarrow> 'b list \<Rightarrow> 'h list option" where
  "leafGen digest [] = Some []"
| "leafGen digest (b # bs) =
     do { h \<leftarrow> digest b; hs \<leftarrow> leafGen digest bs; Some (h # hs) }"

text \<open>
  One worker of \<^verbatim>\<open>leafGenParallel\<close>: it stops at its first failing block, and the flag
  \<^verbatim>\<open>ret\<close> is shared.
\<close>

fun leaf_worker :: "('b \<Rightarrow> 'h option) \<Rightarrow> 'b list \<Rightarrow> nat list \<Rightarrow> bool \<times> 'h list \<Rightarrow> bool \<times> 'h list" where
  "leaf_worker digest bs [] s = s"
| "leaf_worker digest bs (j # js) (ret, ls) =
     (case digest (bs ! j) of
        None \<Rightarrow> (False, ls)
      | Some h \<Rightarrow> leaf_worker digest bs js (ret, ls[j := h]))"

definition leafGenParallel :: "'h \<Rightarrow> ('b \<Rightarrow> 'h option) \<Rightarrow> merkle_config \<Rightarrow> 'b list \<Rightarrow> 'h list option" where
  "leafGenParallel zero digest cfg bs =
     (let n = length bs; k = calculateNumRoutine (NumRoutines cfg) n;
          (ret, ls) = fold (\<lambda>i. leaf_worker digest bs (stride k i n)) [0..<k] (True, replicate n zero)
      in if ret then Some ls else None)"

section \<open>Levels\<close>

definition fixOdd :: "'h list \<Rightarrow> nat \<Rightarrow> 'h list \<times> nat" where
  "fixOdd buf prevLen =
     (if even prevLen then (buf, prevLen)
      else let appendNode = buf ! (prevLen - 1); n = prevLen + 1
           in (if length buf < n then buf @ [appendNode] else buf[n - 1 := appendNode], n))"

text \<open>The index lists of the workers that handle pairs: worker \<open>i\<close> starts at pair \<open>i\<close>.\<close>

definition pair_workers :: "nat \<Rightarrow> nat \<Rightarrow> nat list list" where
  "pair_workers k n = map (\<lambda>i. stride (2 * k) (2 * i) n) [0..<k]"

text \<open>One pair of a level, written to the next level.\<close>

definition hash_pair :: "('h \<Rightarrow> 'h \<Rightarrow> 'h) \<Rightarrow> 'h list \<Rightarrow> nat \<Rightarrow> 'h list \<Rightarrow> 'h list" where
  "hash_pair hash prev j out = out[j div 2 := hash (prev ! j) (prev ! (j + 1))]"

section \<open>Proofs\<close>

definition initProofs :: "'h list \<Rightarrow> 'h mproof list" where
  "initProofs leaves = replicate (length leaves) \<lparr>Siblings = [], Path = 0\<rparr>"

definition left_proof :: "'h \<Rightarrow> nat \<Rightarrow> 'h mproof \<Rightarrow> 'h mproof" where
  "left_proof h step p = p\<lparr>Path := Path p + push_bit step 1, Siblings := Siblings p @ [h]\<rparr>"

definition right_proof :: "'h \<Rightarrow> 'h mproof \<Rightarrow> 'h mproof" where
  "right_proof h p = p\<lparr>Siblings := Siblings p @ [h]\<rparr>"

definition updatePairProof :: "'h list \<Rightarrow> nat \<Rightarrow> nat \<Rightarrow> nat \<Rightarrow> 'h mproof list \<Rightarrow> 'h mproof list" where
  "updatePairProof buf batch step idx ps =
     (let start = idx * batch;
          stop = (if start + batch < length ps then start + batch else length ps);
          ps = fold (\<lambda>i ps. ps[i := left_proof (buf ! (idx + 1)) step (ps ! i)]) [start..<stop] ps;
          start = start + batch;
          stop = (if start + batch < length ps then start + batch else length ps)
      in fold (\<lambda>i ps. ps[i := right_proof (buf ! idx) (ps ! i)]) [start..<stop] ps)"

definition updateProofs :: "'h list \<Rightarrow> nat \<Rightarrow> nat \<Rightarrow> 'h mproof list \<Rightarrow> 'h mproof list" where
  "updateProofs buf bufLen step ps = fold (updatePairProof buf (2 ^ step) step) (stride 2 0 bufLen) ps"

definition updateProofsParallel :: "merkle_config \<Rightarrow> 'h list \<Rightarrow> nat \<Rightarrow> nat \<Rightarrow> 'h mproof list \<Rightarrow> 'h mproof list" where
  "updateProofsParallel cfg buf bufLen step ps =
     fold (updatePairProof buf (2 ^ step) step)
       (concat (pair_workers (calculateNumRoutine (NumRoutines cfg) bufLen) bufLen)) ps"

section \<open>Proof generation without a tree\<close>

text \<open>
  \<^verbatim>\<open>proofGen\<close> hashes a copy of the buffer in place: the pair at \<open>idx\<close> is written to
  \<open>idx / 2\<close>, and the entries past the new length are left over.
\<close>

definition hash_in_place :: "('h \<Rightarrow> 'h \<Rightarrow> 'h) \<Rightarrow> nat \<Rightarrow> 'h list \<Rightarrow> 'h list" where
  "hash_in_place hash prevLen buf =
     fold (\<lambda>idx buf. buf[idx div 2 := hash (buf ! idx) (buf ! (idx + 1))]) (stride 2 0 prevLen) buf"

fun proofGen_loop :: "('h \<Rightarrow> 'h \<Rightarrow> 'h) \<Rightarrow> nat list \<Rightarrow> 'h list \<times> nat \<times> 'h mproof list \<Rightarrow> 'h list \<times> nat \<times> 'h mproof list" where
  "proofGen_loop hash [] s = s"
| "proofGen_loop hash (step # steps) (buf, prevLen, ps) =
     (let (buf', n) = fixOdd (hash_in_place hash prevLen buf) (prevLen div 2)
      in proofGen_loop hash steps (buf', n, updateProofs buf' n step ps))"

definition proofGen :: "('h \<Rightarrow> 'h \<Rightarrow> 'h) \<Rightarrow> 'h merkle \<Rightarrow> 'h merkle" where
  "proofGen hash mt =
     (let numLeaves = length (Leaves mt);
          ps = initProofs (Leaves mt);
          (buf, prevLen) = fixOdd (Leaves mt) numLeaves;
          ps = updateProofs buf numLeaves 0 ps;
          (buf, _, ps) = proofGen_loop hash [1..<Depth mt] (buf, prevLen, ps)
      in mt\<lparr>Proofs := ps, Root := hash (buf ! 0) (buf ! 1)\<rparr>)"

text \<open>
  The parallel variant. The tasks read the variables \<^verbatim>\<open>buf1\<close>, \<^verbatim>\<open>buf2\<close> and \<^verbatim>\<open>prevLen\<close> by
  reference, and the main thread assigns them after it has pushed the tasks and before it
  waits. A schedule of a level is the order of the workers (\<open>Work i\<close>) and of these
  assignments (\<open>Reassign\<close>).
\<close>

datatype level_event = Work nat | Reassign

type_synonym schedule = "nat \<Rightarrow> nat \<Rightarrow> level_event list"

text \<open>Without a pool a task runs when it is pushed.\<close>

definition inline_schedule :: schedule where
  "inline_schedule step k = map Work [0..<k] @ [Reassign]"

fun run_event :: "'h \<Rightarrow> ('h \<Rightarrow> 'h \<Rightarrow> 'h) \<Rightarrow> nat \<Rightarrow> level_event \<Rightarrow> 'h list \<times> 'h list \<times> nat \<Rightarrow> 'h list \<times> 'h list \<times> nat" where
  "run_event zero hash k (Work i) (buf1, buf2, prevLen) =
     (buf1, fold (hash_pair hash buf1) (stride (2 * k) (2 * i) prevLen) buf2, prevLen)"
| "run_event zero hash k Reassign (buf1, buf2, prevLen) =
     (buf2, replicate (prevLen div 2) zero, prevLen div 2)"

fun proofGenParallel_loop :: "'h \<Rightarrow> ('h \<Rightarrow> 'h \<Rightarrow> 'h) \<Rightarrow> merkle_config \<Rightarrow> schedule \<Rightarrow> nat list \<Rightarrow>
    'h list \<times> 'h list \<times> nat \<times> 'h mproof list \<Rightarrow> 'h list \<times> 'h list \<times> nat \<times> 'h mproof list" where
  "proofGenParallel_loop zero hash cfg sched [] s = s"
| "proofGenParallel_loop zero hash cfg sched (step # steps) (buf1, buf2, prevLen, ps) =
     (let k = calculateNumRoutine (NumRoutines cfg) prevLen;
          (buf1, buf2, prevLen) = fold (run_event zero hash k) (sched step k) (buf1, buf2, prevLen);
          (buf1, prevLen) = fixOdd buf1 prevLen
      in proofGenParallel_loop zero hash cfg sched steps
           (buf1, buf2, prevLen, updateProofsParallel cfg buf1 prevLen step ps))"

definition proofGenParallel :: "'h \<Rightarrow> ('h \<Rightarrow> 'h \<Rightarrow> 'h) \<Rightarrow> schedule \<Rightarrow> 'h merkle \<Rightarrow> 'h merkle" where
  "proofGenParallel zero hash sched mt =
     (let ps = initProofs (Leaves mt);
          numLeaves = length (Leaves mt);
          (buf1, prevLen) = fixOdd (Leaves mt) numLeaves;
          ps = updateProofsParallel (mt_config mt) buf1 numLeaves 0 ps;
          (buf1, _, _, ps) = proofGenParallel_loop zero hash (mt_config mt) sched [1..<Depth mt]
             (buf1, replicate (prevLen div 2) zero, prevLen, ps)
      in mt\<lparr>Proofs := ps, Root := hash (buf1 ! 0) (buf1 ! 1)\<rparr>)"

section \<open>Building the tree\<close>

definition build_level :: "'h \<Rightarrow> ('h \<Rightarrow> 'h \<Rightarrow> 'h) \<Rightarrow> merkle_config \<Rightarrow> 'h list \<Rightarrow> nat \<Rightarrow> 'h list" where
  "build_level zero hash cfg prev prevLen =
     fold (hash_pair hash prev)
       (if RunInParallel cfg then concat (pair_workers (calculateNumRoutine (NumRoutines cfg) prevLen) prevLen)
        else stride 2 0 prevLen)
       (replicate (prevLen div 2) zero)"

fun treeBuild_loop :: "'h \<Rightarrow> ('h \<Rightarrow> 'h \<Rightarrow> 'h) \<Rightarrow> merkle_config \<Rightarrow> nat \<Rightarrow> 'h list \<Rightarrow> nat \<Rightarrow> 'h list list" where
  "treeBuild_loop zero hash cfg 0 prev prevLen = []"
| "treeBuild_loop zero hash cfg (Suc r) prev prevLen =
     (let lev = build_level zero hash cfg prev prevLen;
          (lev, n) = fixOdd lev (length lev)
      in lev # treeBuild_loop zero hash cfg r lev n)"

definition treeBuild :: "'h \<Rightarrow> ('h \<Rightarrow> 'h \<Rightarrow> 'h) \<Rightarrow> 'h merkle \<Rightarrow> 'h merkle" where
  "treeBuild zero hash mt =
     (let lm = fold (\<lambda>i m. m(Leaves mt ! i \<mapsto> i)) [0..<length (Leaves mt)] (leafMap mt);
          (t0, prevLen) = fixOdd (Leaves mt) (length (Leaves mt));
          t = t0 # treeBuild_loop zero hash (mt_config mt) (Depth mt - 1) t0 prevLen;
          lev = t ! (Depth mt - 1)
      in mt\<lparr>leafMap := lm, mt_tree := t, Root := hash (lev ! 0) (lev ! 1)\<rparr>)"

text \<open>The proofs of a built tree, \<^verbatim>\<open>ModeProofGenAndTreeBuild\<close>.\<close>

definition tree_proofs :: "'h merkle \<Rightarrow> 'h merkle" where
  "tree_proofs mt =
     (let upd = (if RunInParallel (mt_config mt) then updateProofsParallel (mt_config mt) else updateProofs)
      in mt\<lparr>Proofs := fold (\<lambda>i. upd (mt_tree mt ! i) (length (mt_tree mt ! i)) i)
           [0..<length (mt_tree mt)] (initProofs (Leaves mt))\<rparr>)"

section \<open>New, Verify, GenerateProof\<close>

text \<open>
  The thread pool is absent, or has a number of threads and the schedules it happens to
  give to the levels of \<^verbatim>\<open>proofGenParallel\<close>.
\<close>

type_synonym pool = "(nat \<times> schedule) option"

definition new_config :: "merkle_config \<Rightarrow> pool \<Rightarrow> merkle_config" where
  "new_config c wp =
     (case wp of None \<Rightarrow> c | Some (threads, sched) \<Rightarrow> if NumRoutines c = 0 then c\<lparr>NumRoutines := threads\<rparr> else c)"

definition pool_schedule :: "pool \<Rightarrow> schedule" where
  "pool_schedule wp = (case wp of None \<Rightarrow> inline_schedule | Some (threads, sched) \<Rightarrow> sched)"

definition New :: "'h \<Rightarrow> ('h \<Rightarrow> 'h \<Rightarrow> 'h) \<Rightarrow> ('b \<Rightarrow> 'h option) \<Rightarrow> merkle_config \<Rightarrow> pool \<Rightarrow> 'b list \<Rightarrow> 'h merkle option" where
  "New zero hash digest c wp blocks =
     (if length blocks \<le> 1 then None
      else do {
        let cfg = new_config c wp;
        leaves \<leftarrow> (if RunInParallel cfg \<or> LeafGenParallel cfg then leafGenParallel zero digest cfg blocks
                  else leafGen digest blocks);
        let mt = \<lparr>mt_config = cfg, leafMap = Map.empty, mt_tree = [], Root = zero, Leaves = leaves, Proofs = [],
                  Depth = calTreeDepth (length blocks)\<rparr>;
        Some (case Mode cfg of
            ModeProofGen \<Rightarrow> if RunInParallel cfg then proofGenParallel zero hash (pool_schedule wp) mt else proofGen hash mt
          | ModeTreeBuild \<Rightarrow> treeBuild zero hash mt
          | ModeProofGenAndTreeBuild \<Rightarrow> tree_proofs (treeBuild zero hash mt))
      })"

text \<open>The loop of \<^verbatim>\<open>Verify\<close>: bit 0 of the rest of the path says that the node is the left one.\<close>

fun verify_loop :: "('h \<Rightarrow> 'h \<Rightarrow> 'h) \<Rightarrow> 'h list \<Rightarrow> 32 word \<Rightarrow> 'h \<Rightarrow> 'h" where
  "verify_loop hash [] path h = h"
| "verify_loop hash (n # ns) path h =
     verify_loop hash ns (drop_bit 1 path) (if odd path then hash h n else hash n h)"

lemma verify_loop_code [code]:
  "verify_loop hash [] path h = h"
  "verify_loop hash (n # ns) path h = verify_loop hash ns (drop_bit 1 path) (if bit path 0 then hash h n else hash n h)"
  by (simp_all add: bit_0)

definition Verify :: "('h \<Rightarrow> 'h \<Rightarrow> 'h) \<Rightarrow> ('b \<Rightarrow> 'h option) \<Rightarrow> 'b \<Rightarrow> 'h mproof \<Rightarrow> 'h \<Rightarrow> bool option" where
  "Verify hash digest b pf root =
     do { h \<leftarrow> digest b; Some (verify_loop hash (Siblings pf) (Path pf) h = root) }"

fun proof_loop :: "'h list list \<Rightarrow> nat \<Rightarrow> nat \<Rightarrow> nat \<Rightarrow> 'h mproof" where
  "proof_loop t 0 i idx = \<lparr>Siblings = [], Path = 0\<rparr>"
| "proof_loop t (Suc r) i idx =
     (let p = proof_loop t r (i + 1) (idx div 2)
      in if odd idx then p\<lparr>Siblings := t ! i ! (idx - 1) # Siblings p\<rparr>
         else p\<lparr>Siblings := t ! i ! (idx + 1) # Siblings p, Path := push_bit i 1 + Path p\<rparr>)"

definition GenerateProof :: "('b \<Rightarrow> 'h option) \<Rightarrow> 'h merkle \<Rightarrow> 'b \<Rightarrow> 'h mproof option" where
  "GenerateProof digest mt b =
     (if Mode (mt_config mt) \<noteq> ModeTreeBuild \<and> Mode (mt_config mt) \<noteq> ModeProofGenAndTreeBuild then None
      else do {
        h \<leftarrow> digest b;
        idx \<leftarrow> leafMap mt h;
        Some (proof_loop (mt_tree mt) (Depth mt) 0 idx)
      })"

end
