(* ===== verification/MerkleCorrect.thy ===== *)
theory MerkleCorrect
  imports Merkle
begin

text \<open>
  The reference Merkle tree and the proof that every way of building one computes it: the
  in-place proof generation, the tree, and their parallel variants for every number of
  workers. \<open>nodes l\<close> are the digests of level \<open>l\<close>, \<open>pad\<close> repeats the last digest of an odd level.
\<close>

section \<open>Reference tree\<close>

definition pad :: "'h list \<Rightarrow> 'h list" where
  "pad xs = (if even (length xs) then xs else xs @ [last xs])"

definition pair_up :: "('h \<Rightarrow> 'h \<Rightarrow> 'h) \<Rightarrow> 'h list \<Rightarrow> 'h list" where
  "pair_up hash xs = map (\<lambda>i. hash (xs ! (2 * i)) (xs ! (2 * i + 1))) [0..<length xs div 2]"

primrec nodes :: "('h \<Rightarrow> 'h \<Rightarrow> 'h) \<Rightarrow> 'h list \<Rightarrow> nat \<Rightarrow> 'h list" where
  "nodes hash leaves 0 = leaves"
| "nodes hash leaves (Suc l) = pair_up hash (pad (nodes hash leaves l))"

text \<open>The other node of a pair, and the proof of a leaf.\<close>

definition other :: "nat \<Rightarrow> nat" where
  "other i = (if even i then i + 1 else i - 1)"

primrec path_of :: "nat \<Rightarrow> nat \<Rightarrow> 32 word" where
  "path_of 0 i = 0"
| "path_of (Suc d) i = path_of d i + (if even (i div 2 ^ d) then 2 ^ d else 0)"

definition proof_of :: "('h \<Rightarrow> 'h \<Rightarrow> 'h) \<Rightarrow> 'h list \<Rightarrow> nat \<Rightarrow> nat \<Rightarrow> 'h mproof" where
  "proof_of hash leaves d i =
     \<lparr>Siblings = map (\<lambda>l. pad (nodes hash leaves l) ! other (i div 2 ^ l)) [0..<d], Path = path_of d i\<rparr>"

definition merkle_root :: "('h \<Rightarrow> 'h \<Rightarrow> 'h) \<Rightarrow> 'h list \<Rightarrow> 'h" where
  "merkle_root hash leaves = hd (nodes hash leaves (calTreeDepth (length leaves)))"

section \<open>Sizes\<close>

lemma length_pad: "length (pad xs) = 2 * ((length xs + 1) div 2)"
  by (auto simp: pad_def elim: oddE)

lemma even_length_pad [simp]: "even (length (pad xs))"
  by (simp add: length_pad)

lemma length_pair_up [simp]: "length (pair_up hash xs) = length xs div 2"
  by (simp add: pair_up_def)

lemma length_nodes_Suc: "length (nodes hash leaves (Suc l)) = (length (nodes hash leaves l) + 1) div 2"
  by (simp add: length_pad)

text \<open>Level \<open>l\<close> has one node for every \<open>2 ^ l\<close> leaves, rounded up.\<close>

lemma length_nodes_bounds:
  "length leaves \<le> 2 ^ l * length (nodes hash leaves l)"
  "length leaves \<noteq> 0 \<Longrightarrow> 2 ^ l * (length (nodes hash leaves l) - 1) < length leaves"
proof (induction l)
  case (Suc l)
  let ?n = "length (nodes hash leaves l)"
  { case 1
    have "length leaves \<le> 2 ^ l * ?n" by (rule Suc)
    also have "?n \<le> 2 * ((?n + 1) div 2)" by presburger
    finally show ?case by (simp add: length_nodes_Suc del: nodes.simps mult_le_cancel1)
  next
    case 2
    have "2 * ((?n + 1) div 2 - 1) \<le> ?n - 1" by presburger
    then have "2 ^ l * (2 * ((?n + 1) div 2 - 1)) \<le> 2 ^ l * (?n - 1)" by (rule mult_le_mono2)
    moreover have "2 ^ Suc l * ((?n + 1) div 2 - 1) = 2 ^ l * (2 * ((?n + 1) div 2 - 1))" by simp
    ultimately show ?case using Suc(2)[OF 2] unfolding length_nodes_Suc by linarith }
qed auto

lemma index_in_nodes:
  assumes "i < length leaves"
  shows "i div 2 ^ l < length (nodes hash leaves l)"
  using assms length_nodes_bounds(1)[of leaves l hash]
  by (simp add: less_mult_imp_div_less mult.commute)

section \<open>Depth\<close>

lemma ilog2_bounds: "0 < n \<Longrightarrow> 2 ^ ilog2 n \<le> n \<and> n < 2 ^ (ilog2 n + 1)"
proof (induction n rule: ilog2.induct)
  case (1 n)
  show ?case
  proof (cases "n \<le> 1")
    case False
    then have "2 ^ ilog2 (n div 2) \<le> n div 2 \<and> n div 2 < 2 ^ (ilog2 (n div 2) + 1)" using 1 by simp
    then have "2 ^ ilog2 (n div 2) * 2 \<le> n" "n < 2 ^ (ilog2 (n div 2) + 1) * 2"
      by (auto simp: less_eq_div_iff_mult_less_eq div_less_iff_less_mult)
    with False show ?thesis by (simp add: ilog2.simps[of n] mult.commute)
  qed (use 1 in \<open>simp add: ilog2.simps[of n]\<close>)
qed

lemma calTreeDepth_bounds:
  assumes "2 \<le> n"
  shows "n \<le> 2 ^ calTreeDepth n" "2 ^ (calTreeDepth n - 1) < n" "1 \<le> calTreeDepth n"
proof -
  have b: "2 ^ ilog2 n \<le> n" "n < 2 ^ (ilog2 n + 1)" using ilog2_bounds[of n] assms by auto
  have "ilog2 n \<noteq> 0" using b(2) assms by (metis One_nat_def add_0 leD power_one_right)
  then obtain k where k: "ilog2 n = Suc k" by (cases "ilog2 n") auto
  show "n \<le> 2 ^ calTreeDepth n" "2 ^ (calTreeDepth n - 1) < n" "1 \<le> calTreeDepth n"
    using b by (auto simp: calTreeDepth_def k)
qed

lemma calTreeDepth_unique:
  assumes "2 \<le> n" and "n \<le> 2 ^ d" and "2 ^ (d - 1) < n"
  shows "calTreeDepth n = d"
proof -
  note b = calTreeDepth_bounds[OF assms(1)]
  have "2 ^ (d - 1) < (2::nat) ^ calTreeDepth n" "2 ^ (calTreeDepth n - 1) < (2::nat) ^ d"
    using assms b by linarith+
  then have "d - 1 < calTreeDepth n" "calTreeDepth n - 1 < d" by simp_all
  then show ?thesis using b(3) by linarith
qed

text \<open>The last level is the root alone, and the level below is one pair.\<close>

lemma length_top:
  assumes "2 \<le> length leaves"
  shows "length (nodes hash leaves (calTreeDepth (length leaves))) = 1"
proof -
  let ?d = "calTreeDepth (length leaves)"
  let ?n = "length (nodes hash leaves ?d)"
  have "2 ^ ?d * (?n - 1) < 2 ^ ?d * 1"
    using length_nodes_bounds(2)[of leaves ?d hash] calTreeDepth_bounds(1)[OF assms] assms by linarith
  then have "?n - 1 < 1" by simp
  moreover have "?n \<noteq> 0" using length_nodes_bounds(1)[of leaves ?d hash] assms by auto
  ultimately show ?thesis by linarith
qed

lemma length_below_top:
  assumes "2 \<le> length leaves"
  shows "length (pad (nodes hash leaves (calTreeDepth (length leaves) - 1))) = 2"
proof -
  obtain d where d: "calTreeDepth (length leaves) = Suc d"
    using calTreeDepth_bounds(3)[OF assms] by (cases "calTreeDepth (length leaves)") auto
  show ?thesis using length_top[OF assms, of hash] by (simp add: d length_pad)
qed

lemma merkle_root_top:
  assumes "2 \<le> length leaves" and "lev = pad (nodes hash leaves (calTreeDepth (length leaves) - 1))"
  shows "merkle_root hash leaves = hash (lev ! 0) (lev ! 1)"
proof -
  obtain d where d: "calTreeDepth (length leaves) = Suc d"
    using calTreeDepth_bounds(3)[OF assms(1)] by (cases "calTreeDepth (length leaves)") auto
  show ?thesis using length_below_top[OF assms(1), of hash] by (simp add: merkle_root_def assms(2) d pair_up_def)
qed

section \<open>Levels\<close>

lemma fixOdd_pad: "fixOdd buf (length buf) = (pad buf, length (pad buf))"
proof (cases "even (length buf)")
  case False
  then have "buf \<noteq> []" by auto
  with False show ?thesis by (simp add: fixOdd_def pad_def last_conv_nth)
qed (simp add: fixOdd_def pad_def)

text \<open>On a buffer with left-over entries the same holds of the entries in use.\<close>

lemma fixOdd_prefix:
  assumes "n \<le> length buf" and "fixOdd buf n = (buf', m)"
  shows "take m buf' = pad (take n buf)" "m = length (pad (take n buf))" "m \<le> length buf'"
proof -
  have "take m buf' = pad (take n buf) \<and> m = length (pad (take n buf)) \<and> m \<le> length buf'"
  proof (cases "even n")
    case True
    with assms show ?thesis by (auto simp: fixOdd_def pad_def)
  next
    case False
    then obtain k where n: "n = Suc k" by (cases n) auto
    have "last (take n buf) = buf ! k" "length (take n buf) = n" using assms(1) by (auto simp: n take_Suc_conv_app_nth)
    moreover have "buf = take k buf @ [buf ! k]" if "length buf < Suc n"
      using assms(1) that take_Suc_conv_app_nth[of k buf] by (simp add: n)
    ultimately show ?thesis using False assms
      by (auto simp: fixOdd_def Let_def pad_def n list_update_append take_Suc_conv_app_nth take_update_swap split: if_splits)
  qed
  then show "take m buf' = pad (take n buf)" "m = length (pad (take n buf))" "m \<le> length buf'" by auto
qed

text \<open>The pairs of a level may be hashed in any order.\<close>

lemma length_hash_pair [simp]: "length (hash_pair hash prev j out) = length out"
  by (simp add: hash_pair_def)

lemma fold_hash_pair:
  assumes "\<forall>j \<in> set js. even j"
  shows "fold (hash_pair hash prev) js out =
    map (\<lambda>i. if 2 * i \<in> set js then hash (prev ! (2 * i)) (prev ! (2 * i + 1)) else out ! i) [0..<length out]"
  using assms
proof (induction js arbitrary: out)
  case Nil
  then show ?case by (simp add: map_nth)
next
  case (Cons j js)
  from Cons.prems obtain i where j: "j = 2 * i" by (auto elim: evenE)
  have "fold (hash_pair hash prev) js (hash_pair hash prev j out) =
      map (\<lambda>i. if 2 * i \<in> set js then hash (prev ! (2 * i)) (prev ! (2 * i + 1)) else hash_pair hash prev j out ! i)
        [0..<length out]"
    using Cons by simp
  also have "\<dots> = map (\<lambda>i. if 2 * i \<in> set (j # js) then hash (prev ! (2 * i)) (prev ! (2 * i + 1)) else out ! i)
        [0..<length out]"
    by (rule map_cong) (auto simp: hash_pair_def j nth_list_update)
  finally show ?case by simp
qed

lemma set_pairs_seq: "set (stride 2 0 n) = {j. j < n \<and> even j}"
  by (auto simp: set_stride)

lemma set_pair_workers:
  assumes "0 < k"
  shows "set (concat (pair_workers k n)) = {j. j < n \<and> even j}"
proof -
  have "\<exists>i<k. 2 * i \<le> j \<and> j mod (2 * k) = 2 * i mod (2 * k)" if "even j" for j
  proof (intro exI conjI)
    show "j div 2 mod k < k" using assms by simp
    have "2 * (j div 2 mod k) = j mod (2 * k)" using that by (simp add: mult_mod_right)
    then show "2 * (j div 2 mod k) \<le> j" "j mod (2 * k) = 2 * (j div 2 mod k) mod (2 * k)" by simp_all
  qed
  moreover have "even j" if "j mod (2 * k) = 2 * i" for i j
    using that by (metis dvd_mod_iff dvd_triv_left)
  ultimately show ?thesis
    using assms by (auto simp: pair_workers_def set_stride)
qed

lemma calculateNumRoutine_pos [simp]: "0 < calculateNumRoutine k n"
  by (simp add: calculateNumRoutine_def Let_def)

lemma build_level_pair_up: "build_level zero hash cfg prev (length prev) = pair_up hash prev"
proof -
  have "fold (hash_pair hash prev) js (replicate (length prev div 2) zero) = pair_up hash prev"
    if "set js = {j. j < length prev \<and> even j}" for js
    by (subst fold_hash_pair) (auto simp: that pair_up_def)
  from this[OF set_pairs_seq] this[OF set_pair_workers[OF calculateNumRoutine_pos]]
  show ?thesis by (simp add: build_level_def)
qed

text \<open>Hashing in place reads every pair before it is overwritten.\<close>

lemma stride_pairs: "stride 2 0 (2 * m) = map (\<lambda>i. 2 * i) [0..<m]"
proof (rule strict_sorted_equal)
  show "sorted_wrt (<) (map (\<lambda>i. 2 * i) [0..<m])" by (simp add: sorted_wrt_map)
  show "set (stride 2 0 (2 * m)) = set (map (\<lambda>i. 2 * i) [0..<m])"
    unfolding set_pairs_seq by (auto elim!: evenE)
qed (rule sorted_stride)

lemma fold_in_place:
  assumes "2 * m \<le> length buf"
  shows "fold (\<lambda>idx buf. buf[idx div 2 := hash (buf ! idx) (buf ! (idx + 1))]) (map (\<lambda>i. 2 * i) [0..<m]) buf =
    map (\<lambda>i. if i < m then hash (buf ! (2 * i)) (buf ! (2 * i + 1)) else buf ! i) [0..<length buf]"
  using assms
proof (induction m)
  case (Suc m)
  then show ?case by (auto simp: intro!: nth_equalityI simp: nth_list_update)
qed (simp add: map_nth)

lemma hash_in_place_pair_up:
  assumes "even n" and "n \<le> length buf"
  shows "take (n div 2) (hash_in_place hash n buf) = pair_up hash (take n buf)"
    "length (hash_in_place hash n buf) = length buf"
proof -
  obtain m where n: "n = 2 * m" using assms(1) by (auto elim: evenE)
  have *: "hash_in_place hash n buf =
      map (\<lambda>i. if i < m then hash (buf ! (2 * i)) (buf ! (2 * i + 1)) else buf ! i) [0..<length buf]"
    unfolding hash_in_place_def n stride_pairs using assms(2) by (subst fold_in_place) (simp_all add: n)
  show "length (hash_in_place hash n buf) = length buf" by (simp add: *)
  show "take (n div 2) (hash_in_place hash n buf) = pair_up hash (take n buf)"
    unfolding * using assms(2) by (auto simp: n pair_up_def intro!: nth_equalityI)
qed

end
