(* ===== verification/MerkleProofs.thy ===== *)
theory MerkleProofs
  imports MerkleCorrect
begin

text \<open>
  The proofs of a tree. Every level appends one sibling to every proof, in whatever order its
  pairs are handled, so all configurations generate the reference proofs; \<^verbatim>\<open>GenerateProof\<close>
  reads the same proof from the tree, and \<^verbatim>\<open>Verify\<close> accepts it.
\<close>

section \<open>One level of the proofs\<close>

lemma fold_update_range:
  assumes "b \<le> length ps"
  shows "fold (\<lambda>i ps. ps[i := f (ps ! i)]) [a..<b] ps =
    map (\<lambda>i. if a \<le> i \<and> i < b then f (ps ! i) else ps ! i) [0..<length ps]"
  using assms
proof (induction b)
  case (Suc b)
  then show ?case by (auto intro!: nth_equalityI simp: nth_list_update)
qed (simp add: map_nth)

text \<open>What the pair at \<open>idx\<close> does to the proof of leaf \<open>i\<close>.\<close>

definition add_sibling :: "'h list \<Rightarrow> nat \<Rightarrow> nat \<Rightarrow> 'h mproof \<Rightarrow> 'h mproof" where
  "add_sibling buf step i p =
     (if even (i div 2 ^ step) then left_proof (buf ! other (i div 2 ^ step)) step p
      else right_proof (buf ! other (i div 2 ^ step)) p)"

lemma between_div: "0 < B \<Longrightarrow> k * B \<le> i \<and> i < k * B + B \<longleftrightarrow> i div B = (k::nat)"
  by (metis add.commute div_nat_eqI dividend_less_times_div mult.commute mult_Suc_right times_div_less_eq_dividend)

lemma pair_of: "even idx \<Longrightarrow> 2 * (q div 2) = idx \<longleftrightarrow> q = idx \<or> q = Suc idx" for q :: nat
  by presburger

lemma fold_update_block:
  assumes "0 < B"
  shows "fold (\<lambda>i ps. ps[i := f (ps ! i)])
      [k * B..<(if k * B + B < length ps then k * B + B else length ps)] ps =
    map (\<lambda>i. if i div B = k then f (ps ! i) else ps ! i) [0..<length ps]"
proof -
  let ?e = "if k * B + B < length ps then k * B + B else length ps"
  have "k * B \<le> i \<and> i < ?e \<longleftrightarrow> i div B = k" if "i < length ps" for i
    using between_div[OF assms, of k i] that by auto
  then have "map (\<lambda>i. if k * B \<le> i \<and> i < ?e then f (ps ! i) else ps ! i) [0..<length ps] =
      map (\<lambda>i. if i div B = k then f (ps ! i) else ps ! i) [0..<length ps]"
    by (intro map_cong refl) simp
  then show ?thesis using fold_update_range[of ?e ps f "k * B"] by simp
qed

lemma updatePairProof_map:
  assumes "even idx"
  shows "updatePairProof buf (2 ^ step) step idx ps =
    map (\<lambda>i. if 2 * (i div 2 ^ step div 2) = idx then add_sibling buf step i (ps ! i) else ps ! i) [0..<length ps]"
proof -
  let ?B = "2 ^ step :: nat"
  have "updatePairProof buf ?B step idx ps =
      map (\<lambda>i. if i div ?B = Suc idx then right_proof (buf ! idx) (ps ! i)
        else if i div ?B = idx then left_proof (buf ! (idx + 1)) step (ps ! i) else ps ! i) [0..<length ps]"
  proof -
    let ?ps = "map (\<lambda>i. if i div ?B = idx then left_proof (buf ! (idx + 1)) step (ps ! i) else ps ! i) [0..<length ps]"
    have B: "0 < ?B" and start: "idx * ?B + ?B = Suc idx * ?B" by simp_all
    have "updatePairProof buf ?B step idx ps =
        map (\<lambda>i. if i div ?B = Suc idx then right_proof (buf ! idx) (?ps ! i) else ?ps ! i) [0..<length ?ps]"
      unfolding updatePairProof_def Let_def fold_update_block[OF B] unfolding start fold_update_block[OF B] ..
    also have "\<dots> = map (\<lambda>i. if i div ?B = Suc idx then right_proof (buf ! idx) (ps ! i)
        else if i div ?B = idx then left_proof (buf ! (idx + 1)) step (ps ! i) else ps ! i) [0..<length ps]"
      by (intro map_cong) auto
    finally show ?thesis .
  qed
  also have "\<dots> = map (\<lambda>i. if 2 * (i div ?B div 2) = idx then add_sibling buf step i (ps ! i) else ps ! i) [0..<length ps]"
    using assms by (intro map_cong refl) (auto simp: pair_of add_sibling_def other_def)
  finally show ?thesis .
qed

text \<open>The pairs may be handled in any order, each once.\<close>

lemma fold_updatePairProof:
  assumes "distinct js" and "\<forall>j \<in> set js. even j"
  shows "fold (updatePairProof buf (2 ^ step) step) js ps =
    map (\<lambda>i. if 2 * (i div 2 ^ step div 2) \<in> set js then add_sibling buf step i (ps ! i) else ps ! i) [0..<length ps]"
  using assms
proof (induction js arbitrary: ps)
  case Nil
  then show ?case by (simp add: map_nth)
next
  case (Cons j js)
  have len: "length (updatePairProof buf (2 ^ step) step j ps) = length ps"
    using Cons.prems by (simp add: updatePairProof_map)
  have "fold (updatePairProof buf (2 ^ step) step) (j # js) ps =
      map (\<lambda>i. if 2 * (i div 2 ^ step div 2) \<in> set js
        then add_sibling buf step i (updatePairProof buf (2 ^ step) step j ps ! i)
        else updatePairProof buf (2 ^ step) step j ps ! i) [0..<length ps]"
    using Cons by (simp add: len)
  also have "\<dots> = map (\<lambda>i. if 2 * (i div 2 ^ step div 2) \<in> set (j # js)
      then add_sibling buf step i (ps ! i) else ps ! i) [0..<length ps]"
    using Cons.prems by (intro map_cong refl) (auto simp: updatePairProof_map)
  finally show ?case .
qed

lemma distinct_pair_workers:
  assumes "0 < k"
  shows "distinct (concat (pair_workers k n))"
proof -
  have inj: "i = i'" if "i < k" "i' < k" "j \<in> set (stride (2 * k) (2 * i) n)" "j \<in> set (stride (2 * k) (2 * i') n)" for i i' j
    using that assms by (auto simp: set_stride)
  have "distinct (stride (2 * k) (2 * i) n)" for i
    using sorted_stride strict_sorted_iff by blast
  moreover have "distinct (concat (map (\<lambda>i. stride (2 * k) (2 * i) n) [0..<m]))" if "m \<le> k" for m
    using that
  proof (induction m)
    case (Suc m)
    have "set (concat (map (\<lambda>i. stride (2 * k) (2 * i) n) [0..<m])) \<inter> set (stride (2 * k) (2 * m) n) = {}"
      using inj[of m] Suc.prems by (auto simp: disjoint_iff) (metis Suc_le_lessD less_irrefl less_trans)
    with Suc calculation show ?case by simp
  qed simp
  ultimately show ?thesis by (simp add: pair_workers_def)
qed

text \<open>A whole level, sequentially or by any number of workers.\<close>

definition level_proofs :: "'h list \<Rightarrow> nat \<Rightarrow> 'h mproof list \<Rightarrow> 'h mproof list" where
  "level_proofs buf step ps = map (\<lambda>i. add_sibling buf step i (ps ! i)) [0..<length ps]"

lemma level_proofs_pairs:
  assumes "distinct js" and "set js = {j. j < n \<and> even j}" and "length ps \<le> 2 ^ step * n"
  shows "fold (updatePairProof buf (2 ^ step) step) js ps = level_proofs buf step ps"
proof -
  have "2 * (i div 2 ^ step div 2) < n" if "i < length ps" for i
  proof -
    have "i div 2 ^ step < n" using that assms(3) by (simp add: less_mult_imp_div_less mult.commute)
    then show ?thesis by (meson order.strict_trans1 times_div_less_eq_dividend)
  qed
  then show ?thesis using assms(1,2) by (subst fold_updatePairProof) (auto simp: level_proofs_def)
qed

lemma updateProofs_level:
  "length ps \<le> 2 ^ step * n \<Longrightarrow> updateProofs buf n step ps = level_proofs buf step ps"
  unfolding updateProofs_def
  using sorted_stride strict_sorted_iff set_pairs_seq by (intro level_proofs_pairs) blast+

lemma updateProofsParallel_level:
  "length ps \<le> 2 ^ step * n \<Longrightarrow> updateProofsParallel cfg buf n step ps = level_proofs buf step ps"
  unfolding updateProofsParallel_def
  by (rule level_proofs_pairs[OF distinct_pair_workers set_pair_workers]) simp_all

text \<open>Levels \<open>0, ..., d - 1\<close> give the reference proofs.\<close>

definition proofs_upto :: "('h \<Rightarrow> 'h \<Rightarrow> 'h) \<Rightarrow> 'h list \<Rightarrow> nat \<Rightarrow> 'h mproof list" where
  "proofs_upto hash leaves d = map (proof_of hash leaves d) [0..<length leaves]"

lemma initProofs_upto: "initProofs leaves = proofs_upto hash leaves 0"
  by (rule nth_equalityI) (auto simp: initProofs_def proofs_upto_def proof_of_def)

lemma level_proofs_cong:
  assumes "\<And>i. i < length ps \<Longrightarrow> buf ! other (i div 2 ^ step) = buf' ! other (i div 2 ^ step)"
  shows "level_proofs buf step ps = level_proofs buf' step ps"
  using assms by (simp add: level_proofs_def add_sibling_def)

lemma level_proofs_upto:
  "level_proofs (pad (nodes hash leaves d)) d (proofs_upto hash leaves d) = proofs_upto hash leaves (Suc d)"
  by (auto simp: level_proofs_def proofs_upto_def proof_of_def add_sibling_def left_proof_def right_proof_def
      push_bit_eq_mult)

lemma length_proofs_upto [simp]: "length (proofs_upto hash leaves d) = length leaves"
  by (simp add: proofs_upto_def)

lemma other_in_pad: "q < length xs \<Longrightarrow> other q < length (pad xs)"
  unfolding other_def length_pad by (auto; presburger)

lemma length_leaves_pad: "length leaves \<le> 2 ^ l * length (pad (nodes hash leaves l))"
proof -
  have "length (nodes hash leaves l) \<le> length (pad (nodes hash leaves l))" by (simp add: pad_def)
  then show ?thesis using length_nodes_bounds(1)[of leaves l hash] by (meson le_trans mult_le_mono2)
qed

text \<open>A level whose entries in use are the reference level extends the reference proofs.\<close>

lemma level_step:
  assumes "take n buf = pad (nodes hash leaves l)" and "n \<le> length buf"
  shows "updateProofs buf n l (proofs_upto hash leaves l) = proofs_upto hash leaves (Suc l)"
    "updateProofsParallel cfg buf n l (proofs_upto hash leaves l) = proofs_upto hash leaves (Suc l)"
proof -
  have n: "n = length (pad (nodes hash leaves l))" using assms by (metis length_take min.absorb2)
  have "buf ! other (i div 2 ^ l) = pad (nodes hash leaves l) ! other (i div 2 ^ l)" if "i < length leaves" for i
    using other_in_pad[OF index_in_nodes[OF that], of l hash] by (simp flip: assms(1) n)
  then have "level_proofs buf l (proofs_upto hash leaves l) = proofs_upto hash leaves (Suc l)"
    using level_proofs_upto level_proofs_cong by (metis length_proofs_upto)
  then show "updateProofs buf n l (proofs_upto hash leaves l) = proofs_upto hash leaves (Suc l)"
    "updateProofsParallel cfg buf n l (proofs_upto hash leaves l) = proofs_upto hash leaves (Suc l)"
    using length_leaves_pad[of leaves l hash]
    by (simp_all add: updateProofs_level updateProofsParallel_level n)
qed

section \<open>Proof generation\<close>

lemma proofGen_loop_correct:
  assumes "take n buf = pad (nodes hash leaves l)" and "n \<le> length buf"
  shows "\<exists>buf' n'. proofGen_loop hash [Suc l..<Suc l + r] (buf, n, proofs_upto hash leaves (Suc l)) =
      (buf', n', proofs_upto hash leaves (Suc l + r)) \<and>
    take n' buf' = pad (nodes hash leaves (l + r)) \<and> n' \<le> length buf'"
  using assms
proof (induction r arbitrary: buf n l)
  case (Suc r)
  have n: "n = length (pad (nodes hash leaves l))" using Suc.prems by (metis length_take min.absorb2)
  obtain buf' m where f: "fixOdd (hash_in_place hash n buf) (n div 2) = (buf', m)" by fastforce
  have "take (n div 2) (hash_in_place hash n buf) = nodes hash leaves (Suc l)"
    using Suc.prems by (simp add: hash_in_place_pair_up n)
  then have t: "take m buf' = pad (nodes hash leaves (Suc l))" "m \<le> length buf'"
    using fixOdd_prefix[OF _ f] Suc.prems(2) hash_in_place_pair_up(2)[of n buf hash] by (simp_all add: n)
  have "[Suc l..<Suc l + Suc r] = Suc l # [Suc (Suc l)..<Suc (Suc l) + r]" by (simp add: upt_conv_Cons)
  then show ?case using Suc.IH[OF t] by (simp add: f level_step[OF t])
qed auto

lemma leaves_levels:
  assumes "2 \<le> length (leaves :: 'h list)"
  obtains r where "calTreeDepth (length leaves) = Suc r"
  using calTreeDepth_bounds(3)[OF assms] by (cases "calTreeDepth (length leaves)") auto

lemma first_level:
  assumes "n = length leaves" and "0 < n"
  shows "updateProofs (pad leaves) n 0 (initProofs leaves) = proofs_upto hash leaves 1"
    "updateProofsParallel cfg (pad leaves) n 0 (initProofs leaves) = proofs_upto hash leaves 1"
  using level_proofs_upto[of hash leaves 0] assms
  by (simp_all add: initProofs_upto[of leaves hash] updateProofs_level updateProofsParallel_level)

lemma proofGen_correct:
  assumes "2 \<le> length (Leaves mt)" and "Depth mt = calTreeDepth (length (Leaves mt))"
  shows "proofGen hash mt = mt\<lparr>Proofs := proofs_upto hash (Leaves mt) (Depth mt), Root := merkle_root hash (Leaves mt)\<rparr>"
proof -
  let ?ls = "Leaves mt"
  obtain r where r: "calTreeDepth (length ?ls) = Suc r" by (rule leaves_levels[OF assms(1)])
  obtain buf n where g: "proofGen_loop hash [1..<Suc r] (pad ?ls, length (pad ?ls), proofs_upto hash ?ls 1) =
      (buf, n, proofs_upto hash ?ls (Suc r))" and t: "take n buf = pad (nodes hash ?ls r)"
    using proofGen_loop_correct[of "length (pad ?ls)" "pad ?ls" hash ?ls 0 r] by auto
  have "length (take n buf) = 2" using length_below_top[OF assms(1), of hash] by (simp add: t r)
  then have "n \<ge> 2" by simp
  then have "buf ! 0 = pad (nodes hash ?ls r) ! 0" "buf ! 1 = pad (nodes hash ?ls r) ! 1" by (simp_all flip: t)
  then have "hash (buf ! 0) (buf ! 1) = merkle_root hash ?ls"
    using merkle_root_top[OF assms(1), of _ hash] by (simp add: r)
  moreover have "updateProofs (pad ?ls) (length ?ls) 0 (initProofs ?ls) = proofs_upto hash ?ls 1"
    using assms(1) by (intro first_level) auto
  ultimately show ?thesis using g by (simp add: proofGen_def fixOdd_pad assms(2) r)
qed

end
