(* ===== verification/MerkleNew.thy ===== *)
theory MerkleNew
  imports MerkleProofs
begin

text \<open>
  \<^verbatim>\<open>MerkleTree::New\<close> in every configuration: the leaves, the built tree, the parallel proof
  generation, and the interleavings of the tasks of a level.
\<close>

section \<open>Leaves\<close>

lemma leafGen_map:
  "leafGen digest bs = (if \<forall>b \<in> set bs. digest b \<noteq> None then Some (map (the \<circ> digest) bs) else None)"
proof (induction bs)
  case (Cons b bs)
  then show ?case by (cases "digest b") (auto simp: bind_eq_None_conv)
qed simp

definition digests_ok :: "('b \<Rightarrow> 'h option) \<Rightarrow> 'b list \<Rightarrow> nat list \<Rightarrow> bool" where
  "digests_ok digest bs js \<longleftrightarrow> (\<forall>j \<in> set js. digest (bs ! j) \<noteq> None)"

lemma leaf_worker_flag: "fst (leaf_worker digest bs js s) \<longleftrightarrow> fst s \<and> digests_ok digest bs js"
  by (induction digest bs js s rule: leaf_worker.induct) (auto simp: digests_ok_def split: option.split)

lemma leaf_worker_leaves:
  "digests_ok digest bs js \<Longrightarrow> snd (leaf_worker digest bs js s) =
     map (\<lambda>i. if i \<in> set js then the (digest (bs ! i)) else snd s ! i) [0..<length (snd s)]"
proof (induction digest bs js s rule: leaf_worker.induct)
  case (1 digest bs s)
  then show ?case by (simp add: map_nth)
next
  case (2 digest bs j js ret ls)
  then obtain h where h: "digest (bs ! j) = Some h" by (auto simp: digests_ok_def)
  have ok: "digests_ok digest bs js" using "2.prems" by (simp add: digests_ok_def)
  show ?case using "2.IH"[OF h ok] by (auto simp: h nth_list_update intro!: map_cong)
qed

lemma leaf_workers:
  "fst (fold (\<lambda>js. leaf_worker digest bs js) jss s) \<longleftrightarrow> fst s \<and> digests_ok digest bs (concat jss)"
  "digests_ok digest bs (concat jss) \<Longrightarrow> snd (fold (\<lambda>js. leaf_worker digest bs js) jss s) =
     map (\<lambda>i. if i \<in> set (concat jss) then the (digest (bs ! i)) else snd s ! i) [0..<length (snd s)]"
proof (induction jss arbitrary: s)
  case (Cons js jss)
  { case 1
    then show ?case using Cons(1) by (auto simp: leaf_worker_flag digests_ok_def)
  next
    case 2
    then have ok: "digests_ok digest bs js" "digests_ok digest bs (concat jss)" by (simp_all add: digests_ok_def)
    show ?case using Cons(2)[OF ok(2)] by (auto simp: leaf_worker_leaves[OF ok(1)] intro!: map_cong) }
qed (auto simp: map_nth digests_ok_def)

lemma set_leaf_workers:
  assumes "0 < k"
  shows "set (concat (map (\<lambda>i. stride k i n) [0..<k])) = {0..<n}"
  using assms by (auto simp: stride_filter)

text \<open>The workers compute what the loop computes, and fail when it fails.\<close>

lemma leafGenParallel_eq: "leafGenParallel zero digest cfg bs = leafGen digest bs"
proof -
  let ?k = "calculateNumRoutine (NumRoutines cfg) (length bs)"
  let ?jss = "map (\<lambda>i. stride ?k i (length bs)) [0..<?k]"
  let ?r = "fold (\<lambda>js. leaf_worker digest bs js) ?jss (True, replicate (length bs) zero)"
  have run: "leafGenParallel zero digest cfg bs = (if fst ?r then Some (snd ?r) else None)"
    by (simp add: leafGenParallel_def Let_def fold_map comp_def case_prod_beta)
  have "digests_ok digest bs (concat ?jss) \<longleftrightarrow> (\<forall>b \<in> set bs. digest b \<noteq> None)"
    unfolding digests_ok_def set_leaf_workers[OF calculateNumRoutine_pos] all_set_conv_all_nth by auto
  moreover have "snd ?r = map (the \<circ> digest) bs" if "digests_ok digest bs (concat ?jss)"
    using leaf_workers(2)[OF that, of "(True, replicate (length bs) zero)"]
    unfolding set_leaf_workers[OF calculateNumRoutine_pos] by (auto intro!: nth_equalityI)
  ultimately show ?thesis
    unfolding run leaf_workers(1) leafGen_map by simp
qed

section \<open>The tree\<close>

lemma treeBuild_loop_correct:
  "treeBuild_loop zero hash cfg r (pad (nodes hash leaves l)) (length (pad (nodes hash leaves l))) =
     map (\<lambda>l. pad (nodes hash leaves l)) [Suc l..<Suc l + r]"
proof (induction r arbitrary: l)
  case (Suc r)
  have "[Suc l..<Suc l + Suc r] = Suc l # [Suc (Suc l)..<Suc (Suc l) + r]" by (simp add: upt_conv_Cons)
  moreover have "fixOdd (nodes hash leaves (Suc l)) (length (nodes hash leaves (Suc l))) =
      (pad (nodes hash leaves (Suc l)), length (pad (nodes hash leaves (Suc l))))" by (rule fixOdd_pad)
  ultimately show ?case using Suc[of "Suc l"] by (simp add: build_level_pair_up Let_def del: length_pair_up)
qed simp

definition leaf_index :: "'h list \<Rightarrow> 'h \<rightharpoonup> nat" where
  "leaf_index leaves = fold (\<lambda>i m. m(leaves ! i \<mapsto> i)) [0..<length leaves] Map.empty"

lemma treeBuild_correct:
  assumes "2 \<le> length (Leaves mt)" and "Depth mt = calTreeDepth (length (Leaves mt))" and "leafMap mt = Map.empty"
  shows "treeBuild zero hash mt = mt\<lparr>leafMap := leaf_index (Leaves mt),
    mt_tree := map (\<lambda>l. pad (nodes hash (Leaves mt) l)) [0..<Depth mt], Root := merkle_root hash (Leaves mt)\<rparr>"
proof -
  let ?ls = "Leaves mt"
  obtain r where r: "calTreeDepth (length ?ls) = Suc r" by (rule leaves_levels[OF assms(1)])
  have t: "pad ?ls # treeBuild_loop zero hash (mt_config mt) r (pad ?ls) (length (pad ?ls)) =
      map (\<lambda>l. pad (nodes hash ?ls l)) [0..<Suc r]"
    using treeBuild_loop_correct[of zero hash "mt_config mt" r ?ls 0] by (simp add: upt_conv_Cons del: upt_Suc)
  then show ?thesis
    using merkle_root_top[OF assms(1), of _ hash]
    by (simp add: treeBuild_def fixOdd_pad assms(2,3) r leaf_index_def Let_def del: upt_Suc)
qed

lemma tree_proofs_correct:
  assumes "mt_tree mt = map (\<lambda>l. pad (nodes hash (Leaves mt) l)) [0..<d]"
  shows "tree_proofs mt = mt\<lparr>Proofs := proofs_upto hash (Leaves mt) d\<rparr>"
proof -
  let ?upd = "if RunInParallel (mt_config mt) then updateProofsParallel (mt_config mt) else updateProofs"
  let ?t = "mt_tree mt"
  have "fold (\<lambda>i. ?upd (?t ! i) (length (?t ! i)) i) [0..<k] (initProofs (Leaves mt)) = proofs_upto hash (Leaves mt) k"
    if "k \<le> d" for k
    using that
  proof (induction k)
    case (Suc k)
    let ?buf = "pad (nodes hash (Leaves mt) k)"
    have "?t ! k = ?buf" using Suc.prems by (simp add: assms)
    moreover have "?upd ?buf (length ?buf) k (proofs_upto hash (Leaves mt) k) = proofs_upto hash (Leaves mt) (Suc k)"
      by (simp add: level_step)
    ultimately show ?case using Suc by simp
  qed (simp add: initProofs_upto[of _ hash])
  from this[of d] show ?thesis by (simp add: tree_proofs_def Let_def assms)
qed

section \<open>Parallel proof generation\<close>

text \<open>
  The schedules in which the main thread assigns the shared variables after the workers
  are done. Running the tasks at once is one of them.
\<close>

definition waits :: "schedule \<Rightarrow> bool" where
  "waits sched \<longleftrightarrow> (\<forall>step k. \<exists>ws. set ws = {0..<k} \<and> sched step k = map Work ws @ [Reassign])"

lemma waits_inline: "waits inline_schedule"
  unfolding waits_def inline_schedule_def by (metis set_upt)

lemma run_workers:
  "fold (run_event zero hash k) (map Work ws) (buf1, buf2, n) =
     (buf1, fold (hash_pair hash buf1) (concat (map (\<lambda>i. stride (2 * k) (2 * i) n) ws)) buf2, n)"
  by (induction ws arbitrary: buf2) auto

lemma waitsD:
  assumes "waits sched"
  obtains ws where "set ws = {0..<k}" "sched step k = map Work ws @ [Reassign]"
  using assms unfolding waits_def by meson

lemma run_level:
  assumes "waits sched" and "0 < k" and "even n" and "n \<le> length buf1" and "n div 2 \<le> length buf2"
  obtains buf where "fold (run_event zero hash k) (sched step k) (buf1, buf2, n) =
      (buf, replicate (n div 2) zero, n div 2)"
    "take (n div 2) buf = pair_up hash (take n buf1)" "n div 2 \<le> length buf"
proof -
  obtain ws where ws: "set ws = {0..<k}" "sched step k = map Work ws @ [Reassign]"
    by (rule waitsD[OF assms(1)])
  let ?js = "concat (map (\<lambda>i. stride (2 * k) (2 * i) n) ws)"
  let ?buf = "fold (hash_pair hash buf1) ?js buf2"
  have js: "set ?js = {j. j < n \<and> even j}"
    using set_pair_workers[OF assms(2), of n] by (simp add: pair_workers_def ws)
  have buf: "?buf = map (\<lambda>i. if 2 * i < n then hash (buf1 ! (2 * i)) (buf1 ! (2 * i + 1)) else buf2 ! i) [0..<length buf2]"
    using js by (subst fold_hash_pair) auto
  have "2 * i < n \<longleftrightarrow> i < n div 2" "i < n div 2 \<Longrightarrow> Suc (2 * i) < n" for i using assms(3) by presburger+
  then have "take (n div 2) ?buf = pair_up hash (take n buf1)" "n div 2 \<le> length ?buf"
    unfolding buf using assms(4,5) by (auto simp: pair_up_def intro!: nth_equalityI)
  then show thesis using that by (simp add: ws run_workers)
qed

lemma proofGenParallel_loop_correct:
  assumes "waits sched" and "take n buf1 = pad (nodes hash leaves l)" and "n \<le> length buf1" and "n div 2 \<le> length buf2"
  shows "\<exists>buf b n'. proofGenParallel_loop zero hash cfg sched [Suc l..<Suc l + r]
      (buf1, buf2, n, proofs_upto hash leaves (Suc l)) = (buf, b, n', proofs_upto hash leaves (Suc l + r)) \<and>
    take n' buf = pad (nodes hash leaves (l + r)) \<and> n' \<le> length buf"
  using assms(2-4)
proof (induction r arbitrary: buf1 buf2 n l)
  case (Suc r)
  let ?k = "calculateNumRoutine (NumRoutines cfg) n"
  have n: "n = length (pad (nodes hash leaves l))" using Suc.prems by (metis length_take min.absorb2)
  obtain buf where run: "fold (run_event zero hash ?k) (sched (Suc l) ?k) (buf1, buf2, n) =
      (buf, replicate (n div 2) zero, n div 2)"
    and buf: "take (n div 2) buf = pair_up hash (take n buf1)" "n div 2 \<le> length buf"
    by (rule run_level[OF assms(1) calculateNumRoutine_pos _ Suc.prems(2,3)]) (simp add: n, blast)
  obtain buf' m where f: "fixOdd buf (n div 2) = (buf', m)" by fastforce
  have t: "take m buf' = pad (nodes hash leaves (Suc l))" "m \<le> length buf'"
    using fixOdd_prefix[OF buf(2) f] buf(1) Suc.prems(1) by simp_all
  have "m \<le> n div 2 + 1" using fixOdd_prefix(2)[OF buf(2) f] buf(2) by (simp add: length_pad)
  then have "m div 2 \<le> length (replicate (n div 2) zero)" using n by (cases "n div 2") auto
  note IH = Suc.IH[OF t this]
  have "[Suc l..<Suc l + Suc r] = Suc l # [Suc (Suc l)..<Suc (Suc l) + r]" by (simp add: upt_conv_Cons)
  then show ?case using IH by (simp add: run f level_step[OF t] Let_def)
qed auto

lemma proofGenParallel_correct:
  assumes "2 \<le> length (Leaves mt)" and "Depth mt = calTreeDepth (length (Leaves mt))" and "waits sched"
  shows "proofGenParallel zero hash sched mt =
    mt\<lparr>Proofs := proofs_upto hash (Leaves mt) (Depth mt), Root := merkle_root hash (Leaves mt)\<rparr>"
proof -
  let ?ls = "Leaves mt"
  let ?buf2 = "replicate (length (pad ?ls) div 2) zero"
  obtain r where r: "calTreeDepth (length ?ls) = Suc r" by (rule leaves_levels[OF assms(1)])
  obtain buf b n where g: "proofGenParallel_loop zero hash (mt_config mt) sched [1..<Suc r]
      (pad ?ls, ?buf2, length (pad ?ls), proofs_upto hash ?ls 1) = (buf, b, n, proofs_upto hash ?ls (Suc r))"
    and t: "take n buf = pad (nodes hash ?ls r)"
    using proofGenParallel_loop_correct[OF assms(3), of "length (pad ?ls)" "pad ?ls" hash ?ls 0 ?buf2 zero "mt_config mt" r]
    by auto
  have "length (take n buf) = 2" using length_below_top[OF assms(1), of hash] by (simp add: t r)
  then have "n \<ge> 2" by simp
  then have "buf ! 0 = pad (nodes hash ?ls r) ! 0" "buf ! 1 = pad (nodes hash ?ls r) ! 1" by (simp_all flip: t)
  then have "hash (buf ! 0) (buf ! 1) = merkle_root hash ?ls"
    using merkle_root_top[OF assms(1), of _ hash] by (simp add: r)
  moreover have "updateProofsParallel (mt_config mt) (pad ?ls) (length ?ls) 0 (initProofs ?ls) = proofs_upto hash ?ls 1"
    using assms(1) by (intro first_level) auto
  ultimately show ?thesis using g by (simp add: proofGenParallel_def fixOdd_pad assms(2) r)
qed

section \<open>New\<close>

lemma new_config_fields [simp]:
  "Mode (new_config c wp) = Mode c" "RunInParallel (new_config c wp) = RunInParallel c"
  "LeafGenParallel (new_config c wp) = LeafGenParallel c"
  by (simp_all add: new_config_def split: option.split)

definition merkle_of :: "'h \<Rightarrow> ('h \<Rightarrow> 'h \<Rightarrow> 'h) \<Rightarrow> merkle_config \<Rightarrow> 'h list \<Rightarrow> 'h merkle" where
  "merkle_of zero hash cfg leaves =
     (let d = calTreeDepth (length leaves)
      in \<lparr>mt_config = cfg,
          leafMap = (if Mode cfg = ModeProofGen then Map.empty else leaf_index leaves),
          mt_tree = (if Mode cfg = ModeProofGen then [] else map (\<lambda>l. pad (nodes hash leaves l)) [0..<d]),
          Root = merkle_root hash leaves, Leaves = leaves,
          Proofs = (if Mode cfg = ModeTreeBuild then [] else proofs_upto hash leaves d), Depth = d\<rparr>)"

text \<open>When the shared variables of the parallel proof generation are not disturbed.\<close>

definition undisturbed :: "merkle_config \<Rightarrow> pool \<Rightarrow> bool" where
  "undisturbed c wp \<longleftrightarrow> Mode c \<noteq> ModeProofGen \<or> \<not> RunInParallel c \<or> waits (pool_schedule wp)"

lemma New_eq:
  assumes "undisturbed c wp"
  shows "New zero hash digest c wp blocks =
    (if length blocks \<le> 1 then None
     else map_option (merkle_of zero hash (new_config c wp)) (leafGen digest blocks))"
proof (cases "length blocks \<le> 1")
  case False
  show ?thesis
  proof (cases "leafGen digest blocks")
    case (Some leaves)
    let ?cfg = "new_config c wp"
    let ?mt = "\<lparr>mt_config = ?cfg, leafMap = Map.empty, mt_tree = [], Root = zero, Leaves = leaves, Proofs = [],
      Depth = calTreeDepth (length blocks)\<rparr>"
    have len: "length blocks = length leaves" using Some by (auto simp: leafGen_map split: if_splits)
    then have two: "2 \<le> length (Leaves ?mt)" using False by simp
    have d: "Depth ?mt = calTreeDepth (length (Leaves ?mt))" by (simp add: len)
    have "(case Mode ?cfg of
            ModeProofGen \<Rightarrow> if RunInParallel ?cfg then proofGenParallel zero hash (pool_schedule wp) ?mt else proofGen hash ?mt
          | ModeTreeBuild \<Rightarrow> treeBuild zero hash ?mt
          | ModeProofGenAndTreeBuild \<Rightarrow> tree_proofs (treeBuild zero hash ?mt)) = merkle_of zero hash ?cfg leaves"
      using assms proofGenParallel_correct[OF two d, of _ zero hash] proofGen_correct[OF two d, of hash]
        treeBuild_correct[OF two d, of zero hash] tree_proofs_correct[of "treeBuild zero hash ?mt" hash "Depth ?mt"]
      by (auto simp: undisturbed_def merkle_of_def Let_def len split: ModeType.split)
    then show ?thesis using False Some
      by (simp add: New_def leafGenParallel_eq Let_def)
  qed (use False in \<open>simp add: New_def leafGenParallel_eq Let_def\<close>)
qed (simp add: New_def)

lemma New_SomeE:
  assumes "New zero hash digest c wp blocks = Some mt" and "undisturbed c wp"
  obtains leaves where "2 \<le> length leaves" "length leaves = length blocks" "leafGen digest blocks = Some leaves"
    "mt = merkle_of zero hash (new_config c wp) leaves"
proof -
  from assms(1) obtain leaves where "\<not> length blocks \<le> 1" "leafGen digest blocks = Some leaves"
    "mt = merkle_of zero hash (new_config c wp) leaves"
    unfolding New_eq[OF assms(2)] by (auto split: if_splits)
  moreover from this(2) have "length leaves = length blocks" by (auto simp: leafGen_map split: if_splits)
  ultimately show thesis using that by simp
qed

end
