(* ===== verification/MerkleSound.thy ===== *)
theory MerkleSound
  imports MerkleNew
begin

text \<open>
  What a proof proves. Completeness: \<^verbatim>\<open>Verify\<close> accepts the proofs of a tree, and
  \<^verbatim>\<open>GenerateProof\<close> gives the same ones. Soundness: a proof as long as the tree is deep that
  \<^verbatim>\<open>Verify\<close> accepts is of a leaf, if the hash does not collide on the pairs involved. Also what
  the tree does not distinguish: a repeated last leaf, and an inner node from a leaf.
\<close>

unbundle bit_operations_syntax

section \<open>Paths\<close>

text \<open>Bit \<open>l\<close> of the path of leaf \<open>i\<close> says that its node of level \<open>l\<close> is a left one.\<close>

lemma path_of_bit: "bit (path_of d i) l \<longleftrightarrow> l < 32 \<and> l < d \<and> even (i div 2 ^ l)"
proof (induction d arbitrary: l)
  case (Suc d)
  have "\<not> bit (path_of d i) d" using Suc.IH[of d] by simp
  then have "path_of d i AND 2 ^ d = 0"
    by (intro bit_word_eqI) (auto simp: bit_and_iff bit_exp_iff)
  then have "path_of d i + 2 ^ d = path_of d i OR 2 ^ d" by (rule disjunctive_add_eq_or)
  then show ?case using Suc.IH[of l] by (auto simp: bit_or_iff bit_exp_iff less_Suc_eq)
qed simp

text \<open>The digest after the siblings of the first \<open>d\<close> levels.\<close>

lemma verify_loop_append:
  "verify_loop hash (ns @ ms) path h = verify_loop hash ms (drop_bit (length ns) path) (verify_loop hash ns path h)"
  by (induction ns arbitrary: path h) (simp_all add: drop_bit_drop_bit add.commute)

lemma verify_loop_snoc:
  "verify_loop hash (ns @ [n]) path h =
     (if bit path (length ns) then hash (verify_loop hash ns path h) n else hash n (verify_loop hash ns path h))"
  by (simp add: verify_loop_append bit_iff_odd_drop_bit)

lemma nth_pair_up:
  "q < length xs div 2 \<Longrightarrow> pair_up hash xs ! q = hash (xs ! (2 * q)) (xs ! (2 * q + 1))"
  by (simp add: pair_up_def)

lemma nth_pad: "i < length xs \<Longrightarrow> pad xs ! i = xs ! i"
  by (simp add: pad_def nth_append)

text \<open>A node is the hash of its child on the path and of the sibling, in the order the path bit gives.\<close>

lemma parent_node:
  assumes "q < length (nodes hash leaves l)"
  shows "nodes hash leaves (Suc l) ! (q div 2) =
    (if even q then hash (nodes hash leaves l ! q) (pad (nodes hash leaves l) ! other q)
     else hash (pad (nodes hash leaves l) ! other q) (nodes hash leaves l ! q))"
proof -
  have "q div 2 < length (pad (nodes hash leaves l)) div 2"
    using assms unfolding length_pad by presburger
  moreover have "2 * (q div 2) = (if even q then q else q - 1)" "2 * (q div 2) + 1 = (if even q then q + 1 else q)"
    by (auto elim: oddE)
  ultimately show ?thesis using nth_pad[OF assms] by (simp add: nth_pair_up other_def)
qed

lemma verify_proof_of:
  assumes "i < length leaves" and "l \<le> d" and "d \<le> 32"
  shows "verify_loop hash (take l (Siblings (proof_of hash leaves d i))) (path_of d i) (leaves ! i) =
    nodes hash leaves l ! (i div 2 ^ l)"
  using assms(2)
proof (induction l)
  case (Suc l)
  let ?ns = "Siblings (proof_of hash leaves d i)"
  have "take (Suc l) ?ns = take l ?ns @ [pad (nodes hash leaves l) ! other (i div 2 ^ l)]" "length (take l ?ns) = l"
    using Suc.prems by (simp_all add: proof_of_def take_Suc_conv_app_nth)
  moreover have "i div 2 ^ Suc l = i div 2 ^ l div 2" by (metis div_mult2_eq power_Suc2)
  ultimately show ?case
    using Suc assms(3) parent_node[OF index_in_nodes[OF assms(1)], of hash l]
    by (simp add: verify_loop_snoc path_of_bit del: nodes.simps)
qed simp

lemma calTreeDepth_le:
  assumes "n \<le> 2 ^ k" and "2 \<le> n"
  shows "calTreeDepth n \<le> k"
proof -
  have "2 ^ (calTreeDepth n - 1) < (2::nat) ^ k" using calTreeDepth_bounds(2)[OF assms(2)] assms(1) by linarith
  then have "calTreeDepth n - 1 < k" by simp
  then show ?thesis by linarith
qed

text \<open>The number of blocks is an \<^verbatim>\<open>int\<close>, so the path of a proof fits in its 32 bits.\<close>

definition int_max :: nat where
  "int_max = 2 ^ 31 - 1"

lemma int_max_depth: "2 \<le> n \<Longrightarrow> n \<le> int_max \<Longrightarrow> calTreeDepth n \<le> 32"
  unfolding int_max_def by (intro calTreeDepth_le) (auto intro: order_trans)

lemma verify_accepts:
  assumes "i < length leaves" and "2 \<le> length leaves" and d: "calTreeDepth (length leaves) \<le> 32"
  shows "verify_loop hash (Siblings (proof_of hash leaves (calTreeDepth (length leaves)) i))
    (Path (proof_of hash leaves (calTreeDepth (length leaves)) i)) (leaves ! i) = merkle_root hash leaves"
proof -
  let ?d = "calTreeDepth (length leaves)"
  have "length leaves \<le> 2 ^ ?d" using calTreeDepth_bounds(1)[OF assms(2)] .
  then have "i div 2 ^ ?d = 0" using assms(1) by simp
  moreover have "nodes hash leaves ?d \<noteq> []" using length_top[OF assms(2), of hash] by auto
  ultimately show ?thesis
    using verify_proof_of[OF assms(1) order_refl d, of hash]
    by (simp add: proof_of_def merkle_root_def hd_conv_nth)
qed

section \<open>Proofs read from the tree\<close>

lemma leaf_index_iff:
  "leaf_index leaves h = Some i \<longleftrightarrow> i < length leaves \<and> leaves ! i = h \<and> (\<forall>j < length leaves. i < j \<longrightarrow> leaves ! j \<noteq> h)"
proof -
  have "fold (\<lambda>i m. m(leaves ! i \<mapsto> i)) [0..<n] Map.empty h = Some i \<longleftrightarrow>
      i < n \<and> leaves ! i = h \<and> (\<forall>j < n. i < j \<longrightarrow> leaves ! j \<noteq> h)" for n
    by (induction n) (auto simp: less_Suc_eq)
  then show ?thesis by (simp add: leaf_index_def)
qed

lemma leaf_index_dom: "h \<in> set leaves \<Longrightarrow> \<exists>i. leaf_index leaves h = Some i"
proof -
  have "fold (\<lambda>i m. m(leaves ! i \<mapsto> i)) [0..<n] Map.empty h \<noteq> None" if "k < n" "leaves ! k = h" for n k
    using that by (induction n) (auto simp: less_Suc_eq)
  moreover assume "h \<in> set leaves"
  ultimately show ?thesis by (auto simp: leaf_index_def in_set_conv_nth)
qed

lemma proof_loop_tree:
  assumes "t = map (\<lambda>l. pad (nodes hash leaves l)) [0..<d]" and "l + r \<le> d"
  shows "Siblings (proof_loop t r l (i div 2 ^ l)) =
      map (\<lambda>j. pad (nodes hash leaves j) ! other (i div 2 ^ j)) [l..<l + r] \<and>
    path_of l i + Path (proof_loop t r l (i div 2 ^ l)) = path_of (l + r) i"
  using assms(2)
proof (induction r arbitrary: l)
  case (Suc r)
  have idx: "i div 2 ^ l div 2 = i div 2 ^ Suc l" by (metis div_mult2_eq power_Suc2)
  have t: "t ! l = pad (nodes hash leaves l)" using Suc.prems by (simp add: assms(1))
  have upt: "[l..<l + Suc r] = l # [Suc l..<Suc l + r]" by (simp add: upt_conv_Cons)
  let ?p = "proof_loop t r (Suc l) (i div 2 ^ Suc l)"
  have IH: "Siblings ?p = map (\<lambda>j. pad (nodes hash leaves j) ! other (i div 2 ^ j)) [Suc l..<Suc l + r]"
    "path_of (Suc l) i + Path ?p = path_of (l + Suc r) i"
    using Suc.IH[of "Suc l"] Suc.prems by (simp_all only: add_Suc add_Suc_right)
  have "Siblings (proof_loop t (Suc r) l (i div 2 ^ l)) = t ! l ! other (i div 2 ^ l) # Siblings ?p"
    by (simp add: idx other_def Let_def del: power_Suc)
  moreover have "path_of l i + Path (proof_loop t (Suc r) l (i div 2 ^ l)) = path_of (Suc l) i + Path ?p"
    by (simp add: idx Let_def push_bit_eq_mult algebra_simps del: power_Suc)
  ultimately show ?case unfolding upt by (simp only: IH t list.map)
qed simp

lemma proof_loop_proof_of:
  "proof_loop (map (\<lambda>l. pad (nodes hash leaves l)) [0..<d]) d 0 i = proof_of hash leaves d i"
  using proof_loop_tree[where l = 0 and r = d and d = d and hash = hash and leaves = leaves and i = i, OF refl]
  by (simp add: proof_of_def)

section \<open>Soundness\<close>

text \<open>The pairs hashed while the tree is built, and while a proof is verified.\<close>

definition tree_pairs :: "('h \<Rightarrow> 'h \<Rightarrow> 'h) \<Rightarrow> 'h list \<Rightarrow> ('h \<times> 'h) list" where
  "tree_pairs hash leaves =
     concat (map (\<lambda>l. let p = pad (nodes hash leaves l) in map (\<lambda>q. (p ! (2 * q), p ! (2 * q + 1))) [0..<length p div 2])
       [0..<calTreeDepth (length leaves)])"

fun verify_pairs :: "('h \<Rightarrow> 'h \<Rightarrow> 'h) \<Rightarrow> 'h list \<Rightarrow> 32 word \<Rightarrow> 'h \<Rightarrow> ('h \<times> 'h) list" where
  "verify_pairs hash [] path h = []"
| "verify_pairs hash (n # ns) path h =
     (if odd path then (h, n) else (n, h)) #
     verify_pairs hash ns (drop_bit 1 path) (if odd path then hash h n else hash n h)"

definition collision_free :: "('h \<Rightarrow> 'h \<Rightarrow> 'h) \<Rightarrow> ('h \<times> 'h) list \<Rightarrow> bool" where
  "collision_free hash ps \<longleftrightarrow> inj_on (\<lambda>(a, b). hash a b) (set ps)"

lemma set_pad: "set (pad xs) = set xs"
proof (cases "even (length xs)")
  case False
  then have "xs \<noteq> []" by auto
  then show ?thesis by (auto simp: pad_def)
qed (simp add: pad_def)

lemma verify_pairs_step:
  "l < length ns \<Longrightarrow> (let h' = verify_loop hash (take l ns) path h
     in if bit path l then (h', ns ! l) else (ns ! l, h')) \<in> set (verify_pairs hash ns path h)"
proof (induction ns arbitrary: l path h)
  case (Cons n ns)
  then show ?case
  proof (cases l)
    case (Suc m)
    show ?thesis unfolding Suc nth_Cons_Suc take_Suc_Cons
      using Cons.IH[of m "drop_bit 1 path" "if odd path then hash h n else hash n h"] Cons.prems Suc
      by (simp add: Let_def bit_Suc drop_bit_Suc split del: if_split)
  qed (simp add: Let_def bit_0)
qed simp

lemma sound_level:
  assumes "collision_free hash (tree_pairs hash leaves @ verify_pairs hash ns path h)"
    and "l < calTreeDepth (length leaves)" and "l < length ns"
    and "verify_loop hash (take (Suc l) ns) path h \<in> set (nodes hash leaves (Suc l))"
  shows "verify_loop hash (take l ns) path h \<in> set (nodes hash leaves l)"
proof -
  let ?p = "pad (nodes hash leaves l)" and ?h = "verify_loop hash (take l ns) path h"
  let ?v = "if bit path l then (?h, ns ! l) else (ns ! l, ?h)"
  from assms(4) obtain q where q: "q < length ?p div 2"
    "verify_loop hash (take (Suc l) ns) path h = hash (?p ! (2 * q)) (?p ! (2 * q + 1))"
    by (auto simp: pair_up_def)
  have "verify_loop hash (take (Suc l) ns) path h = hash (fst ?v) (snd ?v)"
    using assms(3) by (simp add: take_Suc_conv_app_nth verify_loop_snoc)
  then have eq: "(\<lambda>(a, b). hash a b) ?v = (\<lambda>(a, b). hash a b) (?p ! (2 * q), ?p ! (2 * q + 1))"
    unfolding case_prod_beta q(2) by simp
  have "?v \<in> set (verify_pairs hash ns path h)" using verify_pairs_step[OF assms(3)] by (simp add: Let_def)
  moreover have "(?p ! (2 * q), ?p ! (2 * q + 1)) \<in> set (tree_pairs hash leaves)"
    using q(1) assms(2) by (force simp: tree_pairs_def Let_def)
  ultimately have "?v = (?p ! (2 * q), ?p ! (2 * q + 1))"
    by (intro inj_onD[where f = "\<lambda>(a, b). hash a b", OF assms(1)[unfolded collision_free_def] eq]) auto
  then have "?h = ?p ! (2 * q) \<or> ?h = ?p ! (2 * q + 1)" by (auto split: if_splits)
  then have "?h \<in> set ?p" using q(1) by auto
  then show ?thesis by (simp add: set_pad)
qed

lemma verify_sound:
  assumes "collision_free hash (tree_pairs hash leaves @ verify_pairs hash ns path h)"
    and "2 \<le> length leaves" and "length ns = calTreeDepth (length leaves)"
    and "verify_loop hash ns path h = merkle_root hash leaves"
  shows "h \<in> set leaves"
proof -
  let ?d = "calTreeDepth (length leaves)"
  have "verify_loop hash (take 0 ns) path h \<in> set (nodes hash leaves 0)"
  proof (rule inc_induct[of 0 ?d "\<lambda>l. verify_loop hash (take l ns) path h \<in> set (nodes hash leaves l)"])
    show "verify_loop hash (take ?d ns) path h \<in> set (nodes hash leaves ?d)"
    proof -
      have "nodes hash leaves ?d \<noteq> []" using length_top[OF assms(2), of hash] by auto
      then show ?thesis using assms(3,4) by (simp add: merkle_root_def)
    qed
  qed (use sound_level[OF assms(1)] assms(3) in simp_all)
  then show ?thesis by simp
qed

section \<open>What the root does not distinguish\<close>

lemma pad_pad [simp]: "pad (pad xs) = pad xs"
  by (simp add: pad_def)

lemma nodes_pad: "nodes hash (pad leaves) (Suc l) = nodes hash leaves (Suc l)"
  by (induction l) simp_all

lemma merkle_root_pad:
  assumes "2 \<le> length leaves"
  shows "merkle_root hash (pad leaves) = merkle_root hash leaves"
proof -
  let ?n = "length leaves"
  obtain r where r: "calTreeDepth ?n = Suc r" by (rule leaves_levels[OF assms])
  have "calTreeDepth (length (pad leaves)) = Suc r"
  proof (rule calTreeDepth_unique)
    have "?n \<le> 2 * 2 ^ r" "2 ^ r < ?n" using calTreeDepth_bounds[OF assms] by (simp_all add: r)
    then show "length (pad leaves) \<le> 2 ^ Suc r" "2 ^ (Suc r - 1) < length (pad leaves)" "2 \<le> length (pad leaves)"
      using assms unfolding length_pad by auto
  qed
  then show ?thesis by (simp add: merkle_root_def r nodes_pad del: nodes.simps)
qed

text \<open>The rest of a proof shows an inner node as if it were a leaf.\<close>

lemma inner_node_verifies:
  assumes "i < length leaves" and "2 \<le> length leaves" and "calTreeDepth (length leaves) \<le> 32" and "l \<le> calTreeDepth (length leaves)"
    and p: "p = proof_of hash leaves (calTreeDepth (length leaves)) i"
  shows "verify_loop hash (drop l (Siblings p)) (drop_bit l (Path p)) (nodes hash leaves l ! (i div 2 ^ l)) =
    merkle_root hash leaves"
proof -
  let ?d = "calTreeDepth (length leaves)"
  have "length (Siblings p) = ?d" "Path p = path_of ?d i" by (simp_all add: p proof_of_def)
  then show ?thesis
    using verify_loop_append[of hash "take l (Siblings p)" "drop l (Siblings p)" "Path p" "leaves ! i"]
      verify_proof_of[OF assms(1,4,3), of hash] verify_accepts[OF assms(1-3), of hash] assms(4)
    by (simp add: p)
qed

section \<open>Interleavings\<close>

text \<open>
  The tasks of a level write different entries, so a level that the workers build or extend
  the proofs from in any interleaving is the level of the sequential loop.
\<close>

lemma pair_workers_disjoint:
  assumes "0 < k" and "w < k" and "w' < k" and "w \<noteq> w'"
    and "j \<in> set (pair_workers k n ! w)" and "j' \<in> set (pair_workers k n ! w')"
  shows "even j" "even j'" "j \<noteq> j'"
proof -
  have "j mod (2 * k) = 2 * w" "j' mod (2 * k) = 2 * w'"
    using assms by (simp_all add: pair_workers_def set_stride)
  then show "even j" "even j'" "j \<noteq> j'"
    using assms(4) by (metis dvd_mod_iff dvd_triv_left, metis dvd_mod_iff dvd_triv_left, auto)
qed

lemma hash_pair_commute:
  assumes "even j" and "even j'" and "j \<noteq> j'"
  shows "hash_pair hash prev j \<circ> hash_pair hash prev j' = hash_pair hash prev j' \<circ> hash_pair hash prev j"
proof -
  have "j div 2 \<noteq> j' div 2" using assms by (auto elim!: evenE)
  then show ?thesis by (auto simp: hash_pair_def list_update_swap)
qed

lemma updatePairProof_commute:
  assumes "even j" and "even j'" and "j \<noteq> j'"
  shows "updatePairProof buf (2 ^ step) step j \<circ> updatePairProof buf (2 ^ step) step j' =
    updatePairProof buf (2 ^ step) step j' \<circ> updatePairProof buf (2 ^ step) step j"
  using assms by (auto simp: updatePairProof_map fun_eq_iff intro!: map_cong)

lemma level_interleaving:
  assumes "par_run (hash_pair hash prev) (replicate (length prev div 2) zero, pair_workers k (length prev)) (out, ws)"
    and "all_done ws" and "0 < k"
  shows "out = pair_up hash prev"
proof -
  have "ops_commute (hash_pair hash prev) (pair_workers k (length prev))"
    unfolding ops_commute_def
  proof (intro allI impI)
    fix w w' j j'
    assume a: "w < length (pair_workers k (length prev))" "w' < length (pair_workers k (length prev))" "w \<noteq> w'"
      "j \<in> set (pair_workers k (length prev) ! w)" "j' \<in> set (pair_workers k (length prev) ! w')"
    from a(1,2) have "w < k" "w' < k" by (simp_all add: pair_workers_def)
    from pair_workers_disjoint[OF assms(3) this a(3-5)]
    show "hash_pair hash prev j \<circ> hash_pair hash prev j' = hash_pair hash prev j' \<circ> hash_pair hash prev j"
      by (rule hash_pair_commute)
  qed
  from par_run_sequential[OF assms(1) this assms(2)] show ?thesis
    using set_pair_workers[OF assms(3), of "length prev"]
    by (subst (asm) fold_hash_pair) (auto simp: pair_up_def)
qed

end
