(* ===== verification/BlockCodecCorrect.thy ===== *)
theory BlockCodecCorrect
  imports BlockCodec
begin

text \<open>
  Round trips of the messages, for every implementation of the library's codecs that keeps the
  contract: a serialized block, fragment, envelope or block order is read back as it was, and
  the in-place updates of a serialized block change the part they name and nothing else.
\<close>

section \<open>The archive functions keep the contract\<close>

lemma archives_ok:
  assumes "prims_ok z"
  shows "codec_ok (KV_serialize z)" "codec_ok (TxReadWriteSet_serialize z)" "codec_ok (SignatureString_serialize z)"
    "codec_ok (UserRequest_serialize z)" "codec_ok (Envelop_serialize z)" "codec_ok (Header_serialize z)"
    "codec_ok (ExecuteResult_serialize z)" "codec_ok (Metadata_serialize z)" "codec_ok (BlockOrder_serialize z)"
    "codec_ok (SignedBlockOrder_serialize z)" "codec_ok (ebf_fields z)" "codec_ok (c_envelops z)"
  using assms
  unfolding prims_ok_def KV_serialize_def TxReadWriteSet_serialize_def SignatureString_serialize_def
    UserRequest_serialize_def Envelop_serialize_def Header_serialize_def ExecuteResult_serialize_def
    Metadata_serialize_def BlockOrder_serialize_def SignedBlockOrder_serialize_def ebf_fields_def
  by (auto intro!: map_codec_ok seq_codec_ok)

text \<open>A write and what may follow it: the bytes stay readable.\<close>

definition reads_to :: "'a codec \<Rightarrow> string \<Rightarrow> nat \<Rightarrow> 'a \<Rightarrow> nat \<Rightarrow> bool" where
  "reads_to c buf pos x pos' \<longleftrightarrow> pos \<le> pos' \<and> pos' \<le> length buf \<and> (\<forall>b. agree b buf pos pos' \<longrightarrow> in_of c b pos = Some (x, pos'))"

lemma reads_toD: "reads_to c buf pos x pos' \<Longrightarrow> in_of c buf pos = Some (x, pos')"
  by (simp add: reads_to_def agree_refl)

lemma write_reads:
  assumes "codec_ok c" and "out_of c x buf pos = Some (buf', pos')" and "pos \<le> length buf"
  shows "wrote buf pos buf' pos'" "reads_to c buf' pos x pos'" "pos' \<le> length buf'"
  using codec_okD[OF assms] by (auto simp: reads_to_def wrote_def)

lemma reads_to_agree: "reads_to c a pos x pos' \<Longrightarrow> agree b a pos pos' \<Longrightarrow> reads_to c b pos x pos'"
  by (auto simp: reads_to_def intro: agree_trans) (simp add: agree_def)

lemma reads_keep:
  assumes "reads_to c a i x j" and "wrote a k b l" and "j \<le> k" and "k \<le> length a"
  shows "reads_to c b i x j"
  using assms(1)
  by (intro reads_to_agree[OF assms(1) agree_sym[OF wrote_before[OF assms(2) _ assms(3,4)]]]) (simp add: reads_to_def)

lemma reads_keep_after:
  assumes "reads_to c a i x j" and "wrote a k b l" and "l \<le> i"
  shows "reads_to c b i x j"
  using assms(1)
  by (intro reads_to_agree[OF assms(1) agree_sym[OF wrote_after[OF assms(2,3)]]]) (simp_all add: reads_to_def)

section \<open>Blocks\<close>

text \<open>A serialized block: where its parts are and that they can be read.\<close>

definition holds_block :: "prims \<Rightarrow> string \<Rightarrow> PosList \<Rightarrow> Block \<Rightarrow> bool" where
  "holds_block z buf pl b \<longleftrightarrow> valid pl \<and>
     reads_to (Header_serialize z) buf (headerPos pl) (header b) (bodyPos pl) \<and>
     reads_to (c_envelops z) buf (bodyPos pl) (body b) (execResultPos pl) \<and>
     reads_to (ExecuteResult_serialize z) buf (execResultPos pl) (executeResult b) (metadataPos pl) \<and>
     reads_to (Metadata_serialize z) buf (metadataPos pl) (metadata b) (endPos pl)"

lemma serialize_holds:
  assumes z: "prims_ok z" and pos: "pos \<le> length buf"
    and s: "Block_serializeToString z b buf pos = (pl, buf')" and v: "valid pl"
  shows "holds_block z buf' pl b \<and> headerPos pl = pos \<and> wrote buf pos buf' (endPos pl)"
proof -
  note ok = archives_ok[OF z]
  from s v obtain b1 p1 b2 p2 b3 p3 p4 where
    o1: "out_of (Header_serialize z) (header b) buf pos = Some (b1, p1)" and
    o2: "out_of (c_envelops z) (body b) b1 p1 = Some (b2, p2)" and
    o3: "out_of (ExecuteResult_serialize z) (executeResult b) b2 p2 = Some (b3, p3)" and
    o4: "out_of (Metadata_serialize z) (metadata b) b3 p3 = Some (buf', p4)" and
    pl: "pl = \<lparr>valid = True, headerPos = pos, bodyPos = p1, execResultPos = p2, metadataPos = p3, endPos = p4\<rparr>"
    by (auto simp: Block_serializeToString_def PosList_init_def Let_def split: option.splits)
  note w1 = write_reads[OF ok(6) o1 pos]
  note w2 = write_reads[OF ok(12) o2 w1(3)]
  note w3 = write_reads[OF ok(7) o3 w2(3)]
  note w4 = write_reads[OF ok(8) o4 w3(3)]
  have le: "pos \<le> p1" "p1 \<le> p2" "p2 \<le> p3" "p3 \<le> p4"
    using w1(2) w2(2) w3(2) w4(2) by (simp_all add: reads_to_def)
  note k4 = reads_keep[OF _ w4(1) _ w3(3)] and k3 = reads_keep[OF _ w3(1) _ w2(3)] and k2 = reads_keep[OF _ w2(1) _ w1(3)]
  have "reads_to (Header_serialize z) buf' pos (header b) p1"
    by (rule k4[OF k3[OF k2[OF w1(2)]]]) (use le in simp_all)
  moreover have "reads_to (c_envelops z) buf' p1 (body b) p2"
    by (rule k4[OF k3[OF w2(2)]]) (use le in simp_all)
  moreover have "reads_to (ExecuteResult_serialize z) buf' p2 (executeResult b) p3"
    by (rule k4[OF w3(2)]) simp
  moreover have "wrote buf pos buf' p4"
    using w1(1) w2(1) w3(1) w4(1) wrote_trans by blast
  ultimately show ?thesis using w4(2) by (simp add: holds_block_def pl)
qed

lemma holds_deserialize:
  assumes "holds_block z buf pl b" and "headerPos pl = pos"
  shows "Block_deserializeFromString z (Some buf) pos = (pl, Some b)"
  using assms unfolding holds_block_def
  by (auto simp: Block_deserializeFromString_def PosList_init_def Let_def dest!: reads_toD)

lemma block_roundtrip:
  assumes "prims_ok z" and "pos \<le> length buf"
    and "Block_serializeToString z b buf pos = (pl, buf')" and "valid pl"
  shows "Block_deserializeFromString z (Some buf') pos = (pl, Some b)"
  using serialize_holds[OF assms] by (intro holds_deserialize) auto

text \<open>Headers have a fixed size, so a new header fits in the place of the old one.\<close>

lemma update_header_holds:
  assumes z: "prims_ok z" and fixed: "fixed_size (Header_serialize z) n"
    and h: "holds_block z buf pl b" and old: "bodyPos pl = headerPos pl + n"
    and u: "UpdateSerializedHeader z hd' buf (headerPos pl) = (pl', buf')" and v: "valid pl'"
  shows "holds_block z buf' pl (b\<lparr>header := hd'\<rparr>)"
proof -
  from u v obtain p where o1: "out_of (Header_serialize z) hd' buf (headerPos pl) = Some (buf', p)"
    by (auto simp: UpdateSerializedHeader_def PosList_init_def Let_def split: option.splits)
  have p: "p = bodyPos pl" using fixed o1 old by (simp add: fixed_size_def)
  have pos: "headerPos pl \<le> length buf" using h by (auto simp: holds_block_def reads_to_def)
  note w = write_reads[OF archives_ok(6)[OF z] o1 pos]
  have le: "p \<le> bodyPos pl" "p \<le> execResultPos pl" "p \<le> metadataPos pl"
    using h by (auto simp: p holds_block_def reads_to_def)
  show ?thesis
    using h w(2) reads_keep_after[OF _ w(1) le(1)] reads_keep_after[OF _ w(1) le(2)] reads_keep_after[OF _ w(1) le(3)]
    by (auto simp: holds_block_def p)
qed

lemma append_result_holds:
  assumes z: "prims_ok z" and h: "holds_block z buf pl b"
    and u: "AppendSerializedExecutionResult z b' buf (execResultPos pl) = (pl', buf')" and v: "valid pl'"
  shows "holds_block z buf' (pl'\<lparr>headerPos := headerPos pl, bodyPos := bodyPos pl\<rparr>)
    (b\<lparr>executeResult := executeResult b', metadata := metadata b'\<rparr>)"
proof -
  from u v obtain b3 p3 p4 where
    o3: "out_of (ExecuteResult_serialize z) (executeResult b') buf (execResultPos pl) = Some (b3, p3)" and
    o4: "out_of (Metadata_serialize z) (metadata b') b3 p3 = Some (buf', p4)" and
    pl': "pl' = \<lparr>valid = True, headerPos = 0, bodyPos = 0, execResultPos = execResultPos pl, metadataPos = p3, endPos = p4\<rparr>"
    by (auto simp: AppendSerializedExecutionResult_def PosList_init_def Let_def split: option.splits)
  have pos: "execResultPos pl \<le> length buf" "bodyPos pl \<le> execResultPos pl"
    using h by (auto simp: holds_block_def reads_to_def)
  note w3 = write_reads[OF archives_ok(7)[OF z] o3 pos(1)]
  note w4 = write_reads[OF archives_ok(8)[OF z] o4 w3(3)]
  have le: "execResultPos pl \<le> p3" using w3(2) by (simp add: reads_to_def)
  note k4 = reads_keep[OF _ w4(1) _ w3(3)] and k3 = reads_keep[OF _ w3(1) _ pos(1)]
  have "reads_to (Header_serialize z) buf' (headerPos pl) (header b) (bodyPos pl)"
    by (rule k4[OF k3]) (use h le pos in \<open>simp_all add: holds_block_def\<close>)
  moreover have "reads_to (c_envelops z) buf' (bodyPos pl) (body b) (execResultPos pl)"
    by (rule k4[OF k3]) (use h le in \<open>simp_all add: holds_block_def\<close>)
  moreover have "reads_to (ExecuteResult_serialize z) buf' (execResultPos pl) (executeResult b') p3"
    by (rule k4[OF w3(2)]) simp
  ultimately show ?thesis using w4(2) by (simp add: holds_block_def pl')
qed

lemma append_metadata_holds:
  assumes z: "prims_ok z" and h: "holds_block z buf pl b"
    and u: "AppendSerializedMetadata z m buf (metadataPos pl) = (pl', buf')" and v: "valid pl'"
  shows "holds_block z buf' (pl\<lparr>endPos := endPos pl'\<rparr>) (b\<lparr>metadata := m\<rparr>)"
proof -
  from u v obtain p4 where
    o4: "out_of (Metadata_serialize z) m buf (metadataPos pl) = Some (buf', p4)" and p4: "endPos pl' = p4"
    by (auto simp: AppendSerializedMetadata_def PosList_init_def Let_def split: option.splits)
  have pos: "metadataPos pl \<le> length buf" "execResultPos pl \<le> metadataPos pl" "bodyPos pl \<le> execResultPos pl"
    using h by (auto simp: holds_block_def reads_to_def)
  note w4 = write_reads[OF archives_ok(8)[OF z] o4 pos(1)]
  note k4 = reads_keep[OF _ w4(1) _ pos(1)]
  have "reads_to (Header_serialize z) buf' (headerPos pl) (header b) (bodyPos pl)"
    by (rule k4) (use h pos in \<open>simp_all add: holds_block_def\<close>)
  moreover have "reads_to (c_envelops z) buf' (bodyPos pl) (body b) (execResultPos pl)"
    by (rule k4) (use h pos in \<open>simp_all add: holds_block_def\<close>)
  moreover have "reads_to (ExecuteResult_serialize z) buf' (execResultPos pl) (executeResult b) (metadataPos pl)"
    by (rule k4) (use h in \<open>simp_all add: holds_block_def\<close>)
  ultimately show ?thesis using h w4(2) by (simp add: holds_block_def p4)
qed

section \<open>Fragments, envelopes, block orders\<close>

lemma fragment_roundtrip:
  assumes z: "prims_ok z" and pos: "offset \<le> length buf"
    and s: "EBF_serializeToString z f buf offset True = (True, raw)"
  shows "EBF_deserializeFromString z raw offset = Some f"
proof -
  let ?fields = "(blockSignatures f, ebf_blockNumber f, ebf_root f, ebf_size f, ebf_start f, ebf_end f)"
  from s obtain b p where o1: "out_of (ebf_fields z) ?fields buf offset = Some (b, p)"
    and raw: "raw = take p b @ encodeMessage f"
    by (auto simp: EBF_serializeToString_def split: option.splits)
  note w = write_reads[OF archives_ok(11)[OF z] o1 pos]
  have le: "offset \<le> p" using w(2) by (simp add: reads_to_def)
  have "agree raw b offset p" using w(3) le by (auto simp: agree_def bytes_def raw drop_take)
  then have "in_of (ebf_fields z) raw offset = Some (?fields, p)"
    using w(2) by (simp add: reads_to_def)
  moreover have "drop p raw = encodeMessage f" using w(3) by (simp add: raw)
  ultimately show ?thesis by (simp add: EBF_deserializeFromString_def)
qed

lemma envelop_roundtrip:
  assumes "prims_ok z" and "pos \<le> length buf" and "Envelop_serializeToString z e buf pos = (True, buf')"
  shows "\<exists>pos'. Envelop_deserializeFromString z buf' pos = (int pos', Some e) \<and> pos \<le> pos' \<and> pos' \<le> length buf'"
proof -
  from assms(3) obtain pos' where out: "out_of (Envelop_serialize z) e buf pos = Some (buf', pos')"
    by (auto simp: Envelop_serializeToString_def to_string_def split: option.splits)
  note w = write_reads[OF archives_ok(5)[OF assms(1)] out assms(2)]
  then show ?thesis using reads_toD[OF w(2)]
    by (auto simp: Envelop_deserializeFromString_def reads_to_def)
qed

lemma block_order_roundtrip:
  assumes "prims_ok z" and "pos \<le> length buf" and "BlockOrder_serializeToString z bo buf pos = (True, buf')"
  shows "BlockOrder_deserializeFromString z buf' pos = Some bo"
  using string_roundtrip[OF archives_ok(9)[OF assms(1)] _ assms(2)] assms(3)
  by (simp add: BlockOrder_serializeToString_def BlockOrder_deserializeFromString_def)

lemma signed_block_order_roundtrip:
  assumes "prims_ok z" and "pos \<le> length buf" and "SignedBlockOrder_serializeToString z s buf pos = (True, buf')"
  shows "SignedBlockOrder_deserializeFromString z buf' pos = Some s"
  using string_roundtrip[OF archives_ok(10)[OF assms(1)] _ assms(2)] assms(3)
  by (simp add: SignedBlockOrder_serializeToString_def SignedBlockOrder_deserializeFromString_def)

section \<open>Lookups\<close>

lemma CompareTID_zero: "CompareTID a b = 0 \<longleftrightarrow> a = b"
  by (metis CompareTID_ge CompareTID_le order_antisym order_refl)

lemma findEnvelop_find: "findEnvelop d es = find (\<lambda>e. digest (signature e) = d) es"
  by (induction es) (simp_all add: CompareTID_zero)

lemma findRWSet_sound:
  assumes "findRWSet d er = Some (t, v)"
  shows "\<exists>i < length (txReadWriteSet er). t = txReadWriteSet er ! i \<and> v = transactionFilter er ! i \<and> requestDigest t = d"
proof -
  from assms obtain i js where f: "filter (\<lambda>i. \<not> CompareTID (requestDigest (txReadWriteSet er ! i)) d \<noteq> 0)
      [0..<length (txReadWriteSet er)] = i # js" and tv: "t = txReadWriteSet er ! i" "v = transactionFilter er ! i"
    by (auto simp: findRWSet_def split: list.splits)
  have "i \<in> set (i # js)" by simp
  then show ?thesis unfolding f[symmetric] using tv by (auto simp: CompareTID_zero)
qed

end
