(* ===== verification/ProofGenerator.thy ===== *)
theory ProofGenerator
  imports MerkleSound BlockCodecCorrect
begin

text \<open>
  Merkle trees over the requests and over the results of a block, \<^verbatim>\<open>include/common/proof_generator.h\<close>,
  and the serialized form of a proof, \<^verbatim>\<open>src/common/proof_generator.cpp\<close> and the function of the same
  name in \<^verbatim>\<open>src/client/sdk/client_sdk.cpp\<close>. SHA-256 (\<open>sha256\<close>, which may fail) and the hash of two digests are
  parameters.
\<close>

section \<open>Trees over requests\<close>

definition envelop_digest :: "(string \<Rightarrow> string option) \<Rightarrow> (SignatureString \<Rightarrow> string \<Rightarrow> bool) option \<Rightarrow> Envelop \<Rightarrow> string option" where
  "envelop_digest sha256 validateHandle e =
     (case sha256 (payload e) of
        None \<Rightarrow> None
      | Some d \<Rightarrow> (case validateHandle of
            Some f \<Rightarrow> if f (signature e) d then Some d else None
          | None \<Rightarrow> Some d))"

definition generator_config :: "ModeType \<Rightarrow> merkle_config" where
  "generator_config m = \<lparr>NumRoutines = 0, Mode = m, RunInParallel = True, LeafGenParallel = True\<rparr>"

text \<open>
  A block with one request gets it twice, the second time without the validation. A data block is
  the envelope with the handle it is checked by.
\<close>

definition UserRequest_GenerateMerkleTree ::
  "string \<Rightarrow> (string \<Rightarrow> string \<Rightarrow> string) \<Rightarrow> (string \<Rightarrow> string option) \<Rightarrow> Envelop list \<Rightarrow>
   (SignatureString \<Rightarrow> string \<Rightarrow> bool) option \<Rightarrow> ModeType \<Rightarrow> pool \<Rightarrow> string merkle option" where
  "UserRequest_GenerateMerkleTree zero hash sha256 reqs validateHandle m wp =
     (let blocks = map (\<lambda>e. (e, validateHandle)) reqs;
          blocks = (if length blocks = 1 then blocks @ [(hd reqs, None)] else blocks)
      in New zero hash (\<lambda>(e, v). envelop_digest sha256 v e) (generator_config m) wp blocks)"

definition UserRequest_GenerateProof :: "(string \<Rightarrow> string option) \<Rightarrow> string merkle \<Rightarrow> Envelop \<Rightarrow> string mproof option" where
  "UserRequest_GenerateProof sha256 mt e = GenerateProof (envelop_digest sha256 None) mt e"

definition UserRequest_ValidateProof ::
  "(string \<Rightarrow> string \<Rightarrow> string) \<Rightarrow> (string \<Rightarrow> string option) \<Rightarrow> string \<Rightarrow> string mproof \<Rightarrow> Envelop \<Rightarrow> bool" where
  "UserRequest_ValidateProof hash sha256 root pf e =
     (case Verify hash (envelop_digest sha256 None) e pf root of None \<Rightarrow> False | Some r \<Rightarrow> r)"

section \<open>Trees over results\<close>

definition result_digest :: "(string \<Rightarrow> string option) \<Rightarrow> (TxReadWriteSet \<times> 8 word) codec \<Rightarrow> TxReadWriteSet \<times> 8 word \<Rightarrow> string option" where
  "result_digest sha256 c rv = (case out_of c rv [] 0 of None \<Rightarrow> None | Some (str, pos) \<Rightarrow> sha256 str)"

definition ExecResult_GenerateMerkleTree ::
  "string \<Rightarrow> (string \<Rightarrow> string \<Rightarrow> string) \<Rightarrow> (string \<Rightarrow> string option) \<Rightarrow> (TxReadWriteSet \<times> 8 word) codec \<Rightarrow>
   TxReadWriteSet list \<Rightarrow> 8 word list \<Rightarrow> ModeType \<Rightarrow> pool \<Rightarrow> string merkle option" where
  "ExecResult_GenerateMerkleTree zero hash sha256 c rwsets vs m wp =
     (if length rwsets \<noteq> length vs then None
      else let blocks = zip rwsets vs;
               blocks = (if length blocks = 1 then blocks @ [hd blocks] else blocks)
           in New zero hash (result_digest sha256 c) (generator_config m) wp blocks)"

definition ExecResult_GenerateProof ::
  "(string \<Rightarrow> string option) \<Rightarrow> (TxReadWriteSet \<times> 8 word) codec \<Rightarrow> string merkle \<Rightarrow> TxReadWriteSet \<Rightarrow> 8 word \<Rightarrow> string mproof option" where
  "ExecResult_GenerateProof sha256 c mt rw v = GenerateProof (result_digest sha256 c) mt (rw, v)"

definition ExecResult_ValidateProof ::
  "(string \<Rightarrow> string \<Rightarrow> string) \<Rightarrow> (string \<Rightarrow> string option) \<Rightarrow> (TxReadWriteSet \<times> 8 word) codec \<Rightarrow>
   string \<Rightarrow> string mproof \<Rightarrow> TxReadWriteSet \<Rightarrow> 8 word \<Rightarrow> bool" where
  "ExecResult_ValidateProof hash sha256 c root pf rw v =
     (case Verify hash (result_digest sha256 c) (rw, v) pf root of None \<Rightarrow> False | Some r \<Rightarrow> r)"

section \<open>Serialized proofs\<close>

fun out_siblings :: "prims \<Rightarrow> string list \<Rightarrow> string \<Rightarrow> nat \<Rightarrow> (string \<times> nat) option" where
  "out_siblings z [] buf pos = Some (buf, pos)"
| "out_siblings z (h # hs) buf pos = do { (buf, pos) \<leftarrow> out_of (c_hash z) h buf pos; out_siblings z hs buf pos }"

definition proof_serializeToString :: "prims \<Rightarrow> string mproof \<Rightarrow> string \<Rightarrow> nat \<Rightarrow> bool \<times> string" where
  "proof_serializeToString z p ret startPos =
     (case do { (buf, pos) \<leftarrow> out_of (seq_codec (c_u32 z) (c_i64 z)) (Path p, int (length (Siblings p))) ret startPos;
                out_siblings z (Siblings p) buf pos } of
        None \<Rightarrow> (False, ret) | Some (buf, pos) \<Rightarrow> (True, buf))"

fun in_siblings :: "prims \<Rightarrow> nat \<Rightarrow> string \<Rightarrow> nat \<Rightarrow> string list option" where
  "in_siblings z 0 buf pos = Some []"
| "in_siblings z (Suc n) buf pos = do { (h, pos) \<leftarrow> in_of (c_hash z) buf pos; hs \<leftarrow> in_siblings z n buf pos; Some (h # hs) }"

text \<open>
  \<^verbatim>\<open>resize\<close> takes the size from the message: a negative one is converted to an unsigned
  value above every vector's maximal size, and \<^verbatim>\<open>resize\<close> throws.
\<close>

datatype proof_error = ReadFailure | LengthError

definition proof_deserializeFromString :: "prims \<Rightarrow> string \<Rightarrow> nat \<Rightarrow> proof_error + string mproof" where
  "proof_deserializeFromString z raw startPos =
     (case in_of (seq_codec (c_u32 z) (c_i64 z)) raw startPos of
        None \<Rightarrow> Inl ReadFailure
      | Some ((path, proofSize), pos) \<Rightarrow>
          if proofSize < 0 then Inl LengthError
          else case in_siblings z (nat proofSize) raw pos of
              None \<Rightarrow> Inl ReadFailure
            | Some hs \<Rightarrow> Inr \<lparr>Siblings = hs, Path = path\<rparr>)"

section \<open>Round trip\<close>

lemma siblings_roundtrip:
  assumes "codec_ok (c_hash z)" and "out_siblings z hs buf pos = Some (buf', pos')" and "pos \<le> length buf"
  shows "wrote buf pos buf' pos' \<and> (\<forall>b. agree b buf' pos pos' \<longrightarrow> in_siblings z (length hs) b pos = Some hs)"
  using assms(2,3)
proof (induction hs arbitrary: buf pos)
  case Nil
  then show ?case by (simp add: wrote_def)
next
  case (Cons h hs)
  from Cons.prems(1) obtain b1 p1 where o1: "out_of (c_hash z) h buf pos = Some (b1, p1)"
    and o2: "out_siblings z hs b1 p1 = Some (buf', pos')" by (auto simp: bind_eq_Some_conv)
  note w1 = write_reads[OF assms(1) o1 Cons.prems(2)]
  note w2 = Cons.IH[OF o2 w1(3)]
  have le: "pos \<le> p1" "p1 \<le> pos'" using w1(2) w2 by (simp_all add: reads_to_def wrote_def)
  have keep: "reads_to (c_hash z) buf' pos h p1" using reads_keep[OF w1(2) _ order_refl w1(3)] w2 by blast
  have "in_siblings z (length (h # hs)) b pos = Some (h # hs)" if a: "agree b buf' pos pos'" for b
  proof -
    have "in_of (c_hash z) b pos = Some (h, p1)"
      using keep agree_sub[OF a order_refl le] by (simp add: reads_to_def)
    moreover have "in_siblings z (length hs) b p1 = Some hs"
      using w2 agree_sub[OF a le(1) le(2) order_refl] by blast
    ultimately show ?thesis by simp
  qed
  moreover have "wrote buf pos buf' pos'" using wrote_trans[OF w1(1)] w2 by blast
  ultimately show ?case by blast
qed

lemma proof_codec_roundtrip:
  assumes z: "prims_ok z" and pos: "startPos \<le> length ret"
    and s: "proof_serializeToString z p ret startPos = (True, raw)"
  shows "proof_deserializeFromString z raw startPos = Inr p"
proof -
  let ?c = "seq_codec (c_u32 z) (c_i64 z)"
  have ok: "codec_ok ?c" "codec_ok (c_hash z)" using z by (auto simp: prims_ok_def intro: seq_codec_ok)
  from s obtain b1 p1 pos' where
    o1: "out_of ?c (Path p, int (length (Siblings p))) ret startPos = Some (b1, p1)" and
    o2: "out_siblings z (Siblings p) b1 p1 = Some (raw, pos')"
    by (auto simp: proof_serializeToString_def bind_eq_Some_conv split: option.splits)
  note w1 = write_reads[OF ok(1) o1 pos]
  note w2 = siblings_roundtrip[OF ok(2) o2 w1(3)]
  have "reads_to ?c raw startPos (Path p, int (length (Siblings p))) p1"
    using reads_keep[OF w1(2) _ order_refl w1(3)] w2 by blast
  then have "in_of ?c raw startPos = Some ((Path p, int (length (Siblings p))), p1)" by (rule reads_toD)
  moreover have "in_siblings z (length (Siblings p)) raw p1 = Some (Siblings p)"
    using w2 by (simp add: wrote_def agree_refl)
  ultimately show ?thesis by (simp add: proof_deserializeFromString_def)
qed

section \<open>Proofs of requests and results\<close>

lemma undisturbed_tree: "m \<noteq> ModeProofGen \<Longrightarrow> undisturbed (generator_config m) wp"
  by (simp add: undisturbed_def generator_config_def)

lemma new_config_Mode: "Mode (new_config (generator_config m) wp) = m"
  by (simp add: generator_config_def)

text \<open>The tree of a block proves each of its leaves.\<close>

lemma GenerateProof_verifies:
  assumes new: "New zero hash dg cfg wp blocks = Some mt" and u: "undisturbed cfg wp"
    and m: "Mode cfg = ModeTreeBuild \<or> Mode cfg = ModeProofGenAndTreeBuild"
    and d: "dgb b = Some h" and h: "h \<in> set (Leaves mt)" and len: "length blocks \<le> int_max"
  shows "\<exists>p. GenerateProof dgb mt b = Some p \<and> Verify hash dgb b p (Root mt) = Some True"
proof -
  let ?ls = "Leaves mt"
  from new u obtain leaves where two: "2 \<le> length leaves" and lb: "length leaves = length blocks"
    and "leafGen dg blocks = Some leaves" and mt: "mt = merkle_of zero hash (new_config cfg wp) leaves" by (rule New_SomeE)
  have leaves: "?ls = leaves" by (simp add: mt merkle_of_def Let_def)
  obtain i where i: "leaf_index leaves h = Some i" using leaf_index_dom[of h leaves] h by (auto simp: leaves)
  then have i': "i < length leaves" "leaves ! i = h" by (simp_all add: leaf_index_iff)
  have depth: "calTreeDepth (length leaves) \<le> 32" using int_max_depth[OF two] len lb by simp
  have mode: "Mode cfg \<noteq> ModeProofGen" using m by auto
  have gp: "GenerateProof dgb mt b = Some (proof_of hash leaves (calTreeDepth (length leaves)) i)"
    unfolding GenerateProof_def mt merkle_of_def Let_def proof_loop_proof_of[symmetric] using m mode d i by simp
  from verify_accepts[OF i'(1) two depth, of hash]
  have "Verify hash dgb b (proof_of hash leaves (calTreeDepth (length leaves)) i) (Root mt) = Some True"
    by (simp add: Verify_def d i'(2) mt merkle_of_def Let_def)
  with gp show ?thesis by blast
qed

lemma Leaves_New:
  assumes "New zero hash dg cfg wp blocks = Some mt" and "undisturbed cfg wp" and "b \<in> set blocks"
  shows "\<exists>h. dg b = Some h \<and> h \<in> set (Leaves mt)"
proof -
  from assms(1,2) obtain leaves where "2 \<le> length leaves" "length leaves = length blocks" and g: "leafGen dg blocks = Some leaves"
    and mt: "mt = merkle_of zero hash (new_config cfg wp) leaves" by (rule New_SomeE)
  from g have "\<forall>b \<in> set blocks. dg b \<noteq> None" "leaves = map (the \<circ> dg) blocks"
    by (auto simp: leafGen_map split: if_splits)
  with assms(3) show ?thesis by (force simp: mt merkle_of_def Let_def)
qed

lemma request_proof_valid:
  assumes "UserRequest_GenerateMerkleTree zero hash sha256 reqs vh m wp = Some mt"
    and m: "m = ModeTreeBuild \<or> m = ModeProofGenAndTreeBuild" and e: "e \<in> set reqs" and len: "length reqs < int_max"
  shows "\<exists>p. UserRequest_GenerateProof sha256 mt e = Some p \<and> UserRequest_ValidateProof hash sha256 (Root mt) p e"
proof -
  let ?bs = "let blocks = map (\<lambda>e. (e, vh)) reqs in if length blocks = 1 then blocks @ [(hd reqs, None)] else blocks"
  have new: "New zero hash (\<lambda>(e, v). envelop_digest sha256 v e) (generator_config m) wp ?bs = Some mt"
    using assms(1) by (simp add: UserRequest_GenerateMerkleTree_def Let_def)
  have u: "undisturbed (generator_config m) wp" using m by (intro undisturbed_tree) auto
  have "(e, vh) \<in> set ?bs" using e by (simp add: Let_def)
  from Leaves_New[OF new u this] obtain h where h: "envelop_digest sha256 vh e = Some h" "h \<in> set (Leaves mt)" by auto
  then have d: "envelop_digest sha256 None e = Some h" by (auto simp: envelop_digest_def split: option.splits if_splits)
  have mode: "Mode (generator_config m) = ModeTreeBuild \<or> Mode (generator_config m) = ModeProofGenAndTreeBuild"
    using m by (simp add: generator_config_def)
  have "length ?bs \<le> int_max" using len by (simp add: Let_def)
  from GenerateProof_verifies[where dgb = "envelop_digest sha256 None" and b = e, OF new u mode d h(2) this]
  show ?thesis by (auto simp: UserRequest_GenerateProof_def UserRequest_ValidateProof_def)
qed

lemma result_proof_valid:
  assumes "ExecResult_GenerateMerkleTree zero hash sha256 c rwsets vs m wp = Some mt"
    and m: "m = ModeTreeBuild \<or> m = ModeProofGenAndTreeBuild" and i: "i < length rwsets" and len: "length rwsets < int_max"
  shows "\<exists>p. ExecResult_GenerateProof sha256 c mt (rwsets ! i) (vs ! i) = Some p \<and>
    ExecResult_ValidateProof hash sha256 c (Root mt) p (rwsets ! i) (vs ! i)"
proof -
  let ?bs = "let blocks = zip rwsets vs in if length blocks = 1 then blocks @ [hd blocks] else blocks"
  have l: "length vs = length rwsets" and new: "New zero hash (result_digest sha256 c) (generator_config m) wp ?bs = Some mt"
    using assms(1) by (auto simp: ExecResult_GenerateMerkleTree_def Let_def split: if_splits)
  have u: "undisturbed (generator_config m) wp" using m by (intro undisturbed_tree) auto
  have "(rwsets ! i, vs ! i) \<in> set (zip rwsets vs)" using i l by (metis in_set_zip fst_conv snd_conv)
  then have "(rwsets ! i, vs ! i) \<in> set ?bs" by (simp add: Let_def)
  from Leaves_New[OF new u this] obtain h where
    h: "result_digest sha256 c (rwsets ! i, vs ! i) = Some h" "h \<in> set (Leaves mt)" by auto
  have mode: "Mode (generator_config m) = ModeTreeBuild \<or> Mode (generator_config m) = ModeProofGenAndTreeBuild"
    using m by (simp add: generator_config_def)
  have "length ?bs \<le> int_max" using len l by (simp add: Let_def)
  from GenerateProof_verifies[where dgb = "result_digest sha256 c" and b = "(rwsets ! i, vs ! i)", OF new u mode h(1,2) this]
  show ?thesis by (auto simp: ExecResult_GenerateProof_def ExecResult_ValidateProof_def)
qed

text \<open>The leaf of a request is the digest of its payload: a proof says nothing about the signature.\<close>

lemma signature_not_proved:
  "UserRequest_ValidateProof hash sha256 root p (e\<lparr>signature := s\<rparr>) = UserRequest_ValidateProof hash sha256 root p e"
  by (cases "sha256 (payload e)") (simp_all add: UserRequest_ValidateProof_def Verify_def envelop_digest_def)

end
