(* ===== verification/FragmentContext.thy ===== *)
theory FragmentContext
  imports FragmentUtil ProofGenerator "HOL-Library.Signed_Division"
begin

text \<open>
  Cutting a message into fragments and putting it together again,
  \<^verbatim>\<open>include/peer/replicator/block_fragment_generator.h\<close> and
  \<^verbatim>\<open>src/peer/replicator/block_fragment_generator.cpp\<close>, with the erasure code of
  \<^verbatim>\<open>include/common/erasure_code.h\<close> (\<^verbatim>\<open>GoErasureCode\<close>). The library behind the erasure code is a parameter,
  as are SHA-256, the hash of two digests and the archives. A sibling of a proof is a pointer
  into a cache in the code and the digest itself here.
\<close>

section \<open>The erasure code\<close>

text \<open>
  \<open>grc_encode\<close> stands for \<^verbatim>\<open>encodeFirst\<close> and \<^verbatim>\<open>encodeNext\<close>, which yield the shards; \<open>grc_decode\<close> gets a pointer
  or null for every shard, the length of a shard and the length of the data.
\<close>

record grc =
  grc_encode :: "string \<Rightarrow> string list option"
  grc_decode :: "string option list \<Rightarrow> nat \<Rightarrow> int \<Rightarrow> string option"

definition fragment_length :: "string list \<Rightarrow> nat" where
  "fragment_length fragmentList = (case filter (\<lambda>f. f \<noteq> []) fragmentList of [] \<Rightarrow> 0 | f # fs \<Rightarrow> length f)"

definition decodeWithBuffer :: "grc \<Rightarrow> bfg_config \<Rightarrow> string list \<Rightarrow> int \<Rightarrow> int \<Rightarrow> string option" where
  "decodeWithBuffer g cfg fragmentList dataLen bufSize =
     (if int (length fragmentList) \<noteq> parityShardCnt cfg + dataShardCnt cfg then None
      else if bufSize < dataLen then None
      else grc_decode g (map (\<lambda>f. if f \<noteq> [] then Some f else None) fragmentList) (fragment_length fragmentList) dataLen)"

section \<open>The context\<close>

datatype context_error = Throws | Undefined

record DecodeStorage =
  cacheGuard :: bool
  ds_cache :: "string list"
  mtProofs :: "string mproof list"
  encodeFragment :: "string list"

record fragment_context =
  ecConfig :: bfg_config
  fragmentCnt :: int
  ecEncodeResult :: "string list"
  ctx_mt :: "string merkle option"
  decodeStorageList :: "DecodeStorage list"

definition fresh_storage :: DecodeStorage where
  "fresh_storage = \<lparr>cacheGuard = False, ds_cache = [], mtProofs = [], encodeFragment = []\<rparr>"

definition new_context :: "bfg_config \<Rightarrow> fragment_context" where
  "new_context cfg =
     \<lparr>ecConfig = cfg, fragmentCnt = dataShardCnt cfg + parityShardCnt cfg, ecEncodeResult = [], ctx_mt = None,
      decodeStorageList = replicate (nat (dataShardCnt cfg + parityShardCnt cfg)) fresh_storage\<rparr>"

section \<open>Encoding\<close>

definition piece_length :: "nat \<Rightarrow> nat \<Rightarrow> nat" where
  "piece_length len n = (if len mod n \<noteq> 0 then len div n + 1 else len div n)"

text \<open>\<^verbatim>\<open>substr\<close> throws when the position is behind the end.\<close>

definition substr :: "string \<Rightarrow> nat \<Rightarrow> nat \<Rightarrow> string option" where
  "substr s pos n = (if pos > length s then None else Some (take n (drop pos s)))"

definition encode_task :: "grc \<Rightarrow> nat \<Rightarrow> nat \<Rightarrow> nat \<Rightarrow> string \<Rightarrow> bool \<times> string list \<Rightarrow> bool \<times> string list" where
  "encode_task g instances cnt idx msgView = (\<lambda>(success, result).
     case grc_encode g msgView of
       None \<Rightarrow> (False, result)
     | Some ret \<Rightarrow> (success, fold (\<lambda>j r. r[j * instances + idx := ret ! j]) [0..<cnt] result))"

fun encode_tasks :: "grc \<Rightarrow> nat \<Rightarrow> nat \<Rightarrow> nat \<Rightarrow> string \<Rightarrow> nat list \<Rightarrow> bool \<times> string list \<Rightarrow> (bool \<times> string list) option" where
  "encode_tasks g instances cnt len message [] s = Some s"
| "encode_tasks g instances cnt len message (idx # is) s =
     (case substr message (idx * len) ((idx + 1) * len) of
        None \<Rightarrow> None
      | Some msgView \<Rightarrow> encode_tasks g instances cnt len message is (encode_task g instances cnt idx msgView s))"

definition fragment_tree_config :: merkle_config where
  "fragment_tree_config = \<lparr>NumRoutines = 0, Mode = ModeProofGenAndTreeBuild, RunInParallel = True, LeafGenParallel = True\<rparr>"

definition initWithMessage ::
  "string \<Rightarrow> (string \<Rightarrow> string \<Rightarrow> string) \<Rightarrow> (string \<Rightarrow> string option) \<Rightarrow> grc \<Rightarrow> string \<Rightarrow> fragment_context \<Rightarrow>
   context_error + (bool \<times> fragment_context)" where
  "initWithMessage zero hash sha256 g message ctx =
     (if ctx_mt ctx \<noteq> None then Inr (False, ctx)
      else let instances = nat (instanceCount (ecConfig ctx));
               cnt = nat (fragmentCnt ctx);
               len = piece_length (length message) instances
           in case encode_tasks g instances cnt len message [0..<instances] (True, replicate (instances * cnt) []) of
                None \<Rightarrow> Inl Throws
              | Some (False, result) \<Rightarrow> Inr (False, ctx\<lparr>ecEncodeResult := result\<rparr>)
              | Some (True, result) \<Rightarrow>
                  (case New zero hash sha256 fragment_tree_config None result of
                     None \<Rightarrow> Inr (False, ctx\<lparr>ecEncodeResult := result\<rparr>)
                   | Some mt \<Rightarrow> Inr (True, ctx\<lparr>ecEncodeResult := result, ctx_mt := Some mt\<rparr>)))"

section \<open>Serializing fragments\<close>

text \<open>The number of siblings to write: from the last one down, those that the previous proof has are left out.\<close>

fun last_diff :: "string list \<Rightarrow> string list \<Rightarrow> nat \<Rightarrow> nat" where
  "last_diff previous current 0 = 0"
| "last_diff previous current (Suc lastIndex) =
     (if previous ! lastIndex = current ! lastIndex then last_diff previous current lastIndex else Suc lastIndex)"

definition written_siblings :: "string mproof list \<Rightarrow> nat \<Rightarrow> nat \<Rightarrow> nat \<Rightarrow> nat" where
  "written_siblings proofs depth first i =
     (if i \<noteq> first then last_diff (Siblings (proofs ! (i - 1))) (Siblings (proofs ! i)) depth else depth)"

definition out_fragment ::
  "prims \<Rightarrow> string mproof list \<Rightarrow> string list \<Rightarrow> nat \<Rightarrow> nat \<Rightarrow> nat \<Rightarrow> string \<Rightarrow> nat \<Rightarrow> (string \<times> nat) option" where
  "out_fragment z proofs result depth first i buf pos =
     (let n = written_siblings proofs depth first i
      in do { (buf, pos) \<leftarrow> out_of (seq_codec (c_u32 z) (c_i64 z)) (Path (proofs ! i), int n) buf pos;
              (buf, pos) \<leftarrow> out_siblings z (take n (Siblings (proofs ! i))) buf pos;
              out_of (c_string z) (result ! i) buf pos })"

fun out_fragments ::
  "prims \<Rightarrow> string mproof list \<Rightarrow> string list \<Rightarrow> nat \<Rightarrow> nat \<Rightarrow> nat list \<Rightarrow> string \<Rightarrow> nat \<Rightarrow> (string \<times> nat) option" where
  "out_fragments z proofs result depth first [] buf pos = Some (buf, pos)"
| "out_fragments z proofs result depth first (i # is) buf pos =
     do { (buf, pos) \<leftarrow> out_fragment z proofs result depth first i buf pos;
          out_fragments z proofs result depth first is buf pos }"

text \<open>\<^verbatim>\<open>serializeFragments\<close>; \<^verbatim>\<open>defaultHashLen\<close> is 32 and an \<^verbatim>\<open>int\<close> has four bytes.\<close>

definition reserve_size :: "string list \<Rightarrow> nat \<Rightarrow> nat list \<Rightarrow> nat \<Rightarrow> nat" where
  "reserve_size result depth is offset =
     4 + length is * (depth * 32 + 4) + sum_list (map (\<lambda>i. length (result ! i) + 4 * 10) is) + offset"

definition enlarge :: "string \<Rightarrow> nat \<Rightarrow> string" where
  "enlarge buf n = buf @ replicate (n - length buf) (CHR 0x00)"

definition serializeFragments ::
  "prims \<Rightarrow> fragment_context \<Rightarrow> int \<Rightarrow> int \<Rightarrow> string \<Rightarrow> nat \<Rightarrow> context_error + (bool \<times> string)" where
  "serializeFragments z ctx start stop buf offset =
     (case ctx_mt ctx of
        None \<Rightarrow> Inl Undefined
      | Some mt \<Rightarrow>
          if start < 0 \<or> start \<ge> stop \<or> stop > fragmentCnt ctx then Inr (False, buf)
          else if ecEncodeResult ctx = [] then Inr (False, buf)
          else let instances = nat (instanceCount (ecConfig ctx));
                   depth = length (Siblings (Proofs mt ! nat start));
                   first = nat start * instances;
                   is = [first..<nat stop * instances];
                   buf = enlarge buf (reserve_size (ecEncodeResult ctx) depth is offset)
               in case do { (buf, pos) \<leftarrow> out_of (c_i64 z) (int depth) buf offset;
                            out_fragments z (Proofs mt) (ecEncodeResult ctx) depth first is buf pos } of
                    None \<Rightarrow> Inl Throws
                  | Some (buf, pos) \<Rightarrow> Inr (True, take pos buf))"

section \<open>Reading fragments\<close>

text \<open>
  Reading \<open>n\<close> digests into \<open>cache[j]\<close> and the following elements. An index behind the end of the
  cache is undefined behaviour, a failed read throws.
\<close>

fun read_hashes :: "prims \<Rightarrow> string \<Rightarrow> nat \<Rightarrow> nat \<Rightarrow> nat \<Rightarrow> string list \<Rightarrow> context_error + (string list \<times> nat)" where
  "read_hashes z raw 0 j pos cache = Inr (cache, pos)"
| "read_hashes z raw (Suc n) j pos cache =
     (if j \<ge> length cache then Inl Undefined
      else case in_of (c_hash z) raw pos of
             None \<Rightarrow> Inl Throws
           | Some (h, pos) \<Rightarrow> read_hashes z raw n (Suc j) pos (cache[j := h]))"

text \<open>What is read of a fragment that another message has brought: its digests go into the cache.\<close>

definition skip_instance :: "prims \<Rightarrow> string \<Rightarrow> string list \<Rightarrow> nat \<Rightarrow> context_error + (string list \<times> nat)" where
  "skip_instance z raw cacheWhenGuard pos =
     (case in_of (c_i64 z) raw (pos + 4) of
        None \<Rightarrow> Inl Throws
      | Some (currentProofSize, pos) \<Rightarrow>
          case read_hashes z raw (nat currentProofSize) 0 pos cacheWhenGuard of
            Inl e \<Rightarrow> Inl e
          | Inr (cacheWhenGuard, pos) \<Rightarrow>
              case in_of (c_string z) raw pos of None \<Rightarrow> Inl Throws | Some (fragment, pos) \<Rightarrow> Inr (cacheWhenGuard, pos))"

fun skip_instances :: "prims \<Rightarrow> string \<Rightarrow> nat \<Rightarrow> string list \<Rightarrow> nat \<Rightarrow> context_error + (string list \<times> nat)" where
  "skip_instances z raw 0 cacheWhenGuard pos = Inr (cacheWhenGuard, pos)"
| "skip_instances z raw (Suc n) cacheWhenGuard pos =
     (case skip_instance z raw cacheWhenGuard pos of
        Inl e \<Rightarrow> Inl e
      | Inr (cacheWhenGuard, pos) \<Rightarrow> skip_instances z raw n cacheWhenGuard pos)"

definition copy_previous :: "string mproof option \<Rightarrow> string list \<Rightarrow> context_error + string list" where
  "copy_previous previousProof cacheWhenGuard =
     (case previousProof of
        None \<Rightarrow> Inr cacheWhenGuard
      | Some p \<Rightarrow>
          if length (Siblings p) < length cacheWhenGuard then Inl Undefined
          else Inr (take (length cacheWhenGuard) (Siblings p)))"

text \<open>The siblings of a proof after guarded fragments: the rest comes from the cache of digests.\<close>

definition siblings_after_guard ::
  "prims \<Rightarrow> string \<Rightarrow> nat \<Rightarrow> string list \<Rightarrow> string list \<Rightarrow> int \<Rightarrow> nat \<Rightarrow> context_error + (string list \<times> string list \<times> nat)" where
  "siblings_after_guard z raw depth cacheWhenGuard cache n pos =
     (let cache = take depth cache @ replicate (depth - length cache) []
      in case read_hashes z raw (nat n) 0 pos cache of
           Inl e \<Rightarrow> Inl e
         | Inr (cache, pos) \<Rightarrow>
             if n < 0 then Inl Undefined
             else let cache = take (nat n) cache @ drop (nat n) cacheWhenGuard in Inr (cache, cache, pos))"

text \<open>
  Otherwise the rest comes from the previous proof. A size that makes the new length of the cache
  negative is beyond the largest vector and throws; one that moves or shrinks a cache which
  proofs point into leaves them dangling.
\<close>

definition siblings_after_previous ::
  "prims \<Rightarrow> string \<Rightarrow> nat \<Rightarrow> nat \<Rightarrow> string mproof option \<Rightarrow> string list \<Rightarrow> int \<Rightarrow> nat \<Rightarrow>
   context_error + (string list \<times> string list \<times> nat)" where
  "siblings_after_previous z raw instances depth previousProof cache n pos =
     (let originalSize = length cache
      in if int originalSize + n < 0 then Inl Throws
         else if originalSize > 0 \<and> (n < 0 \<or> int originalSize + n > int (instances * depth)) then Inl Undefined
         else case read_hashes z raw (nat n) originalSize pos (cache @ replicate (nat n) []) of
                Inl e \<Rightarrow> Inl e
              | Inr (cache, pos) \<Rightarrow>
                  case previousProof of
                    None \<Rightarrow> Inr (cache, drop originalSize cache, pos)
                  | Some p \<Rightarrow>
                      if nat n < depth \<and> length (Siblings p) < depth then Inl Undefined
                      else Inr (cache, drop originalSize cache @ drop (nat n) (take depth (Siblings p)), pos))"

record load_state =
  ls_previous :: "string mproof option"
  ls_cache :: "string list"
  ls_flag :: bool
  ls_pos :: nat

definition load_instance ::
  "prims \<Rightarrow> (string \<Rightarrow> string \<Rightarrow> string) \<Rightarrow> (string \<Rightarrow> string option) \<Rightarrow> string \<Rightarrow> string \<Rightarrow> nat \<Rightarrow> nat \<Rightarrow> nat \<Rightarrow>
   DecodeStorage \<Rightarrow> load_state \<Rightarrow> context_error + (bool \<times> DecodeStorage \<times> load_state)" where
  "load_instance z hash sha256 root raw instances depth offset ds s =
     (case in_of (seq_codec (c_u32 z) (c_i64 z)) raw (ls_pos s) of
        None \<Rightarrow> Inl Throws
      | Some ((path, currentProofSize), pos) \<Rightarrow>
          case (if ls_flag s then siblings_after_guard z raw depth (ls_cache s) (ds_cache ds) currentProofSize pos
                else siblings_after_previous z raw instances depth (ls_previous s) (ds_cache ds) currentProofSize pos) of
            Inl e \<Rightarrow> Inl e
          | Inr (cache, siblings, pos) \<Rightarrow>
              let currentProof = \<lparr>Siblings = siblings, Path = path\<rparr>;
                  ds = ds\<lparr>ds_cache := cache, mtProofs := (mtProofs ds)[offset := currentProof]\<rparr>
              in case in_of (c_string z) raw pos of
                   None \<Rightarrow> Inl Throws
                 | Some (fragment, pos) \<Rightarrow>
                     let s = s\<lparr>ls_previous := Some currentProof, ls_flag := False, ls_pos := pos\<rparr>
                     in if Verify hash sha256 fragment currentProof root = Some True
                        then Inr (True, ds\<lparr>encodeFragment := (encodeFragment ds)[offset := fragment]\<rparr>, s)
                        else Inr (False, ds, s))"

fun load_instances ::
  "prims \<Rightarrow> (string \<Rightarrow> string \<Rightarrow> string) \<Rightarrow> (string \<Rightarrow> string option) \<Rightarrow> string \<Rightarrow> string \<Rightarrow> nat \<Rightarrow> nat \<Rightarrow> nat list \<Rightarrow>
   DecodeStorage \<Rightarrow> load_state \<Rightarrow> context_error + (bool \<times> DecodeStorage \<times> load_state)" where
  "load_instances z hash sha256 root raw instances depth [] ds s = Inr (True, ds, s)"
| "load_instances z hash sha256 root raw instances depth (offset # os) ds s =
     (case load_instance z hash sha256 root raw instances depth offset ds s of
        Inl e \<Rightarrow> Inl e
      | Inr (False, ds, s) \<Rightarrow> Inr (False, ds, s)
      | Inr (True, ds, s) \<Rightarrow> load_instances z hash sha256 root raw instances depth os ds s)"

definition begin_storage :: "nat \<Rightarrow> DecodeStorage \<Rightarrow> DecodeStorage" where
  "begin_storage instances ds =
     ds\<lparr>cacheGuard := True,
        mtProofs := take instances (mtProofs ds) @ replicate (instances - length (mtProofs ds)) \<lparr>Siblings = [], Path = 0\<rparr>,
        encodeFragment := take instances (encodeFragment ds) @ replicate (instances - length (encodeFragment ds)) []\<rparr>"

fun load_fragments ::
  "prims \<Rightarrow> (string \<Rightarrow> string \<Rightarrow> string) \<Rightarrow> (string \<Rightarrow> string option) \<Rightarrow> string \<Rightarrow> string \<Rightarrow> nat \<Rightarrow> nat \<Rightarrow> nat list \<Rightarrow>
   DecodeStorage list \<Rightarrow> load_state \<Rightarrow> context_error + (bool \<times> DecodeStorage list)" where
  "load_fragments z hash sha256 root raw instances depth [] dsl s = Inr (True, dsl)"
| "load_fragments z hash sha256 root raw instances depth (i # is) dsl s =
     (if cacheGuard (dsl ! i)
      then case copy_previous (ls_previous s) (ls_cache s) of
             Inl e \<Rightarrow> Inl e
           | Inr cacheWhenGuard \<Rightarrow>
               case skip_instances z raw instances cacheWhenGuard (ls_pos s) of
                 Inl e \<Rightarrow> Inl e
               | Inr (cacheWhenGuard, pos) \<Rightarrow>
                   load_fragments z hash sha256 root raw instances depth is dsl
                     (s\<lparr>ls_cache := cacheWhenGuard, ls_flag := True, ls_pos := pos\<rparr>)
      else case load_instances z hash sha256 root raw instances depth [0..<instances] (begin_storage instances (dsl ! i)) s of
             Inl e \<Rightarrow> Inl e
           | Inr (False, ds, s) \<Rightarrow> Inr (False, dsl[i := ds])
           | Inr (True, ds, s) \<Rightarrow> load_fragments z hash sha256 root raw instances depth is (dsl[i := ds]) s)"

definition validateAndDeserializeFragments ::
  "prims \<Rightarrow> (string \<Rightarrow> string \<Rightarrow> string) \<Rightarrow> (string \<Rightarrow> string option) \<Rightarrow> string \<Rightarrow> string \<Rightarrow> int \<Rightarrow> int \<Rightarrow> fragment_context \<Rightarrow>
   context_error + (bool \<times> fragment_context)" where
  "validateAndDeserializeFragments z hash sha256 root raw start stop ctx =
     (if start < 0 \<or> start \<ge> stop \<or> stop > fragmentCnt ctx then Inr (False, ctx)
      else case in_of (c_i64 z) raw 0 of
             None \<Rightarrow> Inl Throws
           | Some (depth, pos) \<Rightarrow>
               if depth < 0 then Inl Throws
               else case load_fragments z hash sha256 root raw (nat (instanceCount (ecConfig ctx))) (nat depth)
                           [nat start..<nat stop] (decodeStorageList ctx)
                           \<lparr>ls_previous = None, ls_cache = replicate (nat depth) [], ls_flag = False, ls_pos = pos\<rparr> of
                      Inl e \<Rightarrow> Inl e
                    | Inr (ok, dsl) \<Rightarrow> Inr (ok, ctx\<lparr>decodeStorageList := dsl\<rparr>))"

section \<open>Putting the message together\<close>

definition partial_view :: "DecodeStorage list \<Rightarrow> nat \<Rightarrow> string list" where
  "partial_view dsl i = map (\<lambda>ds. if length (encodeFragment ds) > i then encodeFragment ds ! i else []) dsl"

definition write_at :: "string \<Rightarrow> nat \<Rightarrow> string \<Rightarrow> string" where
  "write_at buf p s = take p buf @ s @ drop (p + length s) buf"

fun decode_tasks ::
  "grc \<Rightarrow> fragment_context \<Rightarrow> int \<Rightarrow> nat list \<Rightarrow> bool \<times> string \<Rightarrow> context_error + (bool \<times> string)" where
  "decode_tasks g ctx fragmentLen [] s = Inr s"
| "decode_tasks g ctx fragmentLen (i # is) (success, buf) =
     (let dataSize = (if int i = instanceCount (ecConfig ctx) - 1 then int (length buf) - int i * fragmentLen else fragmentLen);
          p = int i * fragmentLen
      in if p < 0 \<or> p + dataSize > int (length buf) then Inl Undefined
         else case decodeWithBuffer g (ecConfig ctx) (partial_view (decodeStorageList ctx) i) dataSize dataSize of
                None \<Rightarrow> decode_tasks g ctx fragmentLen is (False, buf)
              | Some s \<Rightarrow> decode_tasks g ctx fragmentLen is (success, write_at buf (nat p) s))"

definition regenerateMessage :: "grc \<Rightarrow> fragment_context \<Rightarrow> int \<Rightarrow> string \<Rightarrow> context_error + (bool \<times> string)" where
  "regenerateMessage g ctx actualMessageSize bufferOut =
     (let n = instanceCount (ecConfig ctx);
          fragmentLen = (if actualMessageSize smod n \<noteq> 0 then actualMessageSize sdiv n + 1 else actualMessageSize sdiv n);
          bufferOut = enlarge bufferOut (nat actualMessageSize)
      in decode_tasks g ctx fragmentLen [0..<nat n] (True, bufferOut))"

end
