(* ===== verification/FragmentCorrect.thy ===== *)
theory FragmentCorrect
  imports FragmentContext
begin

text \<open>
  What a receiver reads of serialized fragments: the fragments that were serialized, with their
  whole proofs, and the message once there are enough of them. The message of a sender carries
  them behind other fields, so the archives must not depend on the absolute position.
\<close>

section \<open>Writing and reading\<close>

text \<open>A writer and what a reader finds in the bytes it wrote.\<close>

definition writes :: "(string \<Rightarrow> nat \<Rightarrow> (string \<times> nat) option) \<Rightarrow> (string \<Rightarrow> nat \<Rightarrow> nat \<Rightarrow> bool) \<Rightarrow> bool" where
  "writes w r \<longleftrightarrow>
     (\<forall>buf pos buf' pos'. pos \<le> length buf \<longrightarrow> w buf pos = Some (buf', pos') \<longrightarrow>
        wrote buf pos buf' pos' \<and> (\<forall>b. agree b buf' pos pos' \<longrightarrow> r b pos pos'))"

lemma writesD:
  assumes "writes w r" and "w buf pos = Some (buf', pos')" and "pos \<le> length buf"
  shows "wrote buf pos buf' pos'" "agree b buf' pos pos' \<Longrightarrow> r b pos pos'"
  using assms unfolding writes_def by blast+

lemma writes_codec: "codec_ok c \<Longrightarrow> writes (out_of c x) (\<lambda>b p p'. in_of c b p = Some (x, p'))"
  unfolding writes_def codec_ok_def by blast

lemma writes_none: "writes (\<lambda>buf pos. Some (buf, pos)) (\<lambda>b p p'. p = p')"
  by (simp add: writes_def wrote_def)

lemma writes_seq:
  assumes w1: "writes w1 r1" and w2: "writes w2 r2"
  shows "writes (\<lambda>buf pos. do { (buf, pos) \<leftarrow> w1 buf pos; w2 buf pos }) (\<lambda>b p p'. \<exists>q. r1 b p q \<and> r2 b q p')"
  unfolding writes_def
proof (intro allI impI)
  fix buf pos buf' pos'
  assume pos: "pos \<le> length buf" and "do { (buf, pos) \<leftarrow> w1 buf pos; w2 buf pos } = Some (buf', pos')"
  then obtain b1 p1 where o1: "w1 buf pos = Some (b1, p1)" and o2: "w2 b1 p1 = Some (buf', pos')"
    by (auto simp: bind_eq_Some_conv)
  note a = writesD(1)[OF w1 o1 pos]
  then have p1: "p1 \<le> length b1" by (simp add: wrote_def)
  note c = writesD(1)[OF w2 o2 p1]
  have "r1 b pos p1 \<and> r2 b p1 pos'" if "agree b buf' pos pos'" for b
  proof -
    have "agree b1 buf' pos p1" using wrote_before[OF c _ order_refl p1] a by (simp add: wrote_def)
    then have "agree b b1 pos p1"
      using agree_sub[OF that order_refl, of p1] a c by (auto simp: wrote_def intro: agree_trans agree_sym)
    moreover have "agree b buf' p1 pos'" using agree_sub[OF that, of p1 pos'] a c by (simp add: wrote_def)
    ultimately show ?thesis using writesD(2)[OF w1 o1 pos] writesD(2)[OF w2 o2 p1] by blast
  qed
  then show "wrote buf pos buf' pos' \<and> (\<forall>b. agree b buf' pos pos' \<longrightarrow> (\<exists>q. r1 b pos q \<and> r2 b q pos'))"
    using wrote_trans[OF a c] by blast
qed

fun hash_reads :: "prims \<Rightarrow> string \<Rightarrow> string list \<Rightarrow> nat \<Rightarrow> nat \<Rightarrow> bool" where
  "hash_reads z b [] p p' \<longleftrightarrow> p = p'"
| "hash_reads z b (h # hs) p p' \<longleftrightarrow> (\<exists>q. in_of (c_hash z) b p = Some (h, q) \<and> hash_reads z b hs q p')"

definition frag_read :: "prims \<Rightarrow> string mproof list \<Rightarrow> string list \<Rightarrow> nat \<Rightarrow> nat \<Rightarrow> nat \<Rightarrow> string \<Rightarrow> nat \<Rightarrow> nat \<Rightarrow> bool" where
  "frag_read z ps res d first i b p p' \<longleftrightarrow>
     (\<exists>q. in_of (seq_codec (c_u32 z) (c_i64 z)) b p = Some ((Path (ps ! i), int (written_siblings ps d first i)), q) \<and>
        (\<exists>r. hash_reads z b (take (written_siblings ps d first i) (Siblings (ps ! i))) q r \<and>
           in_of (c_string z) b r = Some (res ! i, p')))"

fun frag_reads :: "prims \<Rightarrow> string mproof list \<Rightarrow> string list \<Rightarrow> nat \<Rightarrow> nat \<Rightarrow> nat list \<Rightarrow> string \<Rightarrow> nat \<Rightarrow> nat \<Rightarrow> bool" where
  "frag_reads z ps res d first [] b p p' \<longleftrightarrow> p = p'"
| "frag_reads z ps res d first (i # is) b p p' \<longleftrightarrow>
     (\<exists>q. frag_read z ps res d first i b p q \<and> frag_reads z ps res d first is b q p')"

lemma writes_siblings:
  assumes "codec_ok (c_hash z)"
  shows "writes (out_siblings z hs) (\<lambda>b. hash_reads z b hs)"
proof (induction hs)
  case Nil
  show ?case by (simp add: writes_def wrote_def)
next
  case (Cons h hs)
  have "out_siblings z (h # hs) = (\<lambda>buf pos. do { (buf, pos) \<leftarrow> out_of (c_hash z) h buf pos; out_siblings z hs buf pos })"
    by (simp add: fun_eq_iff)
  then show ?case using writes_seq[OF writes_codec[OF assms, of h] Cons.IH] by simp
qed

lemma writes_fragment:
  assumes "prims_ok z"
  shows "writes (out_fragment z ps res d first i) (frag_read z ps res d first i)"
proof -
  have c: "codec_ok (seq_codec (c_u32 z) (c_i64 z))" "codec_ok (c_hash z)" "codec_ok (c_string z)"
    using assms by (auto simp: prims_ok_def intro: seq_codec_ok)
  let ?n = "written_siblings ps d first i"
  show ?thesis
    using writes_seq[OF writes_codec[OF c(1), of "(Path (ps ! i), int ?n)"]
        writes_seq[OF writes_siblings[OF c(2), of "take ?n (Siblings (ps ! i))"] writes_codec[OF c(3), of "res ! i"]]]
    unfolding out_fragment_def[abs_def] frag_read_def[abs_def] Let_def .
qed

lemma writes_fragments:
  assumes "prims_ok z"
  shows "writes (out_fragments z ps res d first is) (frag_reads z ps res d first is)"
proof (induction "is")
  case Nil
  show ?case by (simp add: writes_def wrote_def)
next
  case (Cons i "is")
  have "out_fragments z ps res d first (i # is) =
      (\<lambda>buf pos. do { (buf, pos) \<leftarrow> out_fragment z ps res d first i buf pos; out_fragments z ps res d first is buf pos })"
    and "frag_reads z ps res d first (i # is) =
      (\<lambda>b p p'. \<exists>q. frag_read z ps res d first i b p q \<and> frag_reads z ps res d first is b q p')"
    by (simp_all add: fun_eq_iff)
  then show ?case using writes_seq[OF writes_fragment[OF assms] Cons.IH] by simp
qed

section \<open>Positions\<close>

text \<open>An archive over the rest of a buffer reads what an archive over the whole buffer reads there.\<close>

definition relocatable :: "'a codec \<Rightarrow> bool" where
  "relocatable c \<longleftrightarrow>
     (\<forall>k b p x q. k \<le> length b \<longrightarrow> in_of c b (k + p) = Some (x, q) \<longrightarrow> (\<exists>p'. q = k + p' \<and> in_of c (drop k b) p = Some (x, p')))"

definition prims_relocatable :: "prims \<Rightarrow> bool" where
  "prims_relocatable z \<longleftrightarrow> relocatable (c_u32 z) \<and> relocatable (c_i64 z) \<and> relocatable (c_hash z) \<and> relocatable (c_string z)"

lemma relocatableD:
  assumes "relocatable c" and "in_of c b (k + p) = Some (x, q)" and "k \<le> length b"
  shows "\<exists>p'. q = k + p' \<and> in_of c (drop k b) p = Some (x, p')"
  using assms unfolding relocatable_def by blast

lemma seq_relocatable:
  assumes "relocatable c" and "relocatable d"
  shows "relocatable (seq_codec c d)"
  unfolding relocatable_def
proof (intro allI impI)
  fix k b p xy q
  assume k: "k \<le> length b" and "in_of (seq_codec c d) b (k + p) = Some (xy, q)"
  then obtain x y r where xy: "xy = (x, y)" and 1: "in_of c b (k + p) = Some (x, r)" and 2: "in_of d b r = Some (y, q)"
    by (auto simp: seq_codec_def bind_eq_Some_conv)
  from relocatableD[OF assms(1) 1 k] obtain r' where r': "r = k + r'" "in_of c (drop k b) p = Some (x, r')" by blast
  from relocatableD[OF assms(2) 2[unfolded r'(1)] k] obtain q' where "q = k + q'" "in_of d (drop k b) r' = Some (y, q')" by blast
  then show "\<exists>p'. q = k + p' \<and> in_of (seq_codec c d) (drop k b) p = Some (xy, p')"
    by (simp add: seq_codec_def xy r'(2))
qed

lemma hash_reads_drop:
  assumes "relocatable (c_hash z)" and "hash_reads z b hs (k + p) q" and "k \<le> length b"
  shows "\<exists>p'. q = k + p' \<and> hash_reads z (drop k b) hs p p'"
  using assms(2)
proof (induction hs arbitrary: p)
  case Nil
  then show ?case by simp
next
  case (Cons h hs)
  then obtain r where 1: "in_of (c_hash z) b (k + p) = Some (h, r)" and 2: "hash_reads z b hs r q" by auto
  from relocatableD[OF assms(1) 1 assms(3)] obtain r' where r': "r = k + r'" "in_of (c_hash z) (drop k b) p = Some (h, r')" by blast
  from Cons.IH[OF 2[unfolded r'(1)]] show ?case using r'(2) by auto
qed

lemma frag_read_drop:
  assumes z: "prims_relocatable z" and r: "frag_read z ps res d first i b (k + p) q" and k: "k \<le> length b"
  shows "\<exists>p'. q = k + p' \<and> frag_read z ps res d first i (drop k b) p p'"
proof -
  have c: "relocatable (seq_codec (c_u32 z) (c_i64 z))" "relocatable (c_hash z)" "relocatable (c_string z)"
    using z by (auto simp: prims_relocatable_def intro: seq_relocatable)
  let ?n = "written_siblings ps d first i"
  from r obtain p1 p2 where
    1: "in_of (seq_codec (c_u32 z) (c_i64 z)) b (k + p) = Some ((Path (ps ! i), int ?n), p1)" and
    2: "hash_reads z b (take ?n (Siblings (ps ! i))) p1 p2" and 3: "in_of (c_string z) b p2 = Some (res ! i, q)"
    unfolding frag_read_def by blast
  from relocatableD[OF c(1) 1 k] obtain q1 where
    q1: "p1 = k + q1" "in_of (seq_codec (c_u32 z) (c_i64 z)) (drop k b) p = Some ((Path (ps ! i), int ?n), q1)" by blast
  from hash_reads_drop[OF c(2) 2[unfolded q1(1)] k] obtain q2 where
    q2: "p2 = k + q2" "hash_reads z (drop k b) (take ?n (Siblings (ps ! i))) q1 q2" by blast
  from relocatableD[OF c(3) 3[unfolded q2(1)] k] obtain q3 where
    "q = k + q3" "in_of (c_string z) (drop k b) q2 = Some (res ! i, q3)" by blast
  then show ?thesis using q1(2) q2(2) unfolding frag_read_def by blast
qed

lemma frag_reads_drop:
  assumes "prims_relocatable z" and "frag_reads z ps res d first is b (k + p) q" and "k \<le> length b"
  shows "\<exists>p'. q = k + p' \<and> frag_reads z ps res d first is (drop k b) p p'"
  using assms(2)
proof (induction "is" arbitrary: p)
  case Nil
  then show ?case by simp
next
  case (Cons i "is")
  then obtain r where 1: "frag_read z ps res d first i b (k + p) r" and 2: "frag_reads z ps res d first is b r q" by auto
  from frag_read_drop[OF assms(1) 1 assms(3)] obtain r' where r': "r = k + r'" "frag_read z ps res d first i (drop k b) p r'" by blast
  from Cons.IH[OF 2[unfolded r'(1)]] show ?case using r'(2) by auto
qed

section \<open>Loading\<close>

lemma read_hashes_reads:
  assumes "hash_reads z b hs p p'" and "j + length hs \<le> length cache"
  shows "read_hashes z b (length hs) j p cache = Inr (take j cache @ hs @ drop (j + length hs) cache, p')"
  using assms
proof (induction hs arbitrary: j p cache)
  case Nil
  then show ?case by simp
next
  case (Cons h hs)
  then obtain q where q: "in_of (c_hash z) b p = Some (h, q)" "hash_reads z b hs q p'" by auto
  have j: "j < length cache" using Cons.prems(2) by simp
  have "read_hashes z b (length (h # hs)) j p cache = read_hashes z b (length hs) (Suc j) q (cache[j := h])"
    using q(1) j by simp
  also have "\<dots> = Inr (take (Suc j) (cache[j := h]) @ hs @ drop (Suc j + length hs) (cache[j := h]), p')"
    using Cons.prems(2) by (intro Cons.IH[OF q(2)]) simp
  also have "take (Suc j) (cache[j := h]) = take j cache @ [h]" using j by (simp add: take_Suc_conv_app_nth)
  finally show ?case by simp
qed

lemma last_diff_suffix:
  assumes "length cur = d" and "length prev = d"
  shows "last_diff prev cur n \<le> n \<and> (n \<le> d \<longrightarrow> take (last_diff prev cur n) cur @ drop (last_diff prev cur n) (take n prev) = take n cur)"
proof (induction n)
  case (Suc n)
  then show ?case
    using assms by (auto simp: take_Suc_conv_app_nth)
qed simp

text \<open>Reading one fragment restores its whole proof.\<close>

lemma load_instance_reads:
  assumes rd: "frag_read z ps res d first i b (ls_pos s) p'" and fl: "\<not> ls_flag s"
    and prev: "ls_previous s = (if i = first then None else Some (ps ! (i - 1)))"
    and len: "length (Siblings (ps ! i)) = d" "i \<noteq> first \<Longrightarrow> length (Siblings (ps ! (i - 1))) = d"
    and cache: "length (ds_cache ds) \<le> off * d" and off: "off < n"
    and ver: "Verify hash sha256 (res ! i) (ps ! i) root = Some True"
  shows "\<exists>cache. length cache \<le> Suc off * d \<and>
    load_instance z hash sha256 root b n d off ds s =
      Inr (True, ds\<lparr>ds_cache := cache, mtProofs := (mtProofs ds)[off := ps ! i], encodeFragment := (encodeFragment ds)[off := res ! i]\<rparr>,
        s\<lparr>ls_previous := Some (ps ! i), ls_flag := False, ls_pos := p'\<rparr>)"
proof -
  let ?m = "written_siblings ps d first i" and ?c = "ds_cache ds" and ?sib = "Siblings (ps ! i)"
  let ?hs = "take ?m ?sib"
  have m: "?m \<le> d" "i \<noteq> first \<Longrightarrow> ?hs @ drop ?m (take d (Siblings (ps ! (i - 1)))) = ?sib" "i = first \<Longrightarrow> ?hs = ?sib"
    using last_diff_suffix[OF len(1) len(2), of d] len by (auto simp: written_siblings_def)
  then have lh: "length ?hs = ?m" using len(1) by simp
  obtain p1 p2 where 1: "in_of (seq_codec (c_u32 z) (c_i64 z)) b (ls_pos s) = Some ((Path (ps ! i), int ?m), p1)"
    and 2: "hash_reads z b ?hs p1 p2" and 3: "in_of (c_string z) b p2 = Some (res ! i, p')"
    using rd unfolding frag_read_def by blast
  let ?new = "?c @ ?hs"
  have "read_hashes z b ?m (length ?c) p1 (?c @ replicate ?m []) = Inr (?new, p2)"
    using read_hashes_reads[OF 2, of "length ?c" "?c @ replicate ?m []"] lh by simp
  moreover have "length ?c + ?m \<le> n * d"
  proof -
    have "Suc off * d \<le> n * d" using off by (intro mult_right_mono) auto
    then show ?thesis using cache m(1) by simp
  qed
  then have cap: "\<not> (length ?c > 0 \<and> (int ?m < 0 \<or> int (length ?c) + int ?m > int (n * d)))" by linarith
  ultimately have sib: "siblings_after_previous z b n d (ls_previous s) ?c (int ?m) p1 = Inr (?new, ?sib, p2)"
    using m len unfolding siblings_after_previous_def Let_def if_not_P[OF cap] prev by (cases "i = first") auto
  have pf: "\<lparr>Siblings = ?sib, Path = Path (ps ! i)\<rparr> = ps ! i" by simp
  from sib have "load_instance z hash sha256 root b n d off ds s =
      Inr (True, ds\<lparr>ds_cache := ?new, mtProofs := (mtProofs ds)[off := ps ! i], encodeFragment := (encodeFragment ds)[off := res ! i]\<rparr>,
        s\<lparr>ls_previous := Some (ps ! i), ls_flag := False, ls_pos := p'\<rparr>)"
    using 1 3 fl ver by (simp add: load_instance_def Let_def pf)
  moreover have "length ?new \<le> Suc off * d" using cache m(1) lh by simp
  ultimately show ?thesis by blast
qed

text \<open>The proofs of a tree: all of one depth, and valid.\<close>

definition proofs_ok :: "(string \<Rightarrow> string \<Rightarrow> string) \<Rightarrow> (string \<Rightarrow> string option) \<Rightarrow> string \<Rightarrow> nat \<Rightarrow> string mproof list \<Rightarrow> string list \<Rightarrow> bool" where
  "proofs_ok hash sha256 root d ps res \<longleftrightarrow> length ps = length res \<and>
     (\<forall>i < length ps. length (Siblings (ps ! i)) = d \<and> Verify hash sha256 (res ! i) (ps ! i) root = Some True)"

definition at_fragment :: "string mproof list \<Rightarrow> nat \<Rightarrow> nat \<Rightarrow> load_state \<Rightarrow> bool" where
  "at_fragment ps first i s \<longleftrightarrow> \<not> ls_flag s \<and> ls_previous s = (if i = first then None else Some (ps ! (i - 1)))"

lemma load_instances_reads:
  assumes "proofs_ok hash sha256 root d ps res" and "base + n \<le> length ps" and "first \<le> base"
    and "frag_reads z ps res d first [base + off..<base + n] b (ls_pos s) p'" and "at_fragment ps first (base + off) s"
    and "length (ds_cache ds) \<le> off * d" and "off \<le> n" and "length (encodeFragment ds) = n"
  shows "\<exists>ds' s'. load_instances z hash sha256 root b n d [off..<n] ds s = Inr (True, ds', s') \<and>
    at_fragment ps first (base + n) s' \<and> ls_pos s' = p' \<and> cacheGuard ds' = cacheGuard ds \<and>
    encodeFragment ds' = take off (encodeFragment ds) @ map (\<lambda>o'. res ! (base + o')) [off..<n]"
  using assms(4-8)
proof (induction "n - off" arbitrary: off ds s)
  case 0
  then show ?case by simp
next
  case (Suc m)
  then have off: "off < n" by simp
  let ?i = "base + off"
  have upt: "[?i..<base + n] = ?i # [base + Suc off..<base + n]" "[off..<n] = off # [Suc off..<n]"
    using off by (simp_all add: upt_conv_Cons)
  from Suc.prems(1) obtain q where rd: "frag_read z ps res d first ?i b (ls_pos s) q"
    and rest: "frag_reads z ps res d first [base + Suc off..<base + n] b q p'" unfolding upt by auto
  have i: "?i < length ps" "?i - 1 < length ps" using off assms(2) by auto
  have at: "\<not> ls_flag s" "ls_previous s = (if ?i = first then None else Some (ps ! (?i - 1)))"
    using Suc.prems(2) by (simp_all add: at_fragment_def)
  have ok: "length (Siblings (ps ! ?i)) = d" "length (Siblings (ps ! (?i - 1))) = d" "Verify hash sha256 (res ! ?i) (ps ! ?i) root = Some True"
    using assms(1) i by (simp_all add: proofs_ok_def)
  from load_instance_reads[OF rd at ok(1) ok(2) Suc.prems(3) off ok(3)] obtain cache where
    cache: "length cache \<le> Suc off * d" and
    step: "load_instance z hash sha256 root b n d off ds s =
      Inr (True, ds\<lparr>ds_cache := cache, mtProofs := (mtProofs ds)[off := ps ! ?i], encodeFragment := (encodeFragment ds)[off := res ! ?i]\<rparr>,
        s\<lparr>ls_previous := Some (ps ! ?i), ls_flag := False, ls_pos := q\<rparr>)" (is "_ = Inr (True, ?ds, ?s)") by blast
  have at': "at_fragment ps first (base + Suc off) ?s" using assms(3) by (simp add: at_fragment_def)
  have "\<exists>ds' s'. load_instances z hash sha256 root b n d [Suc off..<n] ?ds ?s = Inr (True, ds', s') \<and>
      at_fragment ps first (base + n) s' \<and> ls_pos s' = p' \<and> cacheGuard ds' = cacheGuard ?ds \<and>
      encodeFragment ds' = take (Suc off) (encodeFragment ?ds) @ map (\<lambda>o'. res ! (base + o')) [Suc off..<n]"
    using Suc.hyps(2) Suc.prems(5) cache off rest by (intro Suc.hyps(1) at') auto
  moreover have "take (Suc off) (encodeFragment ?ds) = take off (encodeFragment ds) @ [res ! ?i]"
    using off Suc.prems(5) by (simp add: take_Suc_conv_app_nth)
  ultimately show ?case using step by (auto simp: upt(2))
qed

text \<open>The storages after a message: the named ones hold its fragments, the others are untouched.\<close>

definition loaded :: "DecodeStorage list \<Rightarrow> DecodeStorage list \<Rightarrow> nat \<Rightarrow> nat \<Rightarrow> (nat \<Rightarrow> string list) \<Rightarrow> bool" where
  "loaded dsl dsl' k n f \<longleftrightarrow> length dsl' = length dsl \<and>
     (\<forall>j < length dsl. if k \<le> j \<and> j < k + n then cacheGuard (dsl' ! j) \<and> encodeFragment (dsl' ! j) = f (j - k) else dsl' ! j = dsl ! j)"

definition fresh_between :: "DecodeStorage list \<Rightarrow> nat \<Rightarrow> nat \<Rightarrow> bool" where
  "fresh_between dsl k l \<longleftrightarrow> l \<le> length dsl \<and> (\<forall>j. k \<le> j \<and> j < l \<longrightarrow> \<not> cacheGuard (dsl ! j) \<and> ds_cache (dsl ! j) = [])"

lemma loaded_Suc:
  assumes "loaded (dsl[k := ds]) dsl' (Suc k) m f'" and "\<And>j. f' j = f (Suc j)" and "k < length dsl"
    and "cacheGuard ds" and "encodeFragment ds = f 0"
  shows "loaded dsl dsl' k (Suc m) f"
  unfolding loaded_def
proof (intro conjI allI impI)
  show "length dsl' = length dsl" using assms(1) by (simp add: loaded_def)
  fix j assume j: "j < length dsl"
  have l: "if Suc k \<le> j \<and> j < Suc k + m then cacheGuard (dsl' ! j) \<and> encodeFragment (dsl' ! j) = f' (j - Suc k)
      else dsl' ! j = dsl[k := ds] ! j" using assms(1) j unfolding loaded_def length_list_update by blast
  consider "j = k" | "Suc k \<le> j" | "j < k" by linarith
  then show "if k \<le> j \<and> j < k + Suc m then cacheGuard (dsl' ! j) \<and> encodeFragment (dsl' ! j) = f (j - k)
      else dsl' ! j = dsl ! j"
  proof cases
    case 2
    then have "f' (j - Suc k) = f (j - k)" "k \<le> j" "dsl[k := ds] ! j = dsl ! j" by (auto simp: assms(2) Suc_diff_Suc)
    then show ?thesis using l 2 by simp
  qed (use l j assms(3-5) in auto)
qed

lemma length_begin_storage: "length (encodeFragment (begin_storage n ds)) = n"
  by (simp add: begin_storage_def)

lemma load_fragments_reads:
  assumes "proofs_ok hash sha256 root d ps res" and "(f + m) * n \<le> length ps" and "first \<le> f * n"
    and "frag_reads z ps res d first [f * n..<(f + m) * n] b (ls_pos s) p'" and "at_fragment ps first (f * n) s"
    and "fresh_between dsl k (k + m)"
  shows "\<exists>dsl'. load_fragments z hash sha256 root b n d [k..<k + m] dsl s = Inr (True, dsl') \<and>
    loaded dsl dsl' k m (\<lambda>j. map (\<lambda>o'. res ! ((f + j) * n + o')) [0..<n])"
  using assms(2-6)
proof (induction m arbitrary: f k s dsl)
  case 0
  then show ?case by (auto simp: loaded_def)
next
  case (Suc m)
  let ?ds = "begin_storage n (dsl ! k)"
  have upt: "[k..<k + Suc m] = k # [Suc k..<Suc k + m]" by (simp add: upt_conv_Cons)
  have "[f * n..<(f + Suc m) * n] = [f * n..<f * n + n] @ [f * n + n..<(f + Suc m) * n]"
    using upt_add_eq_append[of "f * n" "f * n + n" "m * n"] by (simp add: algebra_simps)
  moreover have next': "f * n + n = Suc f * n" "(f + Suc m) * n = (Suc f + m) * n" by simp_all
  moreover have "frag_reads z ps res d first (is @ js) b p q \<longleftrightarrow>
      (\<exists>r. frag_reads z ps res d first is b p r \<and> frag_reads z ps res d first js b r q)" for "is" js p q
    by (induction "is" arbitrary: p) auto
  ultimately obtain q where here: "frag_reads z ps res d first [f * n + 0..<f * n + n] b (ls_pos s) q"
    and rest: "frag_reads z ps res d first [Suc f * n..<(Suc f + m) * n] b q p'" using Suc.prems(3) by auto
  have k: "k < length dsl" "\<not> cacheGuard (dsl ! k)" "ds_cache (dsl ! k) = []" using Suc.prems(5) by (simp_all add: fresh_between_def)
  have ds: "length (ds_cache ?ds) \<le> 0 * d" "cacheGuard ?ds" using k by (simp_all add: begin_storage_def)
  have "f * n + n \<le> length ps" using Suc.prems(1) by (simp add: distrib_right)
  from load_instances_reads[OF assms(1) this Suc.prems(2) here _ ds(1) _ length_begin_storage] Suc.prems(4)
  obtain ds' s' where step: "load_instances z hash sha256 root b n d [0..<n] ?ds s = Inr (True, ds', s')"
    and s': "at_fragment ps first (f * n + n) s'" "ls_pos s' = q" "cacheGuard ds'"
    and e: "encodeFragment ds' = map (\<lambda>o'. res ! (f * n + o')) [0..<n]" using ds(2) by auto
  have fresh: "fresh_between (dsl[k := ds']) (Suc k) (Suc k + m)" using Suc.prems(5) by (auto simp: fresh_between_def)
  have "\<exists>dsl'. load_fragments z hash sha256 root b n d [Suc k..<Suc k + m] (dsl[k := ds']) s' = Inr (True, dsl') \<and>
      loaded (dsl[k := ds']) dsl' (Suc k) m (\<lambda>j. map (\<lambda>o'. res ! ((Suc f + j) * n + o')) [0..<n])"
    using Suc.prems(1,2) s' rest by (intro Suc.IH fresh) (auto simp: next')
  then obtain dsl' where l: "load_fragments z hash sha256 root b n d [Suc k..<Suc k + m] (dsl[k := ds']) s' = Inr (True, dsl')"
    "loaded (dsl[k := ds']) dsl' (Suc k) m (\<lambda>j. map (\<lambda>o'. res ! ((Suc f + j) * n + o')) [0..<n])" by blast
  have "loaded dsl dsl' k (Suc m) (\<lambda>j. map (\<lambda>o'. res ! ((f + j) * n + o')) [0..<n])"
    using e by (intro loaded_Suc[OF l(2) _ k(1) s'(3)]) simp_all
  moreover have "load_fragments z hash sha256 root b n d [k..<k + Suc m] dsl s = Inr (True, dsl')"
    unfolding upt using step l(1) k(2) by (simp del: upt_Suc)
  ultimately show ?case by blast
qed

section \<open>Round trip\<close>

text \<open>A context whose tree belongs to its fragments.\<close>

definition encoded :: "(string \<Rightarrow> string \<Rightarrow> string) \<Rightarrow> (string \<Rightarrow> string option) \<Rightarrow> fragment_context \<Rightarrow> string merkle \<Rightarrow> nat \<Rightarrow> bool" where
  "encoded hash sha256 ctx mt d \<longleftrightarrow> ctx_mt ctx = Some mt \<and> 0 < instanceCount (ecConfig ctx) \<and>
     proofs_ok hash sha256 (Root mt) d (Proofs mt) (ecEncodeResult ctx) \<and>
     length (ecEncodeResult ctx) = nat (fragmentCnt ctx) * nat (instanceCount (ecConfig ctx))"

definition fragment_at :: "fragment_context \<Rightarrow> nat \<Rightarrow> string list" where
  "fragment_at ctx f =
     (let n = nat (instanceCount (ecConfig ctx)) in map (\<lambda>o'. ecEncodeResult ctx ! (f * n + o')) [0..<n])"

lemma serialize_reads:
  assumes z: "prims_ok z" and e: "encoded hash sha256 ctx mt d" and off: "offset \<le> length buf"
    and s: "serializeFragments z ctx start stop buf offset = Inr (True, raw)"
  shows "0 \<le> start \<and> start < stop \<and> stop \<le> fragmentCnt ctx \<and> offset \<le> length raw \<and>
    take offset raw = take offset buf \<and> (\<exists>p. in_of (c_i64 z) raw offset = Some (int d, p) \<and>
       frag_reads z (Proofs mt) (ecEncodeResult ctx) d (nat start * nat (instanceCount (ecConfig ctx)))
         [nat start * nat (instanceCount (ecConfig ctx))..<nat stop * nat (instanceCount (ecConfig ctx))] raw p (length raw))"
proof -
  let ?n = "nat (instanceCount (ecConfig ctx))" and ?ps = "Proofs mt" and ?res = "ecEncodeResult ctx"
  let ?is = "[nat start * ?n..<nat stop * ?n]"
  have mt: "ctx_mt ctx = Some mt" and n: "0 < ?n" and ok: "proofs_ok hash sha256 (Root mt) d ?ps ?res"
    and len: "length ?res = nat (fragmentCnt ctx) * ?n" using e by (simp_all add: encoded_def)
  have rng: "\<not> (start < 0 \<or> start \<ge> stop \<or> stop > fragmentCnt ctx)" "?res \<noteq> []"
    using s by (auto simp: serializeFragments_def mt split: if_splits)
  then have "nat start < nat (fragmentCnt ctx)" by auto
  then have "nat start < nat (fragmentCnt ctx) * ?n" using n by (metis less_le_trans mult.right_neutral mult_le_mono2 Suc_leI One_nat_def)
  then have dep: "length (Siblings (?ps ! nat start)) = d" using ok len by (simp add: proofs_ok_def)
  define b0 where "b0 = enlarge buf (reserve_size ?res d ?is offset)"
  let ?w = "\<lambda>buf pos. do { (buf, pos) \<leftarrow> out_of (c_i64 z) (int d) buf pos; out_fragments z ?ps ?res d (nat start * ?n) ?is buf pos }"
  obtain b1 p1 where out: "?w b0 offset = Some (b1, p1)" and raw: "raw = take p1 b1"
    using s rng unfolding serializeFragments_def mt b0_def by (auto simp: Let_def dep split: option.splits)
  have c: "codec_ok (c_i64 z)" using z by (simp add: prims_ok_def)
  note w = writes_seq[OF writes_codec[OF c, of "int d"] writes_fragments[OF z, of ?ps ?res d "nat start * ?n" ?is]]
  have o0: "offset \<le> length b0" using off by (simp add: b0_def enlarge_def)
  have wr: "wrote b0 offset b1 p1" by (rule writesD(1)[OF w out o0])
  then have p1: "offset \<le> p1" "p1 \<le> length b1" by (simp_all add: wrote_def)
  then have "agree raw b1 offset p1" by (simp add: agree_def bytes_def raw drop_take)
  note reads = writesD(2)[OF w out o0 this]
  have "take offset raw = take offset b0" using wr p1(1) by (simp add: raw wrote_def min_def)
  then have "take offset raw = take offset buf" using off by (simp add: b0_def enlarge_def)
  then show ?thesis using reads rng p1 raw by auto
qed

lemma fragments_roundtrip:
  assumes z: "prims_ok z" "prims_relocatable z" and e: "encoded hash sha256 ctx mt d" and off: "offset \<le> length buf"
    and s: "serializeFragments z ctx start stop buf offset = Inr (True, raw)"
    and inst: "instanceCount (ecConfig ctx') = instanceCount (ecConfig ctx)"
    and rng: "0 \<le> k" "k + (stop - start) \<le> fragmentCnt ctx'"
    and fresh: "fresh_between (decodeStorageList ctx') (nat k) (nat (k + (stop - start)))"
  shows "\<exists>dsl'. validateAndDeserializeFragments z hash sha256 (Root mt) (drop offset raw) k (k + (stop - start)) ctx' =
      Inr (True, ctx'\<lparr>decodeStorageList := dsl'\<rparr>) \<and>
    loaded (decodeStorageList ctx') dsl' (nat k) (nat (stop - start)) (\<lambda>j. fragment_at ctx (nat start + j))"
proof -
  let ?n = "nat (instanceCount (ecConfig ctx))" and ?ps = "Proofs mt" and ?res = "ecEncodeResult ctx" and ?raw = "drop offset raw"
  define m where "m = nat (stop - start)"
  from serialize_reads[OF z(1) e off s] obtain p where st: "0 \<le> start" "start < stop" "stop \<le> fragmentCnt ctx" "offset \<le> length raw"
    and rd: "in_of (c_i64 z) raw offset = Some (int d, p)"
      "frag_reads z ?ps ?res d (nat start * ?n) [nat start * ?n..<nat stop * ?n] raw p (length raw)" by blast
  have c: "relocatable (c_i64 z)" using z(2) by (simp add: prims_relocatable_def)
  from relocatableD[OF c, of raw offset 0 "int d" p] rd(1) st(4) obtain p0 where
    p0: "p = offset + p0" "in_of (c_i64 z) ?raw 0 = Some (int d, p0)" by auto
  from frag_reads_drop[OF z(2) rd(2)[unfolded p0(1)] st(4)] obtain p2 where
    r: "frag_reads z ?ps ?res d (nat start * ?n) [nat start * ?n..<nat stop * ?n] ?raw p0 p2" by blast
  have stop: "nat stop = nat start + m" and km: "nat (k + (stop - start)) = nat k + m" using st rng by (simp_all add: m_def nat_diff_distrib nat_add_distrib)
  let ?s = "\<lparr>ls_previous = None, ls_cache = replicate d [], ls_flag = False, ls_pos = p0\<rparr>"
  have ok: "proofs_ok hash sha256 (Root mt) d ?ps ?res" and len: "length ?ps = nat (fragmentCnt ctx) * ?n"
    using e by (simp_all add: encoded_def proofs_ok_def)
  have bound: "(nat start + m) * ?n \<le> length ?ps" unfolding len stop[symmetric] using st by (intro mult_right_mono) auto
  have "\<exists>dsl'. load_fragments z hash sha256 (Root mt) ?raw ?n d [nat k..<nat k + m] (decodeStorageList ctx') ?s = Inr (True, dsl') \<and>
      loaded (decodeStorageList ctx') dsl' (nat k) m (\<lambda>j. map (\<lambda>o'. ?res ! ((nat start + j) * ?n + o')) [0..<?n])"
    by (rule load_fragments_reads[OF ok bound order_refl])
      (use r stop km fresh in \<open>simp_all add: at_fragment_def\<close>)
  then show ?thesis
    using st rng p0(2) inst unfolding validateAndDeserializeFragments_def m_def[symmetric]
    by (auto simp: fragment_at_def Let_def km)
qed

section \<open>Encoding a message\<close>

lemma tree_proofs_ok:
  assumes "New zero hash sha256 fragment_tree_config None res = Some mt" and "length res \<le> int_max"
  shows "proofs_ok hash sha256 (Root mt) (calTreeDepth (length res)) (Proofs mt) res"
proof -
  have "undisturbed fragment_tree_config None" by (simp add: undisturbed_def fragment_tree_config_def)
  from New_SomeE[OF assms(1) this] obtain leaves where two: "2 \<le> length leaves" and len: "length leaves = length res"
    and lg: "leafGen sha256 res = Some leaves" and mt: "mt = merkle_of zero hash (new_config fragment_tree_config None) leaves" by blast
  let ?d = "calTreeDepth (length leaves)"
  have d: "?d \<le> 32" using int_max_depth[OF two] assms(2) len by simp
  have ps: "Proofs mt = proofs_upto hash leaves ?d" "Root mt = merkle_root hash leaves"
    by (simp_all add: mt merkle_of_def Let_def fragment_tree_config_def)
  have leaf: "sha256 (res ! i) = Some (leaves ! i)" if "i < length res" for i
    using lg that by (auto simp: leafGen_map split: if_splits)
  show ?thesis unfolding proofs_ok_def
  proof (intro conjI allI impI)
    fix i assume "i < length (Proofs mt)"
    then have i: "i < length leaves" by (simp add: ps)
    then have p: "Proofs mt ! i = proof_of hash leaves ?d i" by (simp add: ps proofs_upto_def)
    show "length (Siblings (Proofs mt ! i)) = calTreeDepth (length res)" by (simp add: p proof_of_def len)
    show "Verify hash sha256 (res ! i) (Proofs mt ! i) (Root mt) = Some True"
      using verify_accepts[OF i two d, of hash] leaf[of i] i len by (simp add: Verify_def p ps(2))
  qed (simp add: ps len)
qed

lemma encode_tasks_length:
  "encode_tasks g n cnt len message is (ok, res) = Some (ok', res') \<Longrightarrow> length res' = length res"
proof (induction "is" arbitrary: ok res)
  case (Cons i "is")
  have "length (snd (encode_task g n cnt i v (ok, res))) = length res" for v
  proof -
    have "length (fold (\<lambda>j r. r[j * n + i := ret ! j]) js res) = length res" for js and ret :: "string list"
      by (induction js arbitrary: res) auto
    then show ?thesis by (simp add: encode_task_def split: option.split)
  qed
  moreover obtain v where "encode_tasks g n cnt len message is (encode_task g n cnt i v (ok, res)) = Some (ok', res')"
    using Cons.prems by (auto split: option.splits)
  ultimately show ?case using Cons.IH by (metis prod.collapse)
qed simp

lemma initWithMessage_encoded:
  assumes "initWithMessage zero hash sha256 g message ctx = Inr (True, ctx')" and "0 < instanceCount (ecConfig ctx)"
    and "nat (fragmentCnt ctx) * nat (instanceCount (ecConfig ctx)) \<le> int_max"
  shows "\<exists>mt. encoded hash sha256 ctx' mt (calTreeDepth (length (ecEncodeResult ctx'))) \<and> ecConfig ctx' = ecConfig ctx \<and>
    fragmentCnt ctx' = fragmentCnt ctx"
proof -
  let ?n = "nat (instanceCount (ecConfig ctx))" and ?cnt = "nat (fragmentCnt ctx)"
  from assms(1) obtain res mt where
    t: "encode_tasks g ?n ?cnt (piece_length (length message) ?n) message [0..<?n] (True, replicate (?n * ?cnt) []) = Some (True, res)"
    and new: "New zero hash sha256 fragment_tree_config None res = Some mt"
    and ctx': "ctx' = ctx\<lparr>ecEncodeResult := res, ctx_mt := Some mt\<rparr>"
    by (auto simp: initWithMessage_def Let_def split: if_splits option.splits bool.splits)
  have len: "length res = ?cnt * ?n" using encode_tasks_length[OF t] by simp
  then show ?thesis using tree_proofs_ok[OF new] assms(2,3) ctx' by (auto simp: encoded_def)
qed

section \<open>Regenerating the message\<close>

text \<open>
  What the erasure code promises: non-empty shards of one length, and the message from any
  selection of them that has at least as many as there are data shards.
\<close>

definition erasure_ok :: "grc \<Rightarrow> bfg_config \<Rightarrow> bool" where
  "erasure_ok g cfg \<longleftrightarrow>
     (\<forall>msg shards. grc_encode g msg = Some shards \<longrightarrow> int (length shards) = dataShardCnt cfg + parityShardCnt cfg \<and>
        (\<exists>n > 0. (\<forall>s \<in> set shards. length s = n) \<and>
           (\<forall>xs. length xs = length shards \<and> (\<forall>i < length xs. xs ! i = None \<or> xs ! i = Some (shards ! i)) \<and>
              dataShardCnt cfg \<le> int (length (filter (\<lambda>x. x \<noteq> None) xs)) \<longrightarrow>
              grc_decode g xs n (int (length msg)) = Some msg)))"

definition holds_shards :: "string list \<Rightarrow> DecodeStorage list \<Rightarrow> bool" where
  "holds_shards shards dsl \<longleftrightarrow> length dsl = length shards \<and>
     (\<forall>j < length dsl. encodeFragment (dsl ! j) = [] \<or> encodeFragment (dsl ! j) = [shards ! j])"

lemma partial_view_shards:
  assumes "holds_shards shards dsl" and "\<forall>s \<in> set shards. length s = n" and "0 < n"
  shows "partial_view dsl 0 = map (\<lambda>j. if encodeFragment (dsl ! j) = [] then [] else shards ! j) [0..<length dsl]"
    "\<forall>j < length dsl. shards ! j \<noteq> []"
proof -
  have len: "length dsl = length shards" using assms(1) by (simp add: holds_shards_def)
  show "\<forall>j < length dsl. shards ! j \<noteq> []" using assms(2,3) len by (metis length_greater_0_conv nth_mem)
  show "partial_view dsl 0 = map (\<lambda>j. if encodeFragment (dsl ! j) = [] then [] else shards ! j) [0..<length dsl]"
  proof (rule nth_equalityI)
    fix j assume "j < length (partial_view dsl 0)"
    then have "j < length dsl" by (simp add: partial_view_def)
    then show "partial_view dsl 0 ! j = map (\<lambda>j. if encodeFragment (dsl ! j) = [] then [] else shards ! j) [0..<length dsl] ! j"
      using assms(1) unfolding holds_shards_def by (auto simp: partial_view_def)
  qed (simp add: partial_view_def)
qed

lemma fragment_length_shards:
  assumes "\<forall>f \<in> set fs. f = [] \<or> length f = n" and "\<exists>f \<in> set fs. f \<noteq> []"
  shows "fragment_length fs = n"
proof -
  have ne: "filter (\<lambda>f. f \<noteq> []) fs \<noteq> []" using assms(2) by (auto simp: filter_empty_conv)
  have "set (filter (\<lambda>f. f \<noteq> []) fs) \<subseteq> {f. length f = n}" using assms(1) by auto
  then show ?thesis using ne by (cases "filter (\<lambda>f. f \<noteq> []) fs") (auto simp: fragment_length_def)
qed

lemma decode_shards:
  assumes ok: "erasure_ok g cfg" and enc: "grc_encode g msg = Some shards" and h: "holds_shards shards dsl"
    and pos: "0 < dataShardCnt cfg"
    and enough: "dataShardCnt cfg \<le> int (length (filter (\<lambda>ds. encodeFragment ds \<noteq> []) dsl))"
  shows "decodeWithBuffer g cfg (partial_view dsl 0) (int (length msg)) (int (length msg)) = Some msg"
proof -
  note shards = ok[unfolded erasure_ok_def, THEN spec, THEN spec, THEN mp, OF enc]
  note len = conjunct1[OF shards]
  from conjunct2[OF shards] obtain n where n: "0 < n" "\<forall>s \<in> set shards. length s = n"
    and dec: "\<forall>xs. length xs = length shards \<and> (\<forall>i < length xs. xs ! i = None \<or> xs ! i = Some (shards ! i)) \<and>
      dataShardCnt cfg \<le> int (length (filter (\<lambda>x. x \<noteq> None) xs)) \<longrightarrow> grc_decode g xs n (int (length msg)) = Some msg" by blast
  let ?fs = "partial_view dsl 0" and ?have = "\<lambda>j. encodeFragment (dsl ! j) \<noteq> []"
  let ?xs = "map (\<lambda>f. if f \<noteq> [] then Some f else None) ?fs"
  note pv = partial_view_shards[OF h n(2,1)]
  have l: "length dsl = length shards" using h by (simp add: holds_shards_def)
  have xs: "?xs = map (\<lambda>j. if ?have j then Some (shards ! j) else None) [0..<length dsl]"
    unfolding pv(1) using pv(2) by simp
  have "length (filter (\<lambda>x. x \<noteq> None) ?xs) = length (filter ?have [0..<length dsl])"
    unfolding xs by (simp add: filter_map comp_def)
  also have "\<dots> = length (filter (\<lambda>ds. encodeFragment ds \<noteq> []) (map ((!) dsl) [0..<length dsl]))" by (simp add: filter_map comp_def)
  also have "\<dots> = length (filter (\<lambda>ds. encodeFragment ds \<noteq> []) dsl)" by (simp add: map_nth)
  finally have cnt: "length (filter (\<lambda>x. x \<noteq> None) ?xs) = length (filter (\<lambda>ds. encodeFragment ds \<noteq> []) dsl)" .
  have "filter (\<lambda>ds. encodeFragment ds \<noteq> []) dsl \<noteq> []" using enough pos by (intro notI) simp
  then obtain j where j: "j < length dsl" "?have j" by (auto simp: filter_empty_conv in_set_conv_nth)
  have "shards ! j \<in> set ?fs" unfolding pv(1) using j by (auto simp: image_iff intro!: bexI[of _ j])
  then have "fragment_length ?fs = n"
    using pv n l j(1) by (intro fragment_length_shards) (auto simp: pv(1))
  moreover have "grc_decode g ?xs n (int (length msg)) = Some msg"
    by (rule dec[rule_format]) (use enough cnt l in \<open>auto simp: xs\<close>)
  ultimately show ?thesis using len l by (simp add: decodeWithBuffer_def partial_view_def)
qed

lemma regenerate_shards:
  assumes "erasure_ok g (ecConfig ctx)" and "grc_encode g msg = Some shards" and "holds_shards shards (decodeStorageList ctx)"
    and "0 < dataShardCnt (ecConfig ctx)" and "instanceCount (ecConfig ctx) = 1"
    and "dataShardCnt (ecConfig ctx) \<le> int (length (filter (\<lambda>ds. encodeFragment ds \<noteq> []) (decodeStorageList ctx)))"
  shows "regenerateMessage g ctx (int (length msg)) [] = Inr (True, msg)"
  using decode_shards[OF assms(1-4,6)] assms(5)
  by (simp add: regenerateMessage_def enlarge_def write_at_def)

text \<open>With one instance the fragments of a context are the shards of the message.\<close>

lemma fill_shards:
  assumes "length ret = cnt"
  shows "fold (\<lambda>j r. r[j := ret ! j]) [0..<cnt] (replicate cnt x) = ret"
proof -
  have "fold (\<lambda>j r. r[j := ret ! j]) [0..<k] (replicate cnt x) = take k ret @ replicate (cnt - k) x" if "k \<le> cnt" for k
    using that
  proof (induction k)
    case (Suc k)
    then have "replicate (cnt - k) x = x # replicate (cnt - Suc k) x" by (simp add: Suc_diff_Suc flip: replicate_Suc)
    then show ?case using Suc assms by (simp add: list_update_append take_Suc_conv_app_nth)
  qed simp
  then show ?thesis using assms by simp
qed

lemma initWithMessage_shards:
  assumes "initWithMessage zero hash sha256 g message ctx = Inr (True, ctx')" and "instanceCount (ecConfig ctx) = 1"
    and "erasure_ok g (ecConfig ctx)" and "fragmentCnt ctx = dataShardCnt (ecConfig ctx) + parityShardCnt (ecConfig ctx)"
  shows "grc_encode g message = Some (ecEncodeResult ctx')"
proof -
  let ?cnt = "nat (fragmentCnt ctx)"
  have "piece_length (length message) 1 = length message" by (simp add: piece_length_def)
  with assms(1,2) obtain ret where ret: "grc_encode g message = Some ret"
    and ctx': "ecEncodeResult ctx' = fold (\<lambda>j r. r[j := ret ! j]) [0..<?cnt] (replicate ?cnt [])"
    by (auto simp: initWithMessage_def Let_def substr_def encode_task_def split: if_splits option.splits bool.splits)
  have "int (length ret) = fragmentCnt ctx"
    unfolding assms(4) by (rule conjunct1[OF assms(3)[unfolded erasure_ok_def, THEN spec, THEN spec, THEN mp, OF ret]])
  then show ?thesis using ret ctx' fill_shards[of ret ?cnt "[]"] by simp
qed

end
