(* ===== verification/FragmentSafe.thy ===== *)
theory FragmentSafe
  imports FragmentCorrect
begin

text \<open>
  What a context stores of messages from anyone: only fragments that have a valid proof. And where
  the checks end: nothing ties a fragment to the index it is sent under, and after two guarded
  fragments in a row the siblings that a proof leaves out are taken from the wrong proof.
\<close>

section \<open>Stored fragments have proofs\<close>

definition proved :: "(string \<Rightarrow> string \<Rightarrow> string) \<Rightarrow> (string \<Rightarrow> string option) \<Rightarrow> string \<Rightarrow> DecodeStorage \<Rightarrow> bool" where
  "proved hash sha256 root ds \<longleftrightarrow>
     (\<forall>f \<in> set (encodeFragment ds). f = [] \<or> (\<exists>pf. Verify hash sha256 f pf root = Some True))"

lemma load_instance_proved:
  assumes "load_instance z hash sha256 root raw n d off ds s = Inr (ok, ds', s')" and "proved hash sha256 root ds"
  shows "proved hash sha256 root ds'"
proof -
  have "encodeFragment ds' = encodeFragment ds \<or>
      (\<exists>f pf. encodeFragment ds' = (encodeFragment ds)[off := f] \<and> Verify hash sha256 f pf root = Some True)"
    using assms(1) by (auto simp: load_instance_def Let_def split: option.splits sum.splits if_splits)
  then show ?thesis
  proof (elim disjE exE conjE)
    fix f pf assume e: "encodeFragment ds' = (encodeFragment ds)[off := f]" "Verify hash sha256 f pf root = Some True"
    then have "set (encodeFragment ds') \<subseteq> insert f (set (encodeFragment ds))" by (simp add: set_update_subset_insert)
    then show ?thesis using e(2) assms(2) unfolding proved_def by blast
  qed (use assms(2) in \<open>simp add: proved_def\<close>)
qed

lemma load_instances_proved:
  "load_instances z hash sha256 root raw n d os ds s = Inr (ok, ds', s') \<Longrightarrow> proved hash sha256 root ds \<Longrightarrow>
   proved hash sha256 root ds'"
proof (induction os arbitrary: ds s)
  case (Cons off os)
  from Cons.prems(1) show ?case
  proof (cases "load_instance z hash sha256 root raw n d off ds s")
    case (Inr r)
    obtain ok1 ds1 s1 where r: "r = (ok1, ds1, s1)" by (cases r)
    have "proved hash sha256 root ds1" by (rule load_instance_proved[OF Inr[unfolded r] Cons.prems(2)])
    then show ?thesis using Cons.prems(1) Cons.IH[of ds1 s1] Inr r by (cases ok1) auto
  qed simp
qed simp

lemma begin_storage_proved: "proved hash sha256 root ds \<Longrightarrow> proved hash sha256 root (begin_storage n ds)"
  by (auto simp: proved_def begin_storage_def dest: in_set_takeD)

lemma load_fragments_proved:
  "load_fragments z hash sha256 root raw n d is dsl s = Inr (ok, dsl') \<Longrightarrow> set is \<subseteq> {0..<length dsl} \<Longrightarrow>
   \<forall>ds \<in> set dsl. proved hash sha256 root ds \<Longrightarrow> \<forall>ds \<in> set dsl'. proved hash sha256 root ds"
proof (induction "is" arbitrary: dsl s)
  case (Cons i "is")
  show ?case
  proof (cases "cacheGuard (dsl ! i)")
    case True
    then obtain s1 where "load_fragments z hash sha256 root raw n d is dsl s1 = Inr (ok, dsl')"
      using Cons.prems(1) by (auto split: sum.splits)
    then show ?thesis using Cons.prems(2,3) by (intro Cons.IH) auto
  next
    case False
    then obtain ok1 ds1 s1 where l: "load_instances z hash sha256 root raw n d [0..<n] (begin_storage n (dsl ! i)) s = Inr (ok1, ds1, s1)"
      using Cons.prems(1) by (auto split: sum.splits)
    have "proved hash sha256 root (dsl ! i)" using Cons.prems(2,3) by simp
    then have "proved hash sha256 root ds1" by (rule load_instances_proved[OF l begin_storage_proved])
    then have all: "\<forall>ds \<in> set (dsl[i := ds1]). proved hash sha256 root ds"
      using Cons.prems(3) set_update_subset_insert[of dsl i ds1] by blast
    show ?thesis using Cons.prems(1,2) Cons.IH[OF _ _ all, of s1] False l all by (cases ok1) auto
  qed
qed simp

lemma validate_proved:
  assumes "validateAndDeserializeFragments z hash sha256 root raw start stop ctx = Inr (ok, ctx')"
    and "length (decodeStorageList ctx) = nat (fragmentCnt ctx)" and "\<forall>ds \<in> set (decodeStorageList ctx). proved hash sha256 root ds"
  shows "\<forall>ds \<in> set (decodeStorageList ctx'). proved hash sha256 root ds"
proof (cases "start < 0 \<or> start \<ge> stop \<or> stop > fragmentCnt ctx")
  case True
  then show ?thesis using assms(1,3) by (auto simp: validateAndDeserializeFragments_def)
next
  case False
  then obtain d s dsl where l: "load_fragments z hash sha256 root raw (nat (instanceCount (ecConfig ctx))) d [nat start..<nat stop]
      (decodeStorageList ctx) s = Inr (ok, dsl)" and ctx': "ctx' = ctx\<lparr>decodeStorageList := dsl\<rparr>"
    using assms(1) by (auto simp: validateAndDeserializeFragments_def split: option.splits sum.splits if_splits)
  have "set [nat start..<nat stop] \<subseteq> {0..<length (decodeStorageList ctx)}" using False assms(2) by auto
  from load_fragments_proved[OF l this assms(3)] show ?thesis by (simp add: ctx')
qed

section \<open>The index of a fragment\<close>

text \<open>Fragments that were serialized as \<open>start\<close> and following are accepted as \<open>k\<close> and following.\<close>

lemma accepted_elsewhere:
  assumes "prims_ok z" "prims_relocatable z" "encoded hash sha256 ctx mt d" "offset \<le> length buf"
    and "serializeFragments z ctx start stop buf offset = Inr (True, raw)" and "ecConfig ctx' = ecConfig ctx"
    and "ctx' = new_context (ecConfig ctx)" and "0 \<le> k" and "k + (stop - start) \<le> fragmentCnt ctx'"
  shows "\<exists>dsl. validateAndDeserializeFragments z hash sha256 (Root mt) (drop offset raw) k (k + (stop - start)) ctx' =
      Inr (True, ctx'\<lparr>decodeStorageList := dsl\<rparr>) \<and> encodeFragment (dsl ! nat k) = fragment_at ctx (nat start)"
proof -
  have st: "start < stop" using serialize_reads[OF assms(1,3,4,5)] by blast
  have len: "length (decodeStorageList ctx') = nat (fragmentCnt ctx')" by (simp add: assms(7) new_context_def)
  have fresh: "fresh_between (decodeStorageList ctx') (nat k) (nat (k + (stop - start)))"
    unfolding fresh_between_def len using assms(8,9) st by (auto simp: assms(7) new_context_def fresh_storage_def)
  have inst: "instanceCount (ecConfig ctx') = instanceCount (ecConfig ctx)" by (simp add: assms(6))
  from fragments_roundtrip[OF assms(1-5) inst assms(8,9) fresh] obtain dsl where
    v: "validateAndDeserializeFragments z hash sha256 (Root mt) (drop offset raw) k (k + (stop - start)) ctx' =
      Inr (True, ctx'\<lparr>decodeStorageList := dsl\<rparr>)"
    and l: "loaded (decodeStorageList ctx') dsl (nat k) (nat (stop - start)) (\<lambda>j. fragment_at ctx (nat start + j))" by blast
  have "nat k < length (decodeStorageList ctx')" "nat k < nat k + nat (stop - start)" using len assms(8,9) st by auto
  then have "encodeFragment (dsl ! nat k) = fragment_at ctx (nat start)" using l unfolding loaded_def by force
  then show ?thesis using v by blast
qed

section \<open>Two guarded fragments in a row\<close>

text \<open>A 32-bit word takes four bytes, which \<^verbatim>\<open>in.position() += sizeof(int)\<close> skips.\<close>

definition four_bytes :: "32 word codec \<Rightarrow> bool" where
  "four_bytes c \<longleftrightarrow> (\<forall>b p x q. in_of c b p = Some (x, q) \<longrightarrow> q = p + 4)"

lemma skip_instance_reads:
  assumes "four_bytes (c_u32 z)" and "frag_read z ps res d first i b p p'" and "length (Siblings (ps ! i)) = d"
    and "length cache = d" and "written_siblings ps d first i \<le> d"
  shows "skip_instance z b cache p =
    Inr (take (written_siblings ps d first i) (Siblings (ps ! i)) @ drop (written_siblings ps d first i) cache, p')"
proof -
  let ?n = "written_siblings ps d first i"
  from assms(2) obtain q r where 1: "in_of (seq_codec (c_u32 z) (c_i64 z)) b p = Some ((Path (ps ! i), int ?n), q)"
    and 2: "hash_reads z b (take ?n (Siblings (ps ! i))) q r" and 3: "in_of (c_string z) b r = Some (res ! i, p')"
    unfolding frag_read_def by blast
  from 1 have "in_of (c_i64 z) b (p + 4) = Some (int ?n, q)"
    using assms(1) by (auto simp: seq_codec_def bind_eq_Some_conv four_bytes_def)
  moreover have "read_hashes z b ?n 0 q cache = Inr (take ?n (Siblings (ps ! i)) @ drop ?n cache, r)"
    using read_hashes_reads[OF 2, of 0 cache] assms(3-5) by simp
  ultimately show ?thesis using 3 by (simp add: skip_instance_def)
qed

text \<open>
  The fragments \<open>i\<close> to \<open>i + 3\<close> of one message, the middle two already received: the proof of the last
  one is completed from the proof of the third and, behind that, from the proof of the first.
\<close>

definition stale_proof :: "string mproof list \<Rightarrow> nat \<Rightarrow> nat \<Rightarrow> string mproof" where
  "stale_proof ps d i =
     (let n2 = written_siblings ps d i (i + 2); n3 = written_siblings ps d i (i + 3)
      in \<lparr>Siblings = take n3 (Siblings (ps ! (i + 3))) @ drop n3 (take n2 (Siblings (ps ! (i + 2))) @ drop n2 (Siblings (ps ! i))),
          Path = Path (ps ! (i + 3))\<rparr>)"

lemma load_after_guard:
  assumes rd: "frag_read z ps res d first i b (ls_pos s) p'" and fl: "ls_flag s" and off: "ds_cache ds = []"
    and len: "length (Siblings (ps ! i)) = d" "length (ls_cache s) = d" and m: "written_siblings ps d first i \<le> d"
    and pf: "pf = \<lparr>Siblings = take (written_siblings ps d first i) (Siblings (ps ! i)) @ drop (written_siblings ps d first i) (ls_cache s),
      Path = Path (ps ! i)\<rparr>"
  shows "\<exists>ds' s'. load_instance z hash sha256 root b 1 d 0 ds s = Inr (Verify hash sha256 (res ! i) pf root = Some True, ds', s')"
proof -
  let ?m = "written_siblings ps d first i"
  from rd obtain q r where 1: "in_of (seq_codec (c_u32 z) (c_i64 z)) b (ls_pos s) = Some ((Path (ps ! i), int ?m), q)"
    and 2: "hash_reads z b (take ?m (Siblings (ps ! i))) q r" and 3: "in_of (c_string z) b r = Some (res ! i, p')"
    unfolding frag_read_def by blast
  have "read_hashes z b ?m 0 q (replicate d []) = Inr (take ?m (Siblings (ps ! i)) @ drop ?m (replicate d []), r)"
    using read_hashes_reads[OF 2, of 0 "replicate d []"] len m by simp
  then have "siblings_after_guard z b d (ls_cache s) (ds_cache ds) (int ?m) q = Inr (Siblings pf, Siblings pf, r)"
    using len m by (simp add: siblings_after_guard_def Let_def off pf)
  then show ?thesis using 1 3 fl by (simp add: load_instance_def Let_def pf)
qed

lemma two_guarded:
  assumes z: "four_bytes (c_u32 z)" and ok: "proofs_ok hash sha256 root d ps res" and i: "i + 4 \<le> length ps"
    and rd: "frag_reads z ps res d i [i..<i + 4] b p p'"
    and g: "k + 4 \<le> length dsl" "\<not> cacheGuard (dsl ! k)" "cacheGuard (dsl ! (k + 1))" "cacheGuard (dsl ! (k + 2))"
      "\<not> cacheGuard (dsl ! (k + 3))" "ds_cache (dsl ! k) = []" "ds_cache (dsl ! (k + 3)) = []"
  shows "\<exists>dsl'. load_fragments z hash sha256 root b 1 d [k, k + 1, k + 2, k + 3] dsl
      \<lparr>ls_previous = None, ls_cache = replicate d [], ls_flag = False, ls_pos = p\<rparr> =
    Inr (Verify hash sha256 (res ! (i + 3)) (stale_proof ps d i) root = Some True, dsl')"
proof -
  let ?n = "\<lambda>j. written_siblings ps d i j" and ?sib = "\<lambda>j. Siblings (ps ! j)"
  have upt: "[i..<i + 4] = [i, i + 1, i + 2, i + 3]" by (simp add: upt_rec)
  from rd[unfolded upt] obtain p1 p2 p3 where r: "frag_read z ps res d i i b p p1" "frag_read z ps res d i (i + 1) b p1 p2"
    "frag_read z ps res d i (i + 2) b p2 p3" "frag_read z ps res d i (i + 3) b p3 p'" by auto
  have len: "length (?sib j) = d" if "j < i + 4" for j using ok i that by (simp add: proofs_ok_def)
  have le: "?n j \<le> d" if "i < j" "j < i + 4" for j
    using last_diff_suffix[OF len[of j] len[of "j - 1"], of d] that by (simp add: written_siblings_def)
  let ?s0 = "\<lparr>ls_previous = None, ls_cache = replicate d [], ls_flag = False, ls_pos = p\<rparr>"
  have v: "Verify hash sha256 (res ! i) (ps ! i) root = Some True" using ok i by (simp add: proofs_ok_def)
  have "length (ds_cache (begin_storage 1 (dsl ! k))) \<le> 0 * d" by (simp add: begin_storage_def g(6))
  from load_instance_reads[of z ps res d i i b ?s0 p1, OF _ _ _ len[of i] _ this zero_less_one v] r(1)
  obtain ds1 s1 where l1: "load_instance z hash sha256 root b 1 d 0 (begin_storage 1 (dsl ! k)) ?s0 = Inr (True, ds1, s1)"
    and s1: "s1 = ?s0\<lparr>ls_previous := Some (ps ! i), ls_flag := False, ls_pos := p1\<rparr>" by auto
  note sk1 = skip_instance_reads[OF z r(2) len[of "i + 1"] len[of i] le[of "i + 1"], simplified]
  note sk2 = skip_instance_reads[OF z r(3) len[of "i + 2"] len[of i] le[of "i + 2"], simplified]
  let ?c = "take (?n (i + 2)) (?sib (i + 2)) @ drop (?n (i + 2)) (?sib i)"
  let ?s3 = "s1\<lparr>ls_cache := ?c, ls_flag := True, ls_pos := p3\<rparr>"
  have lc: "length ?c = d" using len[of "i + 2"] len[of i] le[of "i + 2"] by simp
  have stale: "stale_proof ps d i = \<lparr>Siblings = take (?n (i + 3)) (?sib (i + 3)) @ drop (?n (i + 3)) (ls_cache ?s3), Path = Path (ps ! (i + 3))\<rparr>"
    by (simp add: stale_proof_def Let_def)
  have dc: "ds_cache (begin_storage 1 (dsl ! (k + 3))) = []" by (simp add: begin_storage_def g(7))
  have "\<exists>ds4 s4. load_instance z hash sha256 root b 1 d 0 (begin_storage 1 (dsl ! (k + 3))) ?s3 =
    Inr (Verify hash sha256 (res ! (i + 3)) (stale_proof ps d i) root = Some True, ds4, s4)"
    by (rule load_after_guard[OF _ _ dc len[of "i + 3"] _ le[of "i + 3"] stale]) (use r(4) lc in simp_all)
  then obtain ds4 s4 where l4: "load_instance z hash sha256 root b 1 d 0 (begin_storage 1 (dsl ! (k + 3))) ?s3 =
    Inr (Verify hash sha256 (res ! (i + 3)) (stale_proof ps d i) root = Some True, ds4, s4)" by blast
  have cp: "copy_previous (Some (ps ! i)) xs = Inr (?sib i)" if "length xs = d" for xs
    using len[of i] that by (simp add: copy_previous_def)
  show ?thesis using g(2-5) l1 l4 lc sk1 sk2 cp
    by (cases "Verify hash sha256 (res ! (i + 3)) (stale_proof ps d i) root = Some True") (auto simp: s1 len)
qed

end
