(* ===== verification/Lru.thy ===== *)
theory Lru
  imports Prelude "HOL-Library.AList"
begin

text \<open>
  The cache with least-recently-used eviction, \<^verbatim>\<open>include/common/lru.h\<close>: a hash map from
  keys to iterators into a list of key-value nodes that is kept in the order of use. The
  lock makes every call atomic, so a cache is a state and a call is a function on it.
\<close>

section \<open>State\<close>

text \<open>
  A node of the list has an identity, which is what an iterator stands for; \<open>lru_fresh\<close> is
  the identity of the next node. The hash map is a list of pairs, its size the length of
  that list.
\<close>

type_synonym ('k, 'v) node = "nat \<times> 'k \<times> 'v"

record ('k, 'v) lru =
  lru_cache :: "('k \<times> nat) list"
  lru_keys :: "('k, 'v) node list"
  lru_maxSize :: nat
  lru_elasticity :: nat
  lru_fresh :: nat

definition LRUCache :: "nat \<Rightarrow> nat \<Rightarrow> ('k, 'v) lru" where
  "LRUCache maxSize elasticity =
     \<lparr>lru_cache = [], lru_keys = [], lru_maxSize = maxSize, lru_elasticity = elasticity, lru_fresh = 0\<rparr>"

definition lru_init :: "nat \<Rightarrow> nat \<Rightarrow> ('k, 'v) lru \<Rightarrow> ('k, 'v) lru" where
  "lru_init maxSize elasticity c = c\<lparr>lru_maxSize := maxSize, lru_elasticity := elasticity\<rparr>"

definition lru_size :: "('k, 'v) lru \<Rightarrow> nat" where
  "lru_size c = length (lru_cache c)"

definition lru_empty :: "('k, 'v) lru \<Rightarrow> bool" where
  "lru_empty c = (lru_cache c = [])"

definition lru_clear :: "('k, 'v) lru \<Rightarrow> ('k, 'v) lru" where
  "lru_clear c = c\<lparr>lru_cache := [], lru_keys := []\<rparr>"

definition lru_contains :: "'k \<Rightarrow> ('k, 'v) lru \<Rightarrow> bool" where
  "lru_contains k c = (map_of (lru_cache c) k \<noteq> None)"

definition getMaxAllowedSize :: "('k, 'v) lru \<Rightarrow> nat" where
  "getMaxAllowedSize c = lru_maxSize c + lru_elasticity c"

section \<open>Operations\<close>

text \<open>\<^verbatim>\<open>splice\<close> moves the node of an iterator to the front.\<close>

definition splice_front :: "nat \<Rightarrow> ('k, 'v) node list \<Rightarrow> ('k, 'v) node list" where
  "splice_front it ns = filter (\<lambda>n. fst n = it) ns @ filter (\<lambda>n. fst n \<noteq> it) ns"

definition set_value :: "nat \<Rightarrow> 'v \<Rightarrow> ('k, 'v) node list \<Rightarrow> ('k, 'v) node list" where
  "set_value it v ns = map (\<lambda>(i, k, v'). if i = it then (i, k, v) else (i, k, v')) ns"

text \<open>
  The loop of \<^verbatim>\<open>prune\<close> removes the last node and its key; the result counts the rounds.
  \<^verbatim>\<open>keys_.back()\<close> of an empty list is undefined behaviour; the loop of the model stops
  there.
\<close>

function prune_loop :: "nat \<Rightarrow> ('k, 'v) lru \<Rightarrow> nat \<times> ('k, 'v) lru" where
  "prune_loop cnt c =
     (if lru_maxSize c < lru_size c \<and> lru_keys c \<noteq> []
      then prune_loop (cnt + 1)
        (c\<lparr>lru_cache := AList.delete (fst (snd (last (lru_keys c)))) (lru_cache c), lru_keys := butlast (lru_keys c)\<rparr>)
      else (cnt, c))"
  by pat_completeness auto
termination
  by (relation "measure (\<lambda>(cnt, c). length (lru_keys c))") auto

declare prune_loop.simps [simp del]

definition prune :: "('k, 'v) lru \<Rightarrow> nat \<times> ('k, 'v) lru" where
  "prune c =
     (if lru_maxSize c = 0 \<or> lru_size c < lru_maxSize c + lru_elasticity c then (0, c) else prune_loop 0 c)"

definition lru_insert :: "'k \<Rightarrow> 'v \<Rightarrow> ('k, 'v) lru \<Rightarrow> ('k, 'v) lru" where
  "lru_insert k v c =
     (case map_of (lru_cache c) k of
        Some it \<Rightarrow> c\<lparr>lru_keys := splice_front it (set_value it v (lru_keys c))\<rparr>
      | None \<Rightarrow> snd (prune (c\<lparr>lru_keys := (lru_fresh c, k, v) # lru_keys c,
                            lru_cache := AList.update k (lru_fresh c) (lru_cache c), lru_fresh := lru_fresh c + 1\<rparr>)))"

text \<open>The value behind an iterator.\<close>

definition deref :: "nat \<Rightarrow> ('k, 'v) node list \<Rightarrow> 'v option" where
  "deref it ns = map_option (snd \<circ> snd) (find (\<lambda>n. fst n = it) ns)"

definition tryGetRef :: "'k \<Rightarrow> ('k, 'v) lru \<Rightarrow> 'v option \<times> ('k, 'v) lru" where
  "tryGetRef k c =
     (case map_of (lru_cache c) k of
        None \<Rightarrow> (None, c)
      | Some it \<Rightarrow> (deref it (lru_keys c), c\<lparr>lru_keys := splice_front it (lru_keys c)\<rparr>))"

definition tryGetCopy :: "'k \<Rightarrow> ('k, 'v) lru \<Rightarrow> 'v option \<times> ('k, 'v) lru" where
  "tryGetCopy k c = tryGetRef k c"

datatype lru_error = KeyNotFound

definition getRef :: "'k \<Rightarrow> ('k, 'v) lru \<Rightarrow> (lru_error + 'v option) \<times> ('k, 'v) lru" where
  "getRef k c =
     (case map_of (lru_cache c) k of
        None \<Rightarrow> (Inl KeyNotFound, c)
      | Some it \<Rightarrow> (Inr (deref it (lru_keys c)), c\<lparr>lru_keys := splice_front it (lru_keys c)\<rparr>))"

definition lru_remove :: "'k \<Rightarrow> ('k, 'v) lru \<Rightarrow> bool \<times> ('k, 'v) lru" where
  "lru_remove k c =
     (case map_of (lru_cache c) k of
        None \<Rightarrow> (False, c)
      | Some it \<Rightarrow> (True, c\<lparr>lru_keys := filter (\<lambda>n. fst n \<noteq> it) (lru_keys c),
                             lru_cache := AList.delete k (lru_cache c)\<rparr>))"

section \<open>Representation invariant\<close>

text \<open>Keys and identities occur once, and the map points every key to its node.\<close>

definition lru_wf :: "('k, 'v) lru \<Rightarrow> bool" where
  "lru_wf c \<longleftrightarrow>
     distinct (map fst (lru_keys c)) \<and> distinct (map (fst \<circ> snd) (lru_keys c)) \<and>
     mset (lru_cache c) = mset (map (\<lambda>(i, k, v). (k, i)) (lru_keys c)) \<and>
     (\<forall>n \<in> set (lru_keys c). fst n < lru_fresh c)"

text \<open>What a cache stands for: its pairs in the order of use, most recent first.\<close>

definition pairs :: "('k, 'v) lru \<Rightarrow> ('k \<times> 'v) list" where
  "pairs c = map snd (lru_keys c)"

lemma LRUCache_simps [simp]:
  "pairs (LRUCache m e) = []" "lru_maxSize (LRUCache m e) = m" "lru_elasticity (LRUCache m e) = e"
  by (simp_all add: pairs_def LRUCache_def)

lemma lru_wf_new: "lru_wf (LRUCache m e)"
  by (simp add: lru_wf_def LRUCache_def)

lemma lru_wf_set:
  assumes "lru_wf c"
  shows "(k, i) \<in> set (lru_cache c) \<longleftrightarrow> (\<exists>v. (i, k, v) \<in> set (lru_keys c))"
proof -
  have "mset (lru_cache c) = mset (map (\<lambda>(i, k, v). (k, i)) (lru_keys c))"
    using assms by (simp add: lru_wf_def)
  from mset_eq_setD[OF this] show ?thesis by force
qed

lemma lru_wf_keys: "lru_wf c \<Longrightarrow> distinct (map fst (lru_cache c))"
proof -
  assume "lru_wf c"
  then have "mset (map fst (lru_cache c)) = mset (map (fst \<circ> snd) (lru_keys c))"
    by (simp add: lru_wf_def image_mset.compositionality comp_def case_prod_beta)
  with \<open>lru_wf c\<close> show ?thesis unfolding lru_wf_def using mset_eq_imp_distinct_iff by blast
qed

lemma lru_wf_lookup:
  assumes "lru_wf c"
  shows "map_of (lru_cache c) k = Some it \<longleftrightarrow> (\<exists>v. (it, k, v) \<in> set (lru_keys c))"
  by (simp add: map_of_eq_Some_iff[OF lru_wf_keys[OF assms]] lru_wf_set[OF assms])

lemma lru_wf_lookup_None:
  assumes "lru_wf c"
  shows "map_of (lru_cache c) k = None \<longleftrightarrow> k \<notin> fst ` set (pairs c)"
proof -
  have "map_of (lru_cache c) k = None \<longleftrightarrow> (\<forall>it. map_of (lru_cache c) k \<noteq> Some it)" by auto
  then show ?thesis by (force simp: lru_wf_lookup[OF assms] pairs_def)
qed

lemma lru_wf_size:
  assumes "lru_wf c"
  shows "lru_size c = length (pairs c)"
proof -
  have "mset (lru_cache c) = mset (map (\<lambda>(i, k, v). (k, i)) (lru_keys c))"
    using assms by (simp add: lru_wf_def)
  from mset_eq_length[OF this] show ?thesis by (simp add: lru_size_def pairs_def)
qed

lemma lru_wf_node_unique:
  assumes "lru_wf c" and "(i, k, v) \<in> set (lru_keys c)" and "(i', k', v') \<in> set (lru_keys c)"
  shows "i = i' \<longleftrightarrow> k = k'"
proof -
  have "inj_on fst (set (lru_keys c))" "inj_on (fst \<circ> snd) (set (lru_keys c))"
    using assms(1) by (simp_all add: lru_wf_def distinct_map)
  from inj_onD[OF this(1) _ assms(2,3)] inj_onD[OF this(2) _ assms(2,3)] show ?thesis by auto
qed

section \<open>Reference semantics\<close>

text \<open>A cache as a list of pairs without identities and map, and the calls on it.\<close>

definition use :: "'k \<Rightarrow> ('k \<times> 'v) list \<Rightarrow> ('k \<times> 'v) list" where
  "use k ps = filter (\<lambda>p. fst p = k) ps @ filter (\<lambda>p. fst p \<noteq> k) ps"

definition spec_prune :: "nat \<Rightarrow> nat \<Rightarrow> ('k \<times> 'v) list \<Rightarrow> ('k \<times> 'v) list" where
  "spec_prune m e ps = (if m = 0 \<or> length ps < m + e then ps else take m ps)"

definition spec_insert :: "nat \<Rightarrow> nat \<Rightarrow> 'k \<Rightarrow> 'v \<Rightarrow> ('k \<times> 'v) list \<Rightarrow> ('k \<times> 'v) list" where
  "spec_insert m e k v ps =
     (if k \<in> fst ` set ps then (k, v) # filter (\<lambda>p. fst p \<noteq> k) ps
      else spec_prune m e ((k, v) # ps))"

text \<open>With distinct keys, selecting by identity is selecting by key.\<close>

lemma lru_wf_filter:
  assumes "lru_wf c" and "(it, k, v) \<in> set (lru_keys c)"
  shows "map snd (filter (\<lambda>n. fst n = it) (lru_keys c)) = filter (\<lambda>p. fst p = k) (pairs c)"
    and "map snd (filter (\<lambda>n. fst n \<noteq> it) (lru_keys c)) = filter (\<lambda>p. fst p \<noteq> k) (pairs c)"
proof -
  have "fst n = it \<longleftrightarrow> fst (snd n) = k" if "n \<in> set (lru_keys c)" for n
    using lru_wf_node_unique[OF assms(1) _ assms(2), of "fst n" "fst (snd n)" "snd (snd n)"] that by simp
  then show "map snd (filter (\<lambda>n. fst n = it) (lru_keys c)) = filter (\<lambda>p. fst p = k) (pairs c)"
    and "map snd (filter (\<lambda>n. fst n \<noteq> it) (lru_keys c)) = filter (\<lambda>p. fst p \<noteq> k) (pairs c)"
    by (simp_all add: pairs_def filter_map comp_def cong: filter_cong)
qed

lemma lru_wf_splice:
  assumes "lru_wf c" and "mset ns = mset (lru_keys c)"
  shows "lru_wf (c\<lparr>lru_keys := ns\<rparr>)"
proof -
  have "distinct (map fst ns) = distinct (map fst (lru_keys c))"
    "distinct (map (fst \<circ> snd) ns) = distinct (map (fst \<circ> snd) (lru_keys c))"
    using assms(2) by (metis mset_eq_imp_distinct_iff mset_map)+
  with assms show ?thesis by (auto simp: lru_wf_def dest: mset_eq_setD)
qed

lemma mset_splice_front: "mset (splice_front it ns) = mset ns"
  by (induction ns) (auto simp: splice_front_def)

lemma tryGetRef_wf: "lru_wf c \<Longrightarrow> lru_wf (snd (tryGetRef k c))"
  by (simp add: tryGetRef_def lru_wf_splice mset_splice_front split: option.split)

lemma find_distinct:
  "distinct (map fst ns) \<Longrightarrow> (it, x) \<in> set ns \<Longrightarrow> find (\<lambda>n. fst n = it) ns = Some (it, x)"
  by (induction ns) (force+)

lemma tryGetRef_pairs:
  assumes "lru_wf c"
  shows "pairs (snd (tryGetRef k c)) = use k (pairs c)" "fst (tryGetRef k c) = map_of (pairs c) k"
proof -
  show "pairs (snd (tryGetRef k c)) = use k (pairs c)"
  proof (cases "map_of (lru_cache c) k")
    case None
    then have "k \<notin> fst ` set (pairs c)" using lru_wf_lookup_None[OF assms] by blast
    then have "filter (\<lambda>p. fst p = k) (pairs c) = []" "filter (\<lambda>p. fst p \<noteq> k) (pairs c) = pairs c"
      by (auto simp: filter_empty_conv filter_id_conv)
    with None show ?thesis by (simp add: tryGetRef_def use_def)
  next
    case (Some it)
    then obtain v where "(it, k, v) \<in> set (lru_keys c)" using lru_wf_lookup[OF assms] by blast
    from lru_wf_filter[OF assms this] Some show ?thesis
      by (simp add: tryGetRef_def use_def splice_front_def) (simp add: pairs_def)
  qed
  have dist: "distinct (map fst (pairs c))" using assms by (simp add: lru_wf_def pairs_def)
  show "fst (tryGetRef k c) = map_of (pairs c) k"
  proof (cases "map_of (lru_cache c) k")
    case None
    with lru_wf_lookup_None[OF assms, of k] have "map_of (pairs c) k = None" by (simp add: map_of_eq_None_iff)
    with None show ?thesis by (simp add: tryGetRef_def)
  next
    case (Some it)
    then obtain v where n: "(it, k, v) \<in> set (lru_keys c)" using lru_wf_lookup[OF assms] by blast
    then have "find (\<lambda>n. fst n = it) (lru_keys c) = Some (it, k, v)"
      using assms by (simp add: lru_wf_def find_distinct)
    moreover have "map_of (pairs c) k = Some v"
      using n dist by (force simp: pairs_def)
    ultimately show ?thesis using Some by (simp add: tryGetRef_def deref_def)
  qed
qed

text \<open>Removing the last node and its key is dropping the last pair.\<close>

lemma prune_step_wf:
  assumes "lru_wf c" and "lru_keys c \<noteq> []"
  shows "lru_wf (c\<lparr>lru_cache := AList.delete (fst (snd (last (lru_keys c)))) (lru_cache c),
      lru_keys := butlast (lru_keys c)\<rparr>)"
proof -
  obtain ns n where ns: "lru_keys c = ns @ [n]" using assms(2) by (metis append_butlast_last_id)
  obtain i k v where n: "n = (i, k, v)" by (cases n)
  have fresh_k: "k \<notin> (fst \<circ> snd) ` set ns" using assms(1) by (auto simp: lru_wf_def ns n)
  have "mset (AList.delete k (lru_cache c)) = filter_mset (\<lambda>p. fst p \<noteq> k) (mset (lru_cache c))"
    by (auto simp: AList.delete_eq case_prod_beta intro!: filter_mset_cong)
  also have "\<dots> = filter_mset (\<lambda>p. fst p \<noteq> k) (mset (map (\<lambda>(i, k, v). (k, i)) (ns @ [n])))"
    using assms(1) by (simp add: lru_wf_def ns)
  also have "\<dots> = mset (map (\<lambda>(i, k, v). (k, i)) ns)"
    using fresh_k by (auto simp: n filter_mset_eq_conv image_iff)
  finally show ?thesis using assms(1) by (auto simp: lru_wf_def ns n)
qed

lemma prune_loop_step:
  "lru_maxSize c < lru_size c \<Longrightarrow> lru_keys c \<noteq> [] \<Longrightarrow> prune_loop cnt c = prune_loop (cnt + 1)
     (c\<lparr>lru_cache := AList.delete (fst (snd (last (lru_keys c)))) (lru_cache c), lru_keys := butlast (lru_keys c)\<rparr>)"
  by (subst prune_loop.simps) simp

lemma prune_loop_stop:
  "\<not> (lru_maxSize c < lru_size c \<and> lru_keys c \<noteq> []) \<Longrightarrow> prune_loop cnt c = (cnt, c)"
  by (subst prune_loop.simps) auto

lemma prune_loop_pairs:
  assumes "lru_wf c"
  shows "lru_wf (snd (prune_loop cnt c)) \<and> pairs (snd (prune_loop cnt c)) = take (lru_maxSize c) (pairs c) \<and>
    fst (prune_loop cnt c) = cnt + (length (pairs c) - lru_maxSize c) \<and>
    lru_maxSize (snd (prune_loop cnt c)) = lru_maxSize c \<and>
    lru_elasticity (snd (prune_loop cnt c)) = lru_elasticity c"
  using assms
proof (induction cnt c rule: prune_loop.induct)
  case (1 cnt c)
  let ?c = "c\<lparr>lru_cache := AList.delete (fst (snd (last (lru_keys c)))) (lru_cache c),
      lru_keys := butlast (lru_keys c)\<rparr>"
  have size: "lru_size c = length (pairs c)" using lru_wf_size[OF "1.prems"] .
  show ?case
  proof (cases "lru_maxSize c < lru_size c \<and> lru_keys c \<noteq> []")
    case True
    have wf: "lru_wf ?c" using prune_step_wf "1.prems" True by blast
    have pairs: "pairs ?c = butlast (pairs c)" by (simp add: pairs_def map_butlast)
    show ?thesis
      using "1.IH"[OF True wf] True size by (auto simp: prune_loop_step pairs take_butlast)
  next
    case False
    then have "length (pairs c) \<le> lru_maxSize c" using size by (auto simp: pairs_def)
    with False "1.prems" show ?thesis by (simp add: prune_loop_stop)
  qed
qed

lemma filter_distinct_key:
  "distinct (map fst ps) \<Longrightarrow> (k, v) \<in> set ps \<Longrightarrow> filter (\<lambda>p. fst p = k) ps = [(k, v)]"
proof (induction ps)
  case (Cons p ps)
  show ?case
  proof (cases "fst p = k")
    case True
    then have "k \<notin> fst ` set ps" using Cons.prems(1) by auto
    then have "filter (\<lambda>p. fst p = k) ps = []" "(k, v) \<notin> set ps" by (force simp: filter_empty_conv)+
    with True Cons.prems(2) show ?thesis by auto
  qed (use Cons in auto)
qed simp

lemma set_value_fields [simp]:
  "map fst (set_value it v ns) = map fst ns"
  "map (fst \<circ> snd) (set_value it v ns) = map (fst \<circ> snd) ns"
  "map (\<lambda>(i, k, v). (k, i)) (set_value it v ns) = map (\<lambda>(i, k, v). (k, i)) ns"
  by (auto simp: set_value_def)

lemma filter_set_value [simp]:
  "filter (\<lambda>n. fst n \<noteq> it) (set_value it v ns) = filter (\<lambda>n. fst n \<noteq> it) ns"
  by (induction ns) (auto simp: set_value_def split: if_splits)

lemma set_value_wf: "lru_wf c \<Longrightarrow> lru_wf (c\<lparr>lru_keys := set_value it v (lru_keys c)\<rparr>)"
proof -
  assume wf: "lru_wf c"
  have "\<forall>n \<in> set (set_value it v (lru_keys c)). fst n < lru_fresh c"
    using wf by (auto simp: lru_wf_def set_value_def)
  moreover have "mset (map (\<lambda>(i, k, v). (k, i)) (set_value it v (lru_keys c))) = mset (lru_cache c)"
    using wf unfolding set_value_fields by (simp add: lru_wf_def)
  ultimately show ?thesis using wf by (simp add: lru_wf_def)
qed

lemma spec_insert_old:
  assumes "lru_wf c" and "map_of (lru_cache c) k = Some it"
  shows "lru_wf (lru_insert k v c)" "pairs (lru_insert k v c) = (k, v) # filter (\<lambda>p. fst p \<noteq> k) (pairs c)"
proof -
  let ?c = "c\<lparr>lru_keys := set_value it v (lru_keys c)\<rparr>"
  obtain w where n: "(it, k, w) \<in> set (lru_keys c)" using assms(2) lru_wf_lookup[OF assms(1)] by blast
  then have n': "(it, k, v) \<in> set (lru_keys ?c)" by (force simp: set_value_def)
  have wf: "lru_wf ?c" by (rule set_value_wf[OF assms(1)])
  have ins: "lru_insert k v c = ?c\<lparr>lru_keys := splice_front it (lru_keys ?c)\<rparr>"
    using assms(2) by (simp add: lru_insert_def)
  show "lru_wf (lru_insert k v c)" unfolding ins by (rule lru_wf_splice[OF wf mset_splice_front])
  have "filter (\<lambda>p. fst p \<noteq> k) (pairs ?c) = filter (\<lambda>p. fst p \<noteq> k) (pairs c)"
    unfolding lru_wf_filter(2)[OF wf n', symmetric] lru_wf_filter(2)[OF assms(1) n, symmetric] by simp
  moreover have "filter (\<lambda>p. fst p = k) (pairs ?c) = [(k, v)]"
    using wf n' by (intro filter_distinct_key) (force simp: lru_wf_def pairs_def)+
  ultimately show "pairs (lru_insert k v c) = (k, v) # filter (\<lambda>p. fst p \<noteq> k) (pairs c)"
    unfolding ins using lru_wf_filter[OF wf n'] by (simp add: splice_front_def) (simp add: pairs_def)
qed

lemma prune_pairs:
  assumes "lru_wf c"
  shows "lru_wf (snd (prune c))" "pairs (snd (prune c)) = spec_prune (lru_maxSize c) (lru_elasticity c) (pairs c)"
    "lru_maxSize (snd (prune c)) = lru_maxSize c" "lru_elasticity (snd (prune c)) = lru_elasticity c"
  using prune_loop_pairs[OF assms, of 0] assms by (auto simp: prune_def spec_prune_def lru_wf_size)

lemma update_fresh: "k \<notin> fst ` set al \<Longrightarrow> AList.update k v al = al @ [(k, v)]"
  by (induction al) auto

lemma spec_insert_new:
  assumes "lru_wf c" and "map_of (lru_cache c) k = None"
  shows "lru_wf (lru_insert k v c)"
    "pairs (lru_insert k v c) = spec_prune (lru_maxSize c) (lru_elasticity c) ((k, v) # pairs c)"
    "lru_maxSize (lru_insert k v c) = lru_maxSize c" "lru_elasticity (lru_insert k v c) = lru_elasticity c"
proof -
  let ?c = "c\<lparr>lru_keys := (lru_fresh c, k, v) # lru_keys c,
      lru_cache := AList.update k (lru_fresh c) (lru_cache c), lru_fresh := lru_fresh c + 1\<rparr>"
  have upd: "AList.update k (lru_fresh c) (lru_cache c) = lru_cache c @ [(k, lru_fresh c)]"
    using assms(2) by (simp add: map_of_eq_None_iff update_fresh)
  have k: "k \<notin> fst ` set (pairs c)" using lru_wf_lookup_None[OF assms(1)] assms(2) by blast
  have wf: "lru_wf ?c"
    using assms(1) k by (auto simp: lru_wf_def upd pairs_def image_image less_Suc_eq)
  show "lru_wf (lru_insert k v c)"
    "pairs (lru_insert k v c) = spec_prune (lru_maxSize c) (lru_elasticity c) ((k, v) # pairs c)"
    "lru_maxSize (lru_insert k v c) = lru_maxSize c" "lru_elasticity (lru_insert k v c) = lru_elasticity c"
    using prune_pairs[OF wf] assms(2) by (simp_all add: lru_insert_def pairs_def del: map_of_eq_None_iff)
qed

lemma lru_insert_pairs:
  assumes "lru_wf c"
  shows "lru_wf (lru_insert k v c) \<and>
    pairs (lru_insert k v c) = spec_insert (lru_maxSize c) (lru_elasticity c) k v (pairs c) \<and>
    lru_maxSize (lru_insert k v c) = lru_maxSize c \<and> lru_elasticity (lru_insert k v c) = lru_elasticity c"
proof (cases "map_of (lru_cache c) k")
  case None
  then have "k \<notin> fst ` set (pairs c)" using lru_wf_lookup_None[OF assms] by blast
  with spec_insert_new[OF assms None] show ?thesis by (simp add: spec_insert_def)
next
  case (Some it)
  then have "k \<in> fst ` set (pairs c)" using lru_wf_lookup_None[OF assms, of k] by auto
  moreover have "lru_maxSize (lru_insert k v c) = lru_maxSize c" "lru_elasticity (lru_insert k v c) = lru_elasticity c"
    using Some by (simp_all add: lru_insert_def)
  ultimately show ?thesis using spec_insert_old[OF assms Some] by (simp add: spec_insert_def)
qed

lemma lru_remove_pairs:
  assumes "lru_wf c"
  shows "lru_wf (snd (lru_remove k c)) \<and> pairs (snd (lru_remove k c)) = filter (\<lambda>p. fst p \<noteq> k) (pairs c) \<and>
    fst (lru_remove k c) = (k \<in> fst ` set (pairs c)) \<and>
    lru_maxSize (snd (lru_remove k c)) = lru_maxSize c \<and> lru_elasticity (snd (lru_remove k c)) = lru_elasticity c"
proof (cases "map_of (lru_cache c) k")
  case None
  then have k: "k \<notin> fst ` set (pairs c)" using lru_wf_lookup_None[OF assms] by blast
  moreover have "filter (\<lambda>p. fst p \<noteq> k) (pairs c) = pairs c" using k by (auto simp: filter_id_conv)
  moreover have "lru_remove k c = (False, c)" using None by (simp add: lru_remove_def del: map_of_eq_None_iff)
  ultimately show ?thesis using assms by simp
next
  case (Some it)
  then obtain v where n: "(it, k, v) \<in> set (lru_keys c)" using lru_wf_lookup[OF assms] by blast
  let ?ns = "filter (\<lambda>n. fst n \<noteq> it) (lru_keys c)"
  let ?c = "c\<lparr>lru_keys := ?ns, lru_cache := AList.delete k (lru_cache c)\<rparr>"
  have rem: "lru_remove k c = (True, ?c)" using Some by (simp add: lru_remove_def)
  have eq: "fst m \<noteq> it \<longleftrightarrow> fst (snd m) \<noteq> k" if "m \<in> set (lru_keys c)" for m
    using lru_wf_node_unique[OF assms _ n, of "fst m" "fst (snd m)" "snd (snd m)"] that by simp
  have "mset (AList.delete k (lru_cache c)) = filter_mset (\<lambda>p. fst p \<noteq> k) (mset (lru_cache c))"
    by (auto simp: AList.delete_eq case_prod_beta intro!: filter_mset_cong)
  also have "\<dots> = mset (filter (\<lambda>p. fst p \<noteq> k) (map (\<lambda>(i, k, v). (k, i)) (lru_keys c)))"
    using assms by (simp add: lru_wf_def)
  also have "filter (\<lambda>p. fst p \<noteq> k) (map (\<lambda>(i, k, v). (k, i)) (lru_keys c)) = map (\<lambda>(i, k, v). (k, i)) ?ns"
    using eq by (simp add: filter_map comp_def case_prod_beta cong: filter_cong)
  finally have "lru_wf ?c"
    using assms by (auto simp: lru_wf_def distinct_map_filter)
  moreover have "pairs ?c = filter (\<lambda>p. fst p \<noteq> k) (pairs c)"
    using lru_wf_filter(2)[OF assms n] by (simp add: pairs_def)
  moreover have "k \<in> fst ` set (pairs c)" using n by (force simp: pairs_def)
  ultimately show ?thesis by (simp add: rem)
qed

section \<open>Runs\<close>

text \<open>A client's calls, one after the other, and the answer of each.\<close>

datatype ('k, 'v) lru_op = Insert 'k 'v | TryGet 'k | Remove 'k | Clear

fun lru_step :: "('k, 'v) lru_op \<Rightarrow> ('k, 'v) lru \<Rightarrow> 'v option \<times> ('k, 'v) lru" where
  "lru_step (Insert k v) c = (None, lru_insert k v c)"
| "lru_step (TryGet k) c = tryGetRef k c"
| "lru_step (Remove k) c = (None, snd (lru_remove k c))"
| "lru_step Clear c = (None, lru_clear c)"

fun lru_run :: "('k, 'v) lru_op list \<Rightarrow> ('k, 'v) lru \<Rightarrow> 'v option list \<times> ('k, 'v) lru" where
  "lru_run [] c = ([], c)"
| "lru_run (op # ops) c = (let (r, c') = lru_step op c; (rs, c'') = lru_run ops c' in (r # rs, c''))"

text \<open>The same calls on the list of pairs.\<close>

fun spec_step :: "nat \<Rightarrow> nat \<Rightarrow> ('k, 'v) lru_op \<Rightarrow> ('k \<times> 'v) list \<Rightarrow> 'v option \<times> ('k \<times> 'v) list" where
  "spec_step m e (Insert k v) ps = (None, spec_insert m e k v ps)"
| "spec_step m e (TryGet k) ps = (map_of ps k, use k ps)"
| "spec_step m e (Remove k) ps = (None, filter (\<lambda>p. fst p \<noteq> k) ps)"
| "spec_step m e Clear ps = (None, [])"

fun spec_run :: "nat \<Rightarrow> nat \<Rightarrow> ('k, 'v) lru_op list \<Rightarrow> ('k \<times> 'v) list \<Rightarrow> 'v option list \<times> ('k \<times> 'v) list" where
  "spec_run m e [] ps = ([], ps)"
| "spec_run m e (op # ops) ps = (let (r, ps') = spec_step m e op ps; (rs, ps'') = spec_run m e ops ps' in (r # rs, ps''))"

lemma tryGetRef_sizes [simp]:
  "lru_maxSize (snd (tryGetRef k c)) = lru_maxSize c" "lru_elasticity (snd (tryGetRef k c)) = lru_elasticity c"
  by (simp_all add: tryGetRef_def split: option.split)

lemma lru_step_refines:
  assumes "lru_wf c"
  shows "lru_wf (snd (lru_step op c)) \<and>
    spec_step (lru_maxSize c) (lru_elasticity c) op (pairs c) = (fst (lru_step op c), pairs (snd (lru_step op c))) \<and>
    lru_maxSize (snd (lru_step op c)) = lru_maxSize c \<and> lru_elasticity (snd (lru_step op c)) = lru_elasticity c"
proof (cases op)
  case Clear
  then show ?thesis by (simp add: lru_clear_def lru_wf_def pairs_def)
qed (use assms lru_insert_pairs[OF assms] lru_remove_pairs[OF assms] tryGetRef_pairs[OF assms] tryGetRef_wf[OF assms] in simp_all)

lemma lru_run_refines:
  assumes "lru_wf c"
  shows "lru_wf (snd (lru_run ops c)) \<and>
    spec_run (lru_maxSize c) (lru_elasticity c) ops (pairs c) = (fst (lru_run ops c), pairs (snd (lru_run ops c)))"
  using assms
proof (induction ops arbitrary: c)
  case (Cons op ops)
  obtain r c' where s: "lru_step op c = (r, c')" by fastforce
  obtain rs c'' where t: "lru_run ops c' = (rs, c'')" by fastforce
  show ?case using lru_step_refines[OF Cons.prems, of op] Cons.IH[of c'] by (simp add: s t)
qed simp

text \<open>The list never reaches the hard limit once pruned, and no key occurs twice.\<close>

lemma spec_step_bound:
  assumes "m \<noteq> 0" and "length ps \<le> max m (m + e - 1)"
  shows "length (snd (spec_step m e op ps)) \<le> max m (m + e - 1)"
proof (cases op)
  case (Insert k v)
  show ?thesis
  proof (cases "k \<in> fst ` set ps")
    case True
    then have "length (filter (\<lambda>p. fst p \<noteq> k) ps) < length ps"
      by (auto intro!: length_filter_less)
    with True Insert assms show ?thesis by (simp add: spec_insert_def)
  next
    case False
    with Insert assms show ?thesis by (auto simp: spec_insert_def spec_prune_def)
  qed
next
  case (TryGet k)
  have "length (use k ps) = length ps"
    by (simp add: use_def sum_length_filter_compl)
  with TryGet assms show ?thesis by simp
next
  case (Remove k)
  with assms length_filter_le[of "\<lambda>p. fst p \<noteq> k" ps] show ?thesis by (simp del: length_filter_le)
qed simp

lemma spec_run_bound:
  assumes "m \<noteq> 0" and "length ps \<le> max m (m + e - 1)"
  shows "length (snd (spec_run m e ops ps)) \<le> max m (m + e - 1)"
  using assms(2)
proof (induction ops arbitrary: ps)
  case (Cons op ops)
  obtain r ps' where s: "spec_step m e op ps = (r, ps')" by fastforce
  obtain rs ps'' where t: "spec_run m e ops ps' = (rs, ps'')" by fastforce
  show ?case using spec_step_bound[OF assms(1) Cons.prems, of op] Cons.IH[of ps'] by (simp add: s t)
qed simp

text \<open>A cache built by any calls stays within its limit.\<close>

lemma lru_run_bound:
  assumes "m \<noteq> 0"
  shows "lru_size (snd (lru_run ops (LRUCache m e))) \<le> max m (m + e - 1)"
  using lru_run_refines[OF lru_wf_new, of ops m e] spec_run_bound[OF assms, of "[]" e ops]
  by (simp add: lru_wf_size)

end
