(* ===== verification/BlockStorage.thy ===== *)
theory BlockStorage
  imports BlockCodec Lru
begin

text \<open>
  The block storages of \<^verbatim>\<open>include/peer/storage/mr_block_storage.h\<close>. \<^verbatim>\<open>BlockStorageBase\<close> is a class template over
  the storage that derives from it: its functions take the three functions of the derived
  class as \<open>store_ops\<close>. The two storages are \<^verbatim>\<open>MRBlockStorage\<close>, a map per region that erases
  one old block per insertion, and \<^verbatim>\<open>BlockLRUCache\<close>. What the base relies on is the locale
  \<open>block_storage\<close>, which both satisfy.

  Calls on one storage are atomic: the maps and queues are concurrent and the futex of a
  region is one atomic word. A call that sleeps on a futex or a queue is \<open>Waiting\<close>.
\<close>

section \<open>The base class\<close>

record 'd store_ops =
  op_get :: "nat \<Rightarrow> 64 word \<Rightarrow> 'd \<Rightarrow> Block option \<times> 'd"
  op_emplace :: "nat \<Rightarrow> 64 word \<Rightarrow> Block \<Rightarrow> 'd \<Rightarrow> bool \<times> 'd"
  op_prune :: "nat \<Rightarrow> 64 word \<Rightarrow> 'd \<Rightarrow> 'd"

record 'd storage =
  newBlockFutexList :: "int list"
  subscriberList :: "(int \<times> Block) list list"
  derived :: 'd

datatype 'a wait_result = Ready 'a | Waiting | OutOfRange

definition BlockStorageBase :: "nat \<Rightarrow> 'd \<Rightarrow> 'd storage" where
  "BlockStorageBase regionCount d =
     \<lparr>newBlockFutexList = replicate regionCount (-1), subscriberList = [], derived = d\<rparr>"

text \<open>The conversion of a block number to \<^verbatim>\<open>int\<close> keeps its low 32 bits.\<close>

definition to_int :: "64 word \<Rightarrow> int" where
  "to_int b = sint (ucast b :: 32 word)"

text \<open>An index outside of the vector is undefined behaviour.\<close>

definition getMaxStoredBlockNumber :: "int \<Rightarrow> 'd storage \<Rightarrow> int option" where
  "getMaxStoredBlockNumber r s =
     (if 0 \<le> r \<and> r < int (length (newBlockFutexList s)) then Some (newBlockFutexList s ! nat r) else None)"

definition newSubscriber :: "'d storage \<Rightarrow> int \<times> 'd storage" where
  "newSubscriber s = (int (length (subscriberList s)), s\<lparr>subscriberList := subscriberList s @ [[]]\<rparr>)"

text \<open>\<^verbatim>\<open>SubscriberContent block{}\<close> is the pair of 0 and a null pointer.\<close>

definition subscriberWaitForBlock :: "int \<Rightarrow> int \<Rightarrow> bool \<Rightarrow> 'd storage \<Rightarrow> (int \<times> Block option) wait_result \<times> 'd storage" where
  "subscriberWaitForBlock i timeoutMs expired s =
     (if i \<ge> int (length (subscriberList s)) \<or> i < 0 then (Ready (-1, None), s)
      else case subscriberList s ! nat i of
          (r, b) # rest \<Rightarrow> (Ready (r, Some b), s\<lparr>subscriberList := (subscriberList s)[nat i := rest]\<rparr>)
        | [] \<Rightarrow> (if timeoutMs = 0 \<or> (0 < timeoutMs \<and> expired) then Ready (0, None) else Waiting, s))"

definition waitForBlock :: "'d store_ops \<Rightarrow> int \<Rightarrow> 64 word \<Rightarrow> int \<Rightarrow> bool \<Rightarrow> 'd storage \<Rightarrow> Block option wait_result \<times> 'd storage" where
  "waitForBlock ops r blockId timeoutMs expired s =
     (if int (length (newBlockFutexList s)) \<le> r then (Ready None, s)
      else if r < 0 then (OutOfRange, s)
      else if newBlockFutexList s ! nat r < to_int blockId
           then (if 0 < timeoutMs \<and> expired then Ready None else Waiting, s)
           else let (b, d) = op_get ops (nat r) blockId (derived s) in (Ready b, s\<lparr>derived := d\<rparr>))"

definition insertBlockAndNotify :: "'d store_ops \<Rightarrow> int \<Rightarrow> Block \<Rightarrow> 'd storage \<Rightarrow> 'd storage option" where
  "insertBlockAndNotify ops r block s =
     (if int (length (newBlockFutexList s)) \<le> r then Some s
      else if r < 0 then None
      else let s = s\<lparr>subscriberList := map (\<lambda>q. q @ [(r, block)]) (subscriberList s)\<rparr>;
               blockId = number (header block);
               (ok, d) = op_emplace ops (nat r) blockId block (derived s);
               s = s\<lparr>derived := d, newBlockFutexList := (newBlockFutexList s)[nat r := to_int blockId]\<rparr>
           in Some (s\<lparr>derived := op_prune ops (nat r) blockId (derived s)\<rparr>))"

section \<open>MRBlockStorage\<close>

record mr_store =
  mr_maxSize :: int
  mr_blocks :: "(64 word \<rightharpoonup> Block) list"

definition MRBlockStorage :: "nat \<Rightarrow> int \<Rightarrow> mr_store storage" where
  "MRBlockStorage regionCount maxSize =
     BlockStorageBase regionCount \<lparr>mr_maxSize = maxSize, mr_blocks = replicate regionCount Map.empty\<rparr>"

definition mr_getBlock :: "nat \<Rightarrow> 64 word \<Rightarrow> mr_store \<Rightarrow> Block option \<times> mr_store" where
  "mr_getBlock r b d = ((mr_blocks d ! r) b, d)"

text \<open>\<^verbatim>\<open>try_emplace\<close> keeps a block that is there.\<close>

definition mr_tryEmplaceBlock :: "nat \<Rightarrow> 64 word \<Rightarrow> Block \<Rightarrow> mr_store \<Rightarrow> bool \<times> mr_store" where
  "mr_tryEmplaceBlock r b x d =
     (let m = mr_blocks d ! r
      in (True, d\<lparr>mr_blocks := (mr_blocks d)[r := (case m b of None \<Rightarrow> m(b \<mapsto> x) | Some y \<Rightarrow> m)]\<rparr>))"

text \<open>The difference is computed on unsigned 64-bit numbers.\<close>

definition mr_pruneWithMaxBlockId :: "nat \<Rightarrow> 64 word \<Rightarrow> mr_store \<Rightarrow> mr_store" where
  "mr_pruneWithMaxBlockId r b d =
     d\<lparr>mr_blocks := (mr_blocks d)[r := (mr_blocks d ! r)(b - word_of_int (mr_maxSize d) := None)]\<rparr>"

definition mr_ops :: "mr_store store_ops" where
  "mr_ops = \<lparr>op_get = mr_getBlock, op_emplace = mr_tryEmplaceBlock, op_prune = mr_pruneWithMaxBlockId\<rparr>"

section \<open>BlockLRUCache\<close>

type_synonym lru_store = "(64 word, Block) lru list"

definition BlockLRUCache :: "nat \<Rightarrow> nat \<Rightarrow> lru_store storage" where
  "BlockLRUCache regionCount maxSize =
     BlockStorageBase regionCount (map (lru_init maxSize 10) (replicate regionCount (LRUCache 64 10)))"

definition lru_getBlock :: "nat \<Rightarrow> 64 word \<Rightarrow> lru_store \<Rightarrow> Block option \<times> lru_store" where
  "lru_getBlock r b d = (let (x, c) = tryGetCopy b (d ! r) in (x, d[r := c]))"

definition lru_tryEmplaceBlock :: "nat \<Rightarrow> 64 word \<Rightarrow> Block \<Rightarrow> lru_store \<Rightarrow> bool \<times> lru_store" where
  "lru_tryEmplaceBlock r b x d = (True, d[r := lru_insert b x (d ! r)])"

definition lru_pruneWithMaxBlockId :: "nat \<Rightarrow> 64 word \<Rightarrow> lru_store \<Rightarrow> lru_store" where
  "lru_pruneWithMaxBlockId r b d = d"

definition lru_ops :: "lru_store store_ops" where
  "lru_ops = \<lparr>op_get = lru_getBlock, op_emplace = lru_tryEmplaceBlock, op_prune = lru_pruneWithMaxBlockId\<rparr>"

section \<open>The contract of a storage\<close>

text \<open>
  \<open>inv n d\<close>: the storage \<open>d\<close> of \<open>n\<close> regions is well formed. A block emplaced where none was
  can be looked up, pruning after it does not remove it, and a lookup changes no answer.
\<close>

definition storage_ok :: "(nat \<Rightarrow> 'd \<Rightarrow> bool) \<Rightarrow> 'd storage \<Rightarrow> bool" where
  "storage_ok I s \<longleftrightarrow> I (length (newBlockFutexList s)) (derived s)"

locale block_storage =
  fixes get :: "nat \<Rightarrow> 64 word \<Rightarrow> 'd \<Rightarrow> Block option \<times> 'd"
    and emplace :: "nat \<Rightarrow> 64 word \<Rightarrow> Block \<Rightarrow> 'd \<Rightarrow> bool \<times> 'd"
    and prune_block :: "nat \<Rightarrow> 64 word \<Rightarrow> 'd \<Rightarrow> 'd"
    and inv :: "nat \<Rightarrow> 'd \<Rightarrow> bool"
  assumes get_inv: "inv n d \<Longrightarrow> r < n \<Longrightarrow> inv n (snd (get r b d))"
    and emplace_inv: "inv n d \<Longrightarrow> r < n \<Longrightarrow> inv n (snd (emplace r b x d))"
    and prune_inv: "inv n d \<Longrightarrow> r < n \<Longrightarrow> inv n (prune_block r b d)"
    and get_get: "inv n d \<Longrightarrow> r < n \<Longrightarrow> r' < n \<Longrightarrow> fst (get r' b' (snd (get r b d))) = fst (get r' b' d)"
    and get_emplace: "inv n d \<Longrightarrow> r < n \<Longrightarrow> fst (get r b d) = None \<Longrightarrow> fst (get r b (snd (emplace r b x d))) = Some x"
    and get_prune: "inv n d \<Longrightarrow> r < n \<Longrightarrow> fst (get r b (prune_block r b d)) = fst (get r b d)"
    and emplace_region: "inv n d \<Longrightarrow> r < n \<Longrightarrow> r' < n \<Longrightarrow> r \<noteq> r' \<Longrightarrow> fst (get r' b' (snd (emplace r b x d))) = fst (get r' b' d)"
    and prune_region: "inv n d \<Longrightarrow> r < n \<Longrightarrow> r' < n \<Longrightarrow> r \<noteq> r' \<Longrightarrow> fst (get r' b' (prune_block r b d)) = fst (get r' b' d)"
begin

abbreviation ops :: "'d store_ops" where
  "ops \<equiv> \<lparr>op_get = get, op_emplace = emplace, op_prune = prune_block\<rparr>"

text \<open>An inserted block is there for everyone who asks for it, and every subscriber gets it last.\<close>

lemma inserted_block:
  assumes ok: "storage_ok inv s" and r: "0 \<le> r" "r < int (length (newBlockFutexList s))"
    and fresh: "fst (get (nat r) (number (header x)) (derived s)) = None"
  shows "\<exists>s'. insertBlockAndNotify ops r x s = Some s' \<and> storage_ok inv s' \<and>
    fst (waitForBlock ops r (number (header x)) t e s') = Ready (Some x) \<and>
    subscriberList s' = map (\<lambda>q. q @ [(r, x)]) (subscriberList s) \<and>
    getMaxStoredBlockNumber r s' = Some (to_int (number (header x)))"
proof -
  let ?b = "number (header x)" and ?n = "length (newBlockFutexList s)"
  let ?d = "snd (emplace (nat r) ?b x (derived s))"
  have n: "nat r < ?n" using r by simp
  have i: "inv ?n (derived s)" using ok by (simp add: storage_ok_def)
  have i1: "inv ?n ?d" by (rule emplace_inv[OF i n])
  have i2: "inv ?n (prune_block (nat r) ?b ?d)" by (rule prune_inv[OF i1 n])
  have g: "fst (get (nat r) ?b (prune_block (nat r) ?b ?d)) = Some x"
    using get_prune[OF i1 n] get_emplace[OF i n fresh] by simp
  show ?thesis using r n i2 g
    by (simp add: insertBlockAndNotify_def waitForBlock_def storage_ok_def getMaxStoredBlockNumber_def case_prod_beta Let_def)
qed

text \<open>Insertion into one region leaves the lookups of the others.\<close>

lemma insert_other_region:
  assumes ok: "storage_ok inv s" and r: "0 \<le> r" "r < int (length (newBlockFutexList s))"
    and r': "0 \<le> r'" "r' < int (length (newBlockFutexList s))" "r \<noteq> r'"
    and ins: "insertBlockAndNotify ops r x s = Some s'"
  shows "fst (waitForBlock ops r' b t e s') = fst (waitForBlock ops r' b t e s)"
proof -
  let ?d = "snd (emplace (nat r) (number (header x)) x (derived s))"
  have n: "nat r < length (newBlockFutexList s)" "nat r' < length (newBlockFutexList s)" "nat r \<noteq> nat r'"
    using r r' by simp_all
  have i: "inv (length (newBlockFutexList s)) (derived s)" using ok by (simp add: storage_ok_def)
  have "fst (get (nat r') b (prune_block (nat r) (number (header x)) ?d)) = fst (get (nat r') b (derived s))"
    using prune_region[OF emplace_inv[OF i n(1)] n] emplace_region[OF i n] by simp
  then show ?thesis using ins r r' n
    by (auto simp: insertBlockAndNotify_def waitForBlock_def case_prod_beta Let_def)
qed

end

section \<open>Both storages keep the contract\<close>

definition mr_inv :: "nat \<Rightarrow> mr_store \<Rightarrow> bool" where
  "mr_inv n d \<longleftrightarrow> length (mr_blocks d) = n \<and> (word_of_int (mr_maxSize d) :: 64 word) \<noteq> 0"

interpretation mr: block_storage mr_getBlock mr_tryEmplaceBlock mr_pruneWithMaxBlockId mr_inv
  by unfold_locales
    (auto simp: mr_inv_def mr_getBlock_def mr_tryEmplaceBlock_def mr_pruneWithMaxBlockId_def Let_def split: option.splits)

definition lru_inv :: "nat \<Rightarrow> lru_store \<Rightarrow> bool" where
  "lru_inv n d \<longleftrightarrow> length d = n \<and> (\<forall>c \<in> set d. lru_wf c \<and> 0 < lru_maxSize c)"

lemma lru_inv_update:
  assumes "lru_inv n d" and "r < n" and "lru_wf c" and "0 < lru_maxSize c"
  shows "lru_inv n (d[r := c])"
  using assms by (auto simp: lru_inv_def dest: subsetD[OF set_update_subset_insert])

lemma lru_invD: "lru_inv n d \<Longrightarrow> r < n \<Longrightarrow> lru_wf (d ! r) \<and> 0 < lru_maxSize (d ! r) \<and> r < length d"
  by (auto simp: lru_inv_def)

lemma lookup_use:
  assumes "distinct (map fst ps)"
  shows "map_of (use k ps) k' = map_of ps k'"
proof -
  have "mset (use k ps) = mset ps" by (induction ps) (auto simp: use_def)
  then have "set (use k ps) = set ps" "mset (map fst (use k ps)) = mset (map fst ps)"
    by (auto dest: mset_eq_setD)
  moreover from this(2) assms have "distinct (map fst (use k ps))" using mset_eq_imp_distinct_iff by blast
  ultimately show ?thesis using map_of_inject_set[of "use k ps" ps] assms by simp
qed

lemma lru_keys_distinct: "lru_wf c \<Longrightarrow> distinct (map fst (pairs c))"
  by (simp add: lru_wf_def pairs_def)

text \<open>A lookup in a region is a lookup in the pairs of its cache.\<close>

lemma lru_getBlock_pairs:
  assumes "lru_wf (d ! r)"
  shows "fst (lru_getBlock r b d) = map_of (pairs (d ! r)) b"
  using tryGetRef_pairs[OF assms] by (simp add: lru_getBlock_def tryGetCopy_def case_prod_beta)

lemma lru_lookup_after:
  assumes "lru_inv n d" and "r < n" and "r' < n" and "lru_wf c" and "r = r' \<Longrightarrow> map_of (pairs c) b = map_of (pairs (d ! r)) b"
  shows "fst (lru_getBlock r' b (d[r := c])) = fst (lru_getBlock r' b d)"
  using assms lru_invD[OF assms(1)] by (cases "r = r'") (simp_all add: lru_getBlock_pairs)

lemma spec_insert_lookup:
  assumes "0 < m" and "k \<notin> fst ` set ps"
  shows "map_of (spec_insert m e k v ps) k = Some v"
  using assms by (cases m) (auto simp: spec_insert_def spec_prune_def)

interpretation bl: block_storage lru_getBlock lru_tryEmplaceBlock lru_pruneWithMaxBlockId lru_inv
proof
  fix n d r b
  assume i: "lru_inv n d" and r: "r < n"
  note wf = lru_invD[OF i r]
  let ?c = "snd (tryGetCopy b (d ! r))"
  have c: "lru_wf ?c" "0 < lru_maxSize ?c" "pairs ?c = use b (pairs (d ! r))"
    using wf tryGetRef_wf tryGetRef_pairs by (auto simp: tryGetCopy_def)
  have get: "snd (lru_getBlock r b d) = d[r := ?c]" by (simp add: lru_getBlock_def case_prod_beta)
  show "lru_inv n (snd (lru_getBlock r b d))" unfolding get by (rule lru_inv_update[OF i r c(1,2)])
  show "fst (lru_getBlock r' b' (snd (lru_getBlock r b d))) = fst (lru_getBlock r' b' d)" if "r' < n" for r' b'
    unfolding get using i r that c(1)
    by (rule lru_lookup_after) (unfold c(3), use wf in \<open>simp add: lookup_use lru_keys_distinct\<close>)
  fix x
  let ?e = "lru_insert b x (d ! r)"
  have e: "lru_wf ?e" "0 < lru_maxSize ?e"
    "pairs ?e = spec_insert (lru_maxSize (d ! r)) (lru_elasticity (d ! r)) b x (pairs (d ! r))"
    using wf lru_insert_pairs[of "d ! r" b x] by auto
  have emplace: "snd (lru_tryEmplaceBlock r b x d) = d[r := ?e]" by (simp add: lru_tryEmplaceBlock_def)
  show "lru_inv n (snd (lru_tryEmplaceBlock r b x d))" unfolding emplace by (rule lru_inv_update[OF i r e(1,2)])
  show "fst (lru_getBlock r b (snd (lru_tryEmplaceBlock r b x d))) = Some x" if "fst (lru_getBlock r b d) = None"
  proof -
    have "b \<notin> fst ` set (pairs (d ! r))" using that wf by (simp add: lru_getBlock_pairs map_of_eq_None_iff)
    then show ?thesis unfolding emplace using wf e by (simp add: lru_getBlock_pairs spec_insert_lookup)
  qed
  show "fst (lru_getBlock r' b' (snd (lru_tryEmplaceBlock r b x d))) = fst (lru_getBlock r' b' d)"
    if "r' < n" "r \<noteq> r'" for r' b'
    unfolding emplace using i r that(1) e(1) by (rule lru_lookup_after) (use that in simp)
qed (simp_all add: lru_pruneWithMaxBlockId_def)

section \<open>What is kept\<close>

text \<open>
  \<^verbatim>\<open>MRBlockStorage\<close> after the blocks 0, ..., n - 1 of a region: the last \<open>maxSize\<close> of them. For
  the first blocks the erased number wraps around and is not the number of a stored block.
\<close>

fun mr_insert_all :: "nat \<Rightarrow> Block list \<Rightarrow> mr_store \<Rightarrow> mr_store" where
  "mr_insert_all r [] d = d"
| "mr_insert_all r (x # xs) d =
     mr_insert_all r xs (mr_pruneWithMaxBlockId r (number (header x)) (snd (mr_tryEmplaceBlock r (number (header x)) x d)))"

lemma mr_insert_all_snoc:
  "mr_insert_all r (xs @ [x]) d =
     mr_pruneWithMaxBlockId r (number (header x)) (snd (mr_tryEmplaceBlock r (number (header x)) x (mr_insert_all r xs d)))"
  by (induction xs arbitrary: d) simp_all

lemma mr_insert_all_fields:
  "mr_maxSize (mr_insert_all r xs d) = mr_maxSize d \<and> length (mr_blocks (mr_insert_all r xs d)) = length (mr_blocks d)"
  by (induction xs arbitrary: d) (simp_all add: mr_pruneWithMaxBlockId_def mr_tryEmplaceBlock_def Let_def)

definition storage_limit :: nat where
  "storage_limit = 2 ^ 31"

lemma of_nat_small: "a < storage_limit \<Longrightarrow> b < storage_limit \<Longrightarrow> (of_nat a :: 64 word) = of_nat b \<longleftrightarrow> a = b"
  by (auto simp: storage_limit_def word_of_nat_eq_iff take_bit_nat_eq_self)

lemma of_nat_minus:
  assumes "k < storage_limit" and "a < storage_limit" and "m < storage_limit" and "0 < m"
  shows "(of_nat k :: 64 word) = of_nat a - of_nat m \<longleftrightarrow> k + m = a"
proof -
  have "(of_nat k :: 64 word) = of_nat a - of_nat m \<longleftrightarrow> (of_nat (k + m) :: 64 word) = of_nat a"
    by (simp add: eq_diff_eq)
  also have "\<dots> \<longleftrightarrow> k + m = a"
    using assms by (auto simp: storage_limit_def word_of_nat_eq_iff take_bit_nat_eq_self simp del: of_nat_add)
  finally show ?thesis .
qed

lemma mr_window:
  assumes num: "\<forall>i < length xs. number (header (xs ! i)) = of_nat i" and len: "length xs \<le> storage_limit"
    and m: "0 < m" "m < storage_limit" "mr_maxSize d = int m"
    and r: "r < length (mr_blocks d)" "mr_blocks d ! r = Map.empty" and "k < storage_limit"
  shows "fst (mr_getBlock r (of_nat k) (mr_insert_all r xs d)) =
    (if k < length xs \<and> length xs \<le> k + m then Some (xs ! k) else None)"
  using num len assms(8)
proof (induction xs arbitrary: k rule: rev_induct)
  case Nil
  then show ?case using r by (simp add: mr_getBlock_def)
next
  case (snoc x xs)
  let ?d = "mr_insert_all r xs d" and ?n = "length xs"
  let ?m = "mr_blocks ?d ! r"
  have x: "number (header x) = of_nat ?n" using snoc.prems(1)[rule_format, of ?n] by simp
  have "\<forall>i < ?n. number (header (xs ! i)) = of_nat i"
    using snoc.prems(1) by (metis length_append_singleton less_SucI nth_append)
  then have IH: "?m (of_nat j) = (if j < ?n \<and> ?n \<le> j + m then Some (xs ! j) else None)" if "j < storage_limit" for j
    using snoc.IH[of j] snoc.prems(2) that by (simp add: mr_getBlock_def)
  have n: "?n < storage_limit" using snoc.prems(2) by simp
  have fields: "mr_maxSize ?d = int m" "r < length (mr_blocks ?d)"
    using mr_insert_all_fields[of r xs d] m(3) r(1) by simp_all
  have "?m (of_nat ?n) = None" using IH[OF n] by simp
  then have "mr_blocks (mr_insert_all r (xs @ [x]) d) ! r = (?m(of_nat ?n \<mapsto> x))(of_nat ?n - of_nat m := None)"
    using fields by (simp add: mr_insert_all_snoc mr_pruneWithMaxBlockId_def mr_tryEmplaceBlock_def Let_def x)
  then have "fst (mr_getBlock r (of_nat k) (mr_insert_all r (xs @ [x]) d)) =
      (if k + m = ?n then None else if k = ?n then Some x else ?m (of_nat k))"
    using of_nat_minus[OF snoc.prems(3) n m(2,1)] of_nat_small[OF snoc.prems(3) n] by (simp add: mr_getBlock_def)
  then show ?case unfolding IH[OF snoc.prems(3)] using m(1) by (auto simp: nth_append)
qed

end
