(* ===== verification/Replication.thy ===== *)
theory Replication
  imports FragmentSafe BlockStorage
begin

text \<open>
  Sending blocks to another region and receiving them,
  \<^verbatim>\<open>include/peer/replicator/v2/block_sender.h\<close>, \<^verbatim>\<open>block_receiver.h\<close> and \<^verbatim>\<open>mr_block_receiver.h\<close>, and the pool of
  contexts of \<^verbatim>\<open>BlockFragmentGenerator\<close>. The sockets are the lists of the messages that they
  deliver; keys and signatures are parameters. A thread that waits on a semaphore no one will
  signal is a value of its own.
\<close>

section \<open>The pool of contexts\<close>

text \<open>The dimensions of \<^verbatim>\<open>ecMap\<close> and, for every pair of shard counts, how many erasure code instances are free.\<close>

record generator =
  ecMap_x :: int
  ecMap_y :: int
  semaMap :: "int \<times> int \<Rightarrow> int"

definition BlockFragmentGenerator :: "bfg_config list \<Rightarrow> generator option" where
  "BlockFragmentGenerator cfgList =
     (if \<exists>cfg \<in> set cfgList. \<not> (dataShardCnt cfg > 0 \<and> parityShardCnt cfg \<ge> 0) then None
      else Some \<lparr>ecMap_x = fold (\<lambda>cfg m. if dataShardCnt cfg > m then dataShardCnt cfg else m) cfgList 0 + 1,
        ecMap_y = fold (\<lambda>cfg m. if parityShardCnt cfg > m then parityShardCnt cfg else m) cfgList 0 + 1,
        semaMap = fold (\<lambda>cfg m. m((dataShardCnt cfg, parityShardCnt cfg) :=
            m (dataShardCnt cfg, parityShardCnt cfg) + instanceCount cfg * bfg_concurrency cfg)) cfgList (\<lambda>xy. 0)\<rparr>)"

datatype acquired = NoContext | Blocks | Context fragment_context generator

definition getEmptyContext :: "generator \<Rightarrow> bfg_config \<Rightarrow> acquired" where
  "getEmptyContext bfg cfg =
     (let xy = (dataShardCnt cfg, parityShardCnt cfg)
      in if ecMap_x bfg < dataShardCnt cfg + 1 \<or> ecMap_y bfg < parityShardCnt cfg + 1 then NoContext
         else if semaMap bfg xy < instanceCount cfg then Blocks
         else Context (new_context cfg) (bfg\<lparr>semaMap := (semaMap bfg)(xy := semaMap bfg xy - instanceCount cfg)\<rparr>))"

definition freeContext :: "fragment_context \<Rightarrow> generator \<Rightarrow> generator" where
  "freeContext ctx bfg =
     (let cfg = ecConfig ctx; xy = (dataShardCnt cfg, parityShardCnt cfg)
      in bfg\<lparr>semaMap := (semaMap bfg)(xy := semaMap bfg xy + instanceCount cfg)\<rparr>)"

section \<open>Sending\<close>

record rfs =
  rfs_start :: int
  rfs_end :: int

definition NewRFS :: "bool \<Rightarrow> int \<Rightarrow> int \<Rightarrow> rfs option" where
  "NewRFS haveSender start stop =
     (if start \<ge> stop \<or> stop \<le> 0 \<or> \<not> haveSender then None else Some \<lparr>rfs_start = start, rfs_end = stop\<rparr>)"

text \<open>The senders of one remote region; \<open>connect\<close> says whether a client for a server could be created.\<close>

fun NewBlockSender :: "(int \<Rightarrow> bool) \<Rightarrow> FragmentConfig list \<Rightarrow> rfs list option" where
  "NewBlockSender connect [] = Some []"
| "NewBlockSender connect (c # cs) =
     (if \<not> connect (fc_remoteId c) then None
      else case NewRFS True (startFragmentId c) (endFragmentId c) of
             None \<Rightarrow> None
           | Some r \<Rightarrow> map_option (\<lambda>rs. r # rs) (NewBlockSender connect cs))"

text \<open>The message that goes to the remote server, or that none is sent.\<close>

definition encodeAndSendFragment ::
  "prims \<Rightarrow> fragment_context \<Rightarrow> 64 word \<Rightarrow> nat \<Rightarrow> SignaturePair list \<Rightarrow> rfs \<Rightarrow> context_error + string option" where
  "encodeAndSendFragment z ctx blockNumber blockSize sigs r =
     (case ctx_mt ctx of
        None \<Rightarrow> Inl Undefined
      | Some mt \<Rightarrow>
          let localFragment = \<lparr>blockSignatures = sigs, ebf_blockNumber = blockNumber, ebf_root = Root mt, ebf_size = of_nat blockSize,
                ebf_start = word_of_int (rfs_start r), ebf_end = word_of_int (rfs_end r), encodeMessage = []\<rparr>
          in case EBF_serializeToString z localFragment [] 0 False of
               (False, raw) \<Rightarrow> Inr None
             | (True, raw) \<Rightarrow>
                 (case serializeFragments z ctx (sint (ebf_start localFragment)) (sint (ebf_end localFragment)) raw (length raw) of
                    Inl e \<Rightarrow> Inl e
                  | Inr (False, raw) \<Rightarrow> Inr None
                  | Inr (True, raw) \<Rightarrow> Inr (Some raw)))"

fun send_fragments ::
  "prims \<Rightarrow> fragment_context \<Rightarrow> 64 word \<Rightarrow> nat \<Rightarrow> SignaturePair list \<Rightarrow> rfs list \<Rightarrow> context_error + (bool \<times> string list)" where
  "send_fragments z ctx n sz sigs [] = Inr (True, [])"
| "send_fragments z ctx n sz sigs (r # rs) =
     (case encodeAndSendFragment z ctx n sz sigs r of
        Inl e \<Rightarrow> Inl e
      | Inr None \<Rightarrow> Inr (False, [])
      | Inr (Some m) \<Rightarrow> (case send_fragments z ctx n sz sigs rs of Inl e \<Rightarrow> Inl e | Inr (ok, ms) \<Rightarrow> Inr (ok, m # ms)))"

text \<open>
  \<open>raw\<close> is the serialized message the block carries. A context whose shard counts the generator does not
  know is null; \<^const>\<open>None\<close> is a wait for an instance of the erasure code. The context is freed at the end.
\<close>

definition encodeAndSendBlock ::
  "prims \<Rightarrow> string \<Rightarrow> (string \<Rightarrow> string \<Rightarrow> string) \<Rightarrow> (string \<Rightarrow> string option) \<Rightarrow> grc \<Rightarrow> generator \<Rightarrow> bfg_config \<Rightarrow> rfs list \<Rightarrow>
   Block \<Rightarrow> string \<Rightarrow> (context_error + (bool \<times> string list)) option" where
  "encodeAndSendBlock z zero hash sha256 g bfg cfg senders block raw =
     (case getEmptyContext bfg cfg of
        NoContext \<Rightarrow> Some (Inl Undefined)
      | Blocks \<Rightarrow> None
      | Context ctx bfg \<Rightarrow> Some
          (case initWithMessage zero hash sha256 g raw ctx of
             Inl e \<Rightarrow> Inl e
           | Inr (False, ctx) \<Rightarrow> Inr (False, [])
           | Inr (True, ctx) \<Rightarrow>
               send_fragments z ctx (number (header block)) (length raw) (consensusSignatures (metadata block)) senders))"

section \<open>The ring buffer\<close>

definition ring_cap :: "64 word" where
  "ring_cap = 256"

record 'a ring =
  ring_low :: "64 word"
  ring_data :: "'a list list"

definition new_ring :: "'a ring" where
  "new_ring = \<lparr>ring_low = 0, ring_data = replicate 256 []\<rparr>"

definition ring_slot :: "64 word \<Rightarrow> nat" where
  "ring_slot n = unat (and n (ring_cap - 1))"

definition ring_push :: "64 word \<Rightarrow> 'a \<Rightarrow> 'a ring \<Rightarrow> bool \<times> 'a ring" where
  "ring_push blockNumber element r =
     (if blockNumber \<ge> ring_low r + ring_cap then (False, r)
      else if blockNumber < ring_low r then (True, r)
      else (True, r\<lparr>ring_data := (ring_data r)[ring_slot blockNumber := ring_data r ! ring_slot blockNumber @ [element]]\<rparr>))"

text \<open>\<^const>\<open>None\<close> is a failed \<^verbatim>\<open>CHECK\<close>.\<close>

definition ring_get :: "64 word \<Rightarrow> 'a ring \<Rightarrow> 'a list option" where
  "ring_get blockNumber r =
     (if blockNumber \<ge> ring_low r + ring_cap \<or> blockNumber < ring_low r then None else Some (ring_data r ! ring_slot blockNumber))"

definition clearBelow :: "bool \<Rightarrow> 64 word \<Rightarrow> 'a ring \<Rightarrow> 'a ring option" where
  "clearBelow checkLow b r = (if checkLow \<and> ring_low r + 1 \<noteq> b then None else Some (r\<lparr>ring_low := b\<rparr>))"

definition addMessageToCache :: "prims \<Rightarrow> string \<Rightarrow> EncodeBlockFragment ring \<Rightarrow> bool \<times> EncodeBlockFragment ring" where
  "addMessageToCache z raw r =
     (case EBF_deserializeFromString z raw 0 of
        None \<Rightarrow> (False, r)
      | Some ebf \<Rightarrow> (True, snd (ring_push (ebf_blockNumber ebf) ebf r)))"

section \<open>Putting blocks together\<close>

record regenerate_options =
  currentShardCnt :: nat
  shardsValidated :: "bool list"
  ro_context :: "fragment_context option"

record 's receiver =
  haveShard :: "string \<rightharpoonup> regenerate_options"
  blockMap :: "string \<rightharpoonup> EncodeBlockFragment list"
  rc_bfg :: generator
  rc_store :: 's

datatype 's gen_result = Again "'s receiver" | Returns string "'s receiver" | Stuck | Crashes

text \<open>The first message for a root, and every later one while no shard is validated, gets an empty context.\<close>

definition open_root :: "bfg_config \<Rightarrow> string \<Rightarrow> 's receiver \<Rightarrow> (regenerate_options \<times> 's receiver) option" where
  "open_root cfg root s =
     (let totalShard = nat (dataShardCnt cfg + parityShardCnt cfg);
          val = (case haveShard s root of
                   None \<Rightarrow> \<lparr>currentShardCnt = 0, shardsValidated = [], ro_context = None\<rparr>
                 | Some val \<Rightarrow> val)
      in if currentShardCnt val = 0
         then let val = val\<lparr>shardsValidated := take totalShard (shardsValidated val) @ replicate (totalShard - length (shardsValidated val)) False\<rparr>;
                  release = (\<lambda>bfg. case ro_context val of None \<Rightarrow> bfg | Some old \<Rightarrow> freeContext old bfg)
              in case getEmptyContext (rc_bfg s) cfg of
                   NoContext \<Rightarrow> Some (val\<lparr>ro_context := None\<rparr>, s\<lparr>rc_bfg := release (rc_bfg s)\<rparr>)
                 | Blocks \<Rightarrow> None
                 | Context ctx bfg \<Rightarrow> Some (val\<lparr>ro_context := Some ctx\<rparr>, s\<lparr>rc_bfg := release bfg\<rparr>)
         else Some (val, s))"

definition mark_shards :: "nat list \<Rightarrow> bool list \<times> nat \<Rightarrow> bool list \<times> nat" where
  "mark_shards is s = fold (\<lambda>i (v, n). if \<not> v ! i then (v[i := True], n + 1) else (v, n)) is s"

text \<open>
  The body of the loop of \<^verbatim>\<open>genBlockFromQueue\<close>. The callback takes the message by reference and may move it
  out; \<open>cb\<close> returns what is left of it. The size is converted to \<^verbatim>\<open>int\<close>.
\<close>

definition gen_step ::
  "prims \<Rightarrow> (string \<Rightarrow> string \<Rightarrow> string) \<Rightarrow> (string \<Rightarrow> string option) \<Rightarrow> grc \<Rightarrow> bfg_config \<Rightarrow>
   (string \<Rightarrow> EncodeBlockFragment list \<Rightarrow> 's \<Rightarrow> (bool \<times> string \<times> 's) option) \<Rightarrow> 64 word \<Rightarrow>
   EncodeBlockFragment \<Rightarrow> 's receiver \<Rightarrow> 's gen_result" where
  "gen_step z hash sha256 g cfg cb blockNumber ebf s =
     (let totalShard = nat (dataShardCnt cfg + parityShardCnt cfg); root = ebf_root ebf
      in if ebf_blockNumber ebf \<noteq> blockNumber then Again s
         else case open_root cfg root s of
           None \<Rightarrow> Stuck
         | Some (val, s) \<Rightarrow>
             let s = s\<lparr>haveShard := (haveShard s)(root \<mapsto> val)\<rparr>
             in if totalShard < unat (ebf_start ebf + 1) \<or> totalShard < unat (ebf_end ebf) \<or> ebf_start ebf \<ge> ebf_end ebf then Again s
                else case ro_context val of
                  None \<Rightarrow> Crashes
                | Some ctx \<Rightarrow>
                    case validateAndDeserializeFragments z hash sha256 root (encodeMessage ebf) (sint (ebf_start ebf)) (sint (ebf_end ebf)) ctx of
                      Inl e \<Rightarrow> Crashes
                    | Inr (False, ctx) \<Rightarrow> Again (s\<lparr>haveShard := (haveShard s)(root \<mapsto> val\<lparr>ro_context := Some ctx\<rparr>)\<rparr>)
                    | Inr (True, ctx) \<Rightarrow>
                        let peers = (case blockMap s root of None \<Rightarrow> [] | Some ps \<Rightarrow> ps) @ [ebf];
                            (v, n) = mark_shards [unat (ebf_start ebf)..<unat (ebf_end ebf)] (shardsValidated val, currentShardCnt val);
                            val = val\<lparr>ro_context := Some ctx, shardsValidated := v, currentShardCnt := n\<rparr>;
                            s = s\<lparr>blockMap := (blockMap s)(root \<mapsto> peers), haveShard := (haveShard s)(root \<mapsto> val)\<rparr>
                        in if n < nat (dataShardCnt cfg) then Again s
                           else case regenerateMessage g ctx (to_int (ebf_size ebf)) [] of
                                  Inl e \<Rightarrow> Crashes
                                | Inr (False, msg) \<Rightarrow> Again s
                                | Inr (True, msg) \<Rightarrow>
                                    (case cb msg peers (rc_store s) of
                                       None \<Rightarrow> Crashes
                                     | Some (ok, msg, st) \<Rightarrow>
                                         let s = s\<lparr>blockMap := (blockMap s)(root := None), rc_store := st\<rparr>
                                         in if ok then Returns msg s else Again s))"

text \<open>The messages are those that the queue delivers; after the last one the loop waits. The rest of the queue stays.\<close>

fun genBlockFromQueue ::
  "prims \<Rightarrow> (string \<Rightarrow> string \<Rightarrow> string) \<Rightarrow> (string \<Rightarrow> string option) \<Rightarrow> grc \<Rightarrow> bfg_config \<Rightarrow>
   (string \<Rightarrow> EncodeBlockFragment list \<Rightarrow> 's \<Rightarrow> (bool \<times> string \<times> 's) option) \<Rightarrow> 64 word \<Rightarrow>
   EncodeBlockFragment list \<Rightarrow> 's receiver \<Rightarrow> 's gen_result \<times> EncodeBlockFragment list" where
  "genBlockFromQueue z hash sha256 g cfg cb blockNumber [] s = (Again s, [])"
| "genBlockFromQueue z hash sha256 g cfg cb blockNumber (ebf # q) s =
     (case gen_step z hash sha256 g cfg cb blockNumber ebf s of
        Again s \<Rightarrow> genBlockFromQueue z hash sha256 g cfg cb blockNumber q s
      | r \<Rightarrow> (r, q))"

definition new_receiver :: "generator \<Rightarrow> 's \<Rightarrow> 's receiver" where
  "new_receiver bfg st = \<lparr>haveShard = Map.empty, blockMap = Map.empty, rc_bfg = bfg, rc_store = st\<rparr>"

text \<open>\<^verbatim>\<open>passiveGet\<close>: the block, or that there is none yet; the contexts of the call are freed at its end.\<close>

datatype 's get_result = Got string "EncodeBlockFragment ring" 's | Waits "EncodeBlockFragment ring" 's | Hangs | Aborts

definition passiveGet ::
  "prims \<Rightarrow> (string \<Rightarrow> string \<Rightarrow> string) \<Rightarrow> (string \<Rightarrow> string option) \<Rightarrow> grc \<Rightarrow> bfg_config \<Rightarrow>
   (string \<Rightarrow> EncodeBlockFragment list \<Rightarrow> 's \<Rightarrow> (bool \<times> string \<times> 's) option) \<Rightarrow> generator \<Rightarrow> 64 word \<Rightarrow>
   EncodeBlockFragment ring \<Rightarrow> 's \<Rightarrow> 's get_result" where
  "passiveGet z hash sha256 g cfg cb bfg blockNumber ring st =
     (case ring_get blockNumber ring of
        None \<Rightarrow> Aborts
      | Some q \<Rightarrow>
          let (r, rest) = genBlockFromQueue z hash sha256 g cfg cb blockNumber q (new_receiver bfg st);
              ring = ring\<lparr>ring_data := (ring_data ring)[ring_slot blockNumber := rest]\<rparr>
          in case r of
               Again s \<Rightarrow> Waits ring (rc_store s)
             | Returns msg s \<Rightarrow>
                 (case clearBelow True (blockNumber + 1) ring of None \<Rightarrow> Aborts | Some ring \<Rightarrow> Got msg ring (rc_store s))
             | Stuck \<Rightarrow> Hangs
             | Crashes \<Rightarrow> Aborts)"

section \<open>Validating blocks\<close>

text \<open>
  \<open>check ski digest header\<close> finds the key of \<open>ski\<close> and verifies the signature. \<^const>\<open>None\<close> is the access to the
  first element of an empty vector.
\<close>

definition signatures_accepted :: "(string \<Rightarrow> tid_type \<Rightarrow> string \<Rightarrow> bool) \<Rightarrow> string \<Rightarrow> SignaturePair list \<Rightarrow> bool" where
  "signatures_accepted check serHeader sigs =
     (let verifiedSigCnt = length (filter (\<lambda>(n, sig). check (ski sig) (digest sig) serHeader) sigs)
      in \<not> verifiedSigCnt < (length sigs + 1) div 2)"

definition getBlockFromRawString ::
  "prims \<Rightarrow> (string \<Rightarrow> tid_type \<Rightarrow> string \<Rightarrow> bool) \<Rightarrow> string \<Rightarrow> EncodeBlockFragment list \<Rightarrow> Block option option" where
  "getBlockFromRawString z check raw peerList =
     (case Block_deserializeFromString z (Some raw) 0 of
        (ret, Some block) \<Rightarrow>
          if \<not> valid ret then Some None
          else (case peerList of
                  [] \<Rightarrow> None
                | p # ps \<Rightarrow>
                    if \<not> signatures_accepted check (take (bodyPos ret) raw) (blockSignatures p) then Some None
                    else Some (Some (block\<lparr>metadata := (metadata block)\<lparr>consensusSignatures := blockSignatures p\<rparr>\<rparr>)))
      | (ret, None) \<Rightarrow> Some None)"

definition validateFunc ::
  "prims \<Rightarrow> (string \<Rightarrow> tid_type \<Rightarrow> string \<Rightarrow> bool) \<Rightarrow> 'd store_ops \<Rightarrow> int \<Rightarrow>
   string \<Rightarrow> EncodeBlockFragment list \<Rightarrow> 'd storage \<Rightarrow> (bool \<times> string \<times> 'd storage) option" where
  "validateFunc z check ops idx raw peerList st =
     (case getBlockFromRawString z check raw peerList of
        None \<Rightarrow> None
      | Some None \<Rightarrow> Some (False, [], st)
      | Some (Some block) \<Rightarrow>
          if peerList = [] then Some (False, [], st)
          else if \<exists>p \<in> set peerList. ebf_blockNumber p \<noteq> number (header block) then Some (False, [], st)
          else (case insertBlockAndNotify ops idx block st of None \<Rightarrow> None | Some st \<Rightarrow> Some (True, [], st)))"

end
