(* ===== verification/ReplicationCorrect.thy ===== *)
theory ReplicationCorrect
  imports Replication BlockCodecCorrect
begin

text \<open>
  A block that is sent arrives: the messages of the senders are read back, the receiver collects
  their fragments in any order and, as soon as it has as many as the erasure code needs, stores
  the block. And what a receiver does with messages that are not those of a sender.
\<close>

section \<open>The message of a sender\<close>

text \<open>A message that brings the fragments \<open>start\<close> to \<open>stop - 1\<close> of an encoded block into any context where they are missing.\<close>

definition brings ::
  "prims \<Rightarrow> (string \<Rightarrow> string \<Rightarrow> string) \<Rightarrow> (string \<Rightarrow> string option) \<Rightarrow> fragment_context \<Rightarrow> string \<Rightarrow> EncodeBlockFragment \<Rightarrow> bool" where
  "brings z hash sha256 ctx root ebf \<longleftrightarrow> ebf_root ebf = root \<and>
     (let start = sint (ebf_start ebf); stop = sint (ebf_end ebf)
      in 0 \<le> start \<and> start < stop \<and> stop \<le> fragmentCnt ctx \<and>
         (\<forall>c. ecConfig c = ecConfig ctx \<and> fragmentCnt c = fragmentCnt ctx \<and> fresh_between (decodeStorageList c) (nat start) (nat stop) \<longrightarrow>
            (\<exists>dsl. validateAndDeserializeFragments z hash sha256 root (encodeMessage ebf) start stop c =
                Inr (True, c\<lparr>decodeStorageList := dsl\<rparr>) \<and>
              loaded (decodeStorageList c) dsl (nat start) (nat (stop - start)) (\<lambda>j. fragment_at ctx (nat start + j)))))"

lemma sender_message:
  assumes z: "prims_ok z" "prims_relocatable z" and e: "encoded hash sha256 ctx mt d"
    and s: "encodeAndSendFragment z ctx n sz sigs r = Inr (Some raw)"
  shows "\<exists>ebf. EBF_deserializeFromString z raw 0 = Some ebf \<and> brings z hash sha256 ctx (Root mt) ebf \<and>
    blockSignatures ebf = sigs \<and> ebf_blockNumber ebf = n \<and> ebf_size ebf = of_nat sz \<and>
    ebf_start ebf = word_of_int (rfs_start r) \<and> ebf_end ebf = word_of_int (rfs_end r)"
proof -
  let ?st = "word_of_int (rfs_start r) :: 32 word" and ?en = "word_of_int (rfs_end r) :: 32 word"
  let ?x = "(sigs, n, Root mt, of_nat sz :: 64 word, ?st, ?en)"
  have mt: "ctx_mt ctx = Some mt" using e by (simp add: encoded_def)
  obtain buf pos where o1: "out_of (ebf_fields z) ?x [] 0 = Some (buf, pos)"
    and o2: "serializeFragments z ctx (sint ?st) (sint ?en) buf (length buf) = Inr (True, raw)"
    using s by (auto simp: encodeAndSendFragment_def mt Let_def EBF_serializeToString_def split: option.splits sum.splits bool.splits)
  have c: "codec_ok (ebf_fields z)" by (rule archives_ok(11)[OF z(1)])
  have w: "wrote [] 0 buf pos" by (rule codec_okD(1)[OF c o1]) simp
  then have pos: "pos = length buf" by (simp add: wrote_def)
  have pre: "length buf \<le> length raw" "take (length buf) raw = take (length buf) buf" and rng: "0 \<le> sint ?st" "sint ?st < sint ?en" "sint ?en \<le> fragmentCnt ctx"
    using serialize_reads[OF z(1) e order_refl o2] by auto
  have "agree raw buf 0 pos" using pre by (simp add: agree_def bytes_def pos)
  then have rd: "in_of (ebf_fields z) raw 0 = Some (?x, length buf)" using codec_okD(2)[OF c o1] pos by simp
  let ?ebf = "\<lparr>blockSignatures = sigs, ebf_blockNumber = n, ebf_root = Root mt, ebf_size = of_nat sz, ebf_start = ?st, ebf_end = ?en,
    encodeMessage = drop (length buf) raw\<rparr>"
  have "\<exists>dsl. validateAndDeserializeFragments z hash sha256 (Root mt) (drop (length buf) raw) (sint ?st) (sint ?en) c =
        Inr (True, c\<lparr>decodeStorageList := dsl\<rparr>) \<and>
      loaded (decodeStorageList c) dsl (nat (sint ?st)) (nat (sint ?en - sint ?st)) (\<lambda>j. fragment_at ctx (nat (sint ?st) + j))"
    if "ecConfig c = ecConfig ctx" "fragmentCnt c = fragmentCnt ctx" "fresh_between (decodeStorageList c) (nat (sint ?st)) (nat (sint ?en))" for c
    using fragments_roundtrip[OF z e order_refl o2, of c "sint ?st"] that rng by simp
  then have "brings z hash sha256 ctx (Root mt) ?ebf" using rng by (simp add: brings_def Let_def)
  moreover have "EBF_deserializeFromString z raw 0 = Some ?ebf" using rd by (simp add: EBF_deserializeFromString_def)
  ultimately show ?thesis by (intro exI[of _ ?ebf]) simp
qed

section \<open>Collecting fragments\<close>

definition range_of :: "EncodeBlockFragment \<Rightarrow> nat set" where
  "range_of ebf = {unat (ebf_start ebf)..<unat (ebf_end ebf)}"

lemma mark_shards_range:
  assumes "b \<le> length v" and "a \<le> b" and "\<forall>i. a \<le> i \<and> i < b \<longrightarrow> \<not> v ! i"
  shows "mark_shards [a..<b] (v, n) = (map (\<lambda>i. v ! i \<or> a \<le> i \<and> i < b) [0..<length v], n + (b - a))"
  using assms(2,1,3)
proof (induction b rule: dec_induct)
  case base
  have "map (\<lambda>i. v ! i \<or> a \<le> i \<and> i < a) [0..<length v] = v" by (rule nth_equalityI) auto
  then show ?case by (simp add: mark_shards_def)
next
  case (step b)
  have "mark_shards [a..<Suc b] (v, n) = mark_shards [b] (mark_shards [a..<b] (v, n))"
    using step.hyps by (simp add: mark_shards_def)
  also have "mark_shards [a..<b] (v, n) = (map (\<lambda>i. v ! i \<or> a \<le> i \<and> i < b) [0..<length v], n + (b - a))"
    using step.prems by (intro step.IH) auto
  also have "mark_shards [b] (map (\<lambda>i. v ! i \<or> a \<le> i \<and> i < b) [0..<length v], n + (b - a)) =
      ((map (\<lambda>i. v ! i \<or> a \<le> i \<and> i < b) [0..<length v])[b := True], n + (b - a) + 1)"
    using step by (simp add: mark_shards_def)
  also have "(map (\<lambda>i. v ! i \<or> a \<le> i \<and> i < b) [0..<length v])[b := True] = map (\<lambda>i. v ! i \<or> a \<le> i \<and> i < Suc b) [0..<length v]"
    using step by (intro nth_equalityI) (auto simp: nth_list_update less_Suc_eq)
  finally show ?case using step.hyps by simp
qed

text \<open>What a receiver has after the messages \<open>peers\<close>, whose fragments are \<open>covered\<close>.\<close>

definition collects :: "fragment_context \<Rightarrow> nat set \<Rightarrow> fragment_context \<Rightarrow> bool" where
  "collects ctx covered c \<longleftrightarrow> ecConfig c = ecConfig ctx \<and> fragmentCnt c = fragmentCnt ctx \<and>
     length (decodeStorageList c) = nat (fragmentCnt ctx) \<and>
     (\<forall>j < nat (fragmentCnt ctx). if j \<in> covered then encodeFragment (decodeStorageList c ! j) = fragment_at ctx j
        else decodeStorageList c ! j = fresh_storage)"

definition collected :: "fragment_context \<Rightarrow> string \<Rightarrow> nat set \<Rightarrow> EncodeBlockFragment list \<Rightarrow> 's \<Rightarrow> 's receiver \<Rightarrow> bool" where
  "collected ctx root covered peers st s \<longleftrightarrow> rc_store s = st \<and> covered \<subseteq> {0..<nat (fragmentCnt ctx)} \<and>
     (case blockMap s root of None \<Rightarrow> [] | Some ps \<Rightarrow> ps) = peers \<and>
     (if covered = {} then haveShard s root = None \<and> (\<exists>c bfg. getEmptyContext (rc_bfg s) (ecConfig ctx) = Context c bfg)
      else \<exists>val c. haveShard s root = Some val \<and> currentShardCnt val = card covered \<and>
        shardsValidated val = map (\<lambda>i. i \<in> covered) [0..<nat (fragmentCnt ctx)] \<and> ro_context val = Some c \<and> collects ctx covered c)"

lemma open_collected:
  assumes "collected ctx root covered peers st s" and "fragmentCnt ctx = dataShardCnt (ecConfig ctx) + parityShardCnt (ecConfig ctx)"
  shows "\<exists>val c bfg. open_root (ecConfig ctx) root s = Some (val, s\<lparr>rc_bfg := bfg\<rparr>) \<and> currentShardCnt val = card covered \<and>
    shardsValidated val = map (\<lambda>i. i \<in> covered) [0..<nat (fragmentCnt ctx)] \<and> ro_context val = Some c \<and> collects ctx covered c"
proof (cases "covered = {}")
  case True
  with assms(1) obtain c bfg where hs: "haveShard s root = None" and c: "getEmptyContext (rc_bfg s) (ecConfig ctx) = Context c bfg"
    by (auto simp: collected_def)
  then have "c = new_context (ecConfig ctx)" by (auto simp: getEmptyContext_def Let_def split: if_splits)
  then have "collects ctx covered c" using True assms(2) by (simp add: collects_def new_context_def)
  then show ?thesis using hs c assms(2) True by (auto simp: open_root_def Let_def map_replicate_const intro!: exI[of _ bfg])
next
  case False
  then have "currentShardCnt val \<noteq> 0" if "haveShard s root = Some val" for val
    using assms(1) that finite_subset[of covered "{0..<nat (fragmentCnt ctx)}"] by (auto simp: collected_def)
  moreover have "s\<lparr>rc_bfg := rc_bfg s\<rparr> = s" by simp
  ultimately show ?thesis using assms(1) False by (auto simp: collected_def open_root_def Let_def intro!: exI[of _ "rc_bfg s"])
qed

lemma sint_nonneg_unat: "0 \<le> sint w \<Longrightarrow> unat w = nat (sint (w :: 32 word))"
proof -
  assume "0 \<le> sint w"
  moreover have "sint w < 2 ^ 32" using sint_lt[of w] by simp
  ultimately have "take_bit 32 (sint w) = sint w" by (intro take_bit_int_eq_self)
  then have "uint w = sint w" using uint_sint[of w] by simp
  then show ?thesis by (simp add: unat_eq_nat_uint)
qed

lemma brings_range:
  assumes "brings z hash sha256 ctx root ebf"
  shows "unat (ebf_start ebf) = nat (sint (ebf_start ebf))" "unat (ebf_end ebf) = nat (sint (ebf_end ebf))"
    "unat (ebf_start ebf) < unat (ebf_end ebf)" "unat (ebf_end ebf) \<le> nat (fragmentCnt ctx)"
    "\<not> (nat (fragmentCnt ctx) < unat (ebf_start ebf + 1) \<or> nat (fragmentCnt ctx) < unat (ebf_end ebf) \<or> ebf_start ebf \<ge> ebf_end ebf)"
proof -
  have b: "0 \<le> sint (ebf_start ebf)" "sint (ebf_start ebf) < sint (ebf_end ebf)" "sint (ebf_end ebf) \<le> fragmentCnt ctx"
    using assms by (simp_all add: brings_def Let_def)
  then show u: "unat (ebf_start ebf) = nat (sint (ebf_start ebf))" "unat (ebf_end ebf) = nat (sint (ebf_end ebf))"
    by (auto intro: sint_nonneg_unat)
  then show lt: "unat (ebf_start ebf) < unat (ebf_end ebf)" and le: "unat (ebf_end ebf) \<le> nat (fragmentCnt ctx)" using b by auto
  have w: "ebf_start ebf < ebf_end ebf" using lt by (simp add: word_less_nat_alt)
  then have "ebf_start ebf \<noteq> - 1" using word_order.extremum[of "ebf_end ebf"] by (metis leD)
  then have "1 + ebf_start ebf \<noteq> 0" by (simp add: add_eq_0_iff)
  then have "unat (ebf_start ebf + 1) = Suc (unat (ebf_start ebf))" by (simp add: unatSuc add.commute)
  then show "\<not> (nat (fragmentCnt ctx) < unat (ebf_start ebf + 1) \<or> nat (fragmentCnt ctx) < unat (ebf_end ebf) \<or> ebf_start ebf \<ge> ebf_end ebf)"
    using lt le w by auto
qed

lemma collects_loaded:
  assumes c: "collects ctx covered c" and l: "loaded (decodeStorageList c) dsl a (b - a) (\<lambda>j. fragment_at ctx (a + j))"
    and ab: "a \<le> b" "{a..<b} \<inter> covered = {}"
  shows "collects ctx (covered \<union> {a..<b}) (c\<lparr>decodeStorageList := dsl\<rparr>)"
proof -
  have len: "length (decodeStorageList c) = nat (fragmentCnt ctx)" using c by (simp add: collects_def)
  have "if j \<in> covered \<union> {a..<b} then encodeFragment (dsl ! j) = fragment_at ctx j else dsl ! j = fresh_storage"
    if j: "j < nat (fragmentCnt ctx)" for j
  proof -
    have 1: "if a \<le> j \<and> j < a + (b - a) then cacheGuard (dsl ! j) \<and> encodeFragment (dsl ! j) = fragment_at ctx (a + (j - a))
        else dsl ! j = decodeStorageList c ! j" using l j unfolding loaded_def len by blast
    have 2: "if j \<in> covered then encodeFragment (decodeStorageList c ! j) = fragment_at ctx j
        else decodeStorageList c ! j = fresh_storage" using c j unfolding collects_def by blast
    show ?thesis using 1 2 ab by (auto split: if_splits)
  qed
  moreover have "length dsl = nat (fragmentCnt ctx)" using l len by (simp add: loaded_def)
  ultimately show ?thesis using c by (simp add: collects_def)
qed

lemma uncovered_fresh:
  assumes "collects ctx covered c" and "b \<le> nat (fragmentCnt ctx)" and "{a..<b} \<inter> covered = {}"
  shows "fresh_between (decodeStorageList c) a b"
  unfolding fresh_between_def
proof (intro conjI allI impI)
  show "b \<le> length (decodeStorageList c)" using assms by (simp add: collects_def)
  fix j assume "a \<le> j \<and> j < b"
  then have "j \<notin> covered" "j < nat (fragmentCnt ctx)" using assms(2,3) by auto
  then have "decodeStorageList c ! j = fresh_storage" using assms(1) unfolding collects_def by simp
  then show "\<not> cacheGuard (decodeStorageList c ! j)" "ds_cache (decodeStorageList c ! j) = []" by (simp_all add: fresh_storage_def)
qed

lemma mark_covered:
  assumes "a < b" and "b \<le> t" and "{a..<b} \<inter> covered = {}" and "covered \<subseteq> {0..<t}"
  shows "mark_shards [a..<b] (map (\<lambda>i. i \<in> covered) [0..<t], card covered) =
    (map (\<lambda>i. i \<in> covered \<union> {a..<b}) [0..<t], card (covered \<union> {a..<b}))"
proof -
  have "\<forall>i. a \<le> i \<and> i < b \<longrightarrow> \<not> map (\<lambda>i. i \<in> covered) [0..<t] ! i" using assms(2,3) by auto
  from mark_shards_range[OF _ _ this, of "card covered"]
  have "mark_shards [a..<b] (map (\<lambda>i. i \<in> covered) [0..<t], card covered) =
      (map (\<lambda>i. i \<in> covered \<union> {a..<b}) [0..<t], card covered + (b - a))" using assms(1,2) by simp
  moreover have "card (covered \<union> {a..<b}) = card covered + (b - a)"
    using assms(3) finite_subset[OF assms(4)] by (subst card_Un_disjoint) auto
  ultimately show ?thesis by simp
qed

text \<open>A message with new fragments is accepted; the block is regenerated when there are enough of them.\<close>

definition with_message :: "EncodeBlockFragment \<Rightarrow> EncodeBlockFragment list \<Rightarrow> regenerate_options \<Rightarrow> generator \<Rightarrow> 's receiver \<Rightarrow> 's receiver" where
  "with_message ebf peers val bfg s =
     s\<lparr>rc_bfg := bfg, blockMap := (blockMap s)(ebf_root ebf \<mapsto> peers), haveShard := (haveShard s)(ebf_root ebf \<mapsto> val)\<rparr>"

lemma gen_step_brings:
  assumes col: "collected ctx root covered peers st s" and b: "brings z hash sha256 ctx root ebf"
    and cnt: "fragmentCnt ctx = dataShardCnt (ecConfig ctx) + parityShardCnt (ecConfig ctx)"
    and num: "ebf_blockNumber ebf = n" and dis: "range_of ebf \<inter> covered = {}"
  shows "\<exists>c s'. collects ctx (covered \<union> range_of ebf) c \<and> collected ctx root (covered \<union> range_of ebf) (peers @ [ebf]) st s' \<and>
    gen_step z hash sha256 g (ecConfig ctx) cb n ebf s =
      (if card (covered \<union> range_of ebf) < nat (dataShardCnt (ecConfig ctx)) then Again s'
       else case regenerateMessage g c (to_int (ebf_size ebf)) [] of
              Inl e \<Rightarrow> Crashes
            | Inr (False, msg) \<Rightarrow> Again s'
            | Inr (True, msg) \<Rightarrow>
                (case cb msg (peers @ [ebf]) st of
                   None \<Rightarrow> Crashes
                 | Some (ok, msg, st) \<Rightarrow>
                     let s = s'\<lparr>blockMap := (blockMap s')(root := None), rc_store := st\<rparr> in if ok then Returns msg s else Again s))"
proof -
  let ?a = "unat (ebf_start ebf)" and ?b = "unat (ebf_end ebf)" and ?t = "nat (fragmentCnt ctx)"
  note rng = brings_range[OF b]
  have root: "ebf_root ebf = root" using b by (simp add: brings_def)
  obtain val c bfg where op: "open_root (ecConfig ctx) root s = Some (val, s\<lparr>rc_bfg := bfg\<rparr>)" and vc: "currentShardCnt val = card covered"
    "shardsValidated val = map (\<lambda>i. i \<in> covered) [0..<?t]" "ro_context val = Some c" "collects ctx covered c"
    using open_collected[OF col cnt] by blast
  have "fresh_between (decodeStorageList c) ?a ?b" by (rule uncovered_fresh[OF vc(4) rng(4)]) (use dis in \<open>simp add: range_of_def\<close>)
  then obtain dsl where v: "validateAndDeserializeFragments z hash sha256 root (encodeMessage ebf) (sint (ebf_start ebf)) (sint (ebf_end ebf)) c =
      Inr (True, c\<lparr>decodeStorageList := dsl\<rparr>)" and l: "loaded (decodeStorageList c) dsl ?a (?b - ?a) (\<lambda>j. fragment_at ctx (?a + j))"
    using b vc(4) rng(1,2) unfolding brings_def Let_def collects_def by (auto simp: nat_diff_distrib)
  let ?cov = "covered \<union> range_of ebf" and ?c = "c\<lparr>decodeStorageList := dsl\<rparr>"
  have col': "collects ctx ?cov ?c"
    using collects_loaded[OF vc(4) l] rng(3) dis by (simp add: range_of_def)
  have sub: "covered \<subseteq> {0..<?t}" using col by (simp add: collected_def)
  have mk: "mark_shards [?a..<?b] (shardsValidated val, currentShardCnt val) = (map (\<lambda>i. i \<in> ?cov) [0..<?t], card ?cov)"
    unfolding vc(1,2) range_of_def by (rule mark_covered) (use rng(3,4) dis sub in \<open>simp_all add: range_of_def\<close>)
  let ?val = "val\<lparr>ro_context := Some ?c, shardsValidated := map (\<lambda>i. i \<in> ?cov) [0..<?t], currentShardCnt := card ?cov\<rparr>"
  let ?s = "with_message ebf (peers @ [ebf]) ?val bfg s"
  have bm: "(case blockMap s root of None \<Rightarrow> [] | Some ps \<Rightarrow> ps) = peers" "rc_store s = st" using col by (simp_all add: collected_def)
  have "?cov \<noteq> {}" "?cov \<subseteq> {0..<?t}" using rng(3,4) sub by (auto simp: range_of_def)
  then have "collected ctx root ?cov (peers @ [ebf]) st ?s" using bm col' by (simp add: collected_def with_message_def root)
  moreover have "gen_step z hash sha256 g (ecConfig ctx) cb n ebf s =
      (if card ?cov < nat (dataShardCnt (ecConfig ctx)) then Again ?s
       else case regenerateMessage g ?c (to_int (ebf_size ebf)) [] of
              Inl e \<Rightarrow> Crashes
            | Inr (False, msg) \<Rightarrow> Again ?s
            | Inr (True, msg) \<Rightarrow>
                (case cb msg (peers @ [ebf]) st of
                   None \<Rightarrow> Crashes
                 | Some (ok, msg, st) \<Rightarrow>
                     let s = ?s\<lparr>blockMap := (blockMap ?s)(root := None), rc_store := st\<rparr> in if ok then Returns msg s else Again s))"
    using num op vc(3) v mk bm rng(5) unfolding gen_step_def Let_def root cnt[symmetric]
    by (simp add: with_message_def root Let_def cong: sum.case_cong option.case_cong bool.case_cong prod.case_cong if_cong)
  ultimately show ?thesis using col' by blast
qed

section \<open>The block arrives\<close>

lemma to_int_of_nat:
  assumes "n \<le> int_max"
  shows "to_int (of_nat n) = int n"
proof -
  have n: "n < 2 ^ 31" using assms by (simp add: int_max_def)
  then have "n < 2 ^ 64" by simp
  then have "take_bit 64 n = n" by (simp add: take_bit_nat_eq_self)
  then have "(ucast (of_nat n :: 64 word) :: 32 word) = of_nat n" by (simp add: unsigned_of_nat)
  moreover have "signed_take_bit 31 (int n) = int n" using n by (intro signed_take_bit_int_eq_self) auto
  ultimately show ?thesis by (simp add: to_int_def signed_of_nat)
qed

lemma regenerate_collected:
  assumes c: "collects ctx covered c" and sub: "covered \<subseteq> {0..<nat (fragmentCnt ctx)}"
    and ctx: "instanceCount (ecConfig ctx) = 1" "0 < dataShardCnt (ecConfig ctx)"
      "length (ecEncodeResult ctx) = nat (fragmentCnt ctx)"
    and g: "erasure_ok g (ecConfig ctx)" "grc_encode g raw = Some (ecEncodeResult ctx)"
    and enough: "nat (dataShardCnt (ecConfig ctx)) \<le> card covered"
  shows "regenerateMessage g c (int (length raw)) [] = Inr (True, raw)"
proof -
  let ?dsl = "decodeStorageList c" and ?t = "nat (fragmentCnt ctx)"
  have len: "length ?dsl = ?t" and cfg: "ecConfig c = ecConfig ctx" using c by (simp_all add: collects_def)
  have at: "fragment_at ctx j = [ecEncodeResult ctx ! j]" for j by (simp add: fragment_at_def ctx(1))
  have frag: "encodeFragment (?dsl ! j) = (if j \<in> covered then [ecEncodeResult ctx ! j] else [])" if "j < ?t" for j
  proof -
    have "if j \<in> covered then encodeFragment (?dsl ! j) = fragment_at ctx j else ?dsl ! j = fresh_storage"
      using c that unfolding collects_def by blast
    then show ?thesis by (auto simp: at fresh_storage_def split: if_splits)
  qed
  have "{j. j < length ?dsl \<and> encodeFragment (?dsl ! j) \<noteq> []} = covered" using frag sub len by (auto split: if_splits)
  then have "length (filter (\<lambda>ds. encodeFragment ds \<noteq> []) ?dsl) = card covered" by (simp add: length_filter_conv_card)
  moreover have "holds_shards (ecEncodeResult ctx) ?dsl" using frag len ctx(3) by (simp add: holds_shards_def)
  ultimately show ?thesis
    using regenerate_shards[of g c raw "ecEncodeResult ctx"] cfg ctx g enough by simp
qed

definition disjoint_ranges :: "EncodeBlockFragment list \<Rightarrow> bool" where
  "disjoint_ranges es \<longleftrightarrow> sorted_wrt (\<lambda>a b. range_of b \<inter> range_of a = {}) es"

text \<open>A sender's context, and messages that bring its fragments.\<close>

definition block_context :: "grc \<Rightarrow> string \<Rightarrow> fragment_context \<Rightarrow> bool" where
  "block_context g raw ctx \<longleftrightarrow> instanceCount (ecConfig ctx) = 1 \<and> 0 < dataShardCnt (ecConfig ctx) \<and>
     fragmentCnt ctx = dataShardCnt (ecConfig ctx) + parityShardCnt (ecConfig ctx) \<and> erasure_ok g (ecConfig ctx) \<and>
     length (ecEncodeResult ctx) = nat (fragmentCnt ctx) \<and> grc_encode g raw = Some (ecEncodeResult ctx)"

lemma collect_loop:
  assumes ctx: "block_context g raw ctx" and size: "length raw \<le> int_max"
    and cb: "\<And>ps. ps \<noteq> [] \<Longrightarrow> set ps \<subseteq> A \<Longrightarrow> cb raw ps st = Some (True, m, f ps)"
    and col: "collected ctx root covered peers st s" "set peers \<subseteq> A" "card covered < nat (dataShardCnt (ecConfig ctx))"
    and es: "es = filter (\<lambda>e. ebf_blockNumber e = n) q" "set es \<subseteq> A" "disjoint_ranges es" "\<forall>e \<in> set es. range_of e \<inter> covered = {}"
      "\<forall>e \<in> set es. brings z hash sha256 ctx root e \<and> ebf_size e = of_nat (length raw)"
    and enough: "nat (dataShardCnt (ecConfig ctx)) \<le> card (covered \<union> \<Union> (range_of ` set es))"
  shows "\<exists>ps s' rest. ps \<noteq> [] \<and> set ps \<subseteq> A \<and>
    genBlockFromQueue z hash sha256 g (ecConfig ctx) cb n q s = (Returns m s', rest) \<and> rc_store s' = f ps"
  using col es enough
proof (induction q arbitrary: es s covered peers)
  case Nil
  then show ?case by simp
next
  case (Cons e q)
  show ?case
  proof (cases "ebf_blockNumber e = n")
    case False
    then have "gen_step z hash sha256 g (ecConfig ctx) cb n e s = Again s" by (simp add: gen_step_def)
    then show ?thesis using Cons.IH[OF Cons.prems(1-3) _ Cons.prems(5-9)] Cons.prems(4) False by simp
  next
    case True
    obtain es' where es': "es = e # es'" "es' = filter (\<lambda>e. ebf_blockNumber e = n) q" using Cons.prems(4) True by simp
    let ?cov = "covered \<union> range_of e" and ?cfg = "ecConfig ctx"
    have b: "brings z hash sha256 ctx root e" and sz: "ebf_size e = of_nat (length raw)" and dis: "range_of e \<inter> covered = {}"
      using Cons.prems(7,8) es'(1) by simp_all
    have cnt: "fragmentCnt ctx = dataShardCnt ?cfg + parityShardCnt ?cfg" using ctx by (simp add: block_context_def)
    from gen_step_brings[OF Cons.prems(1) b cnt True dis, of g cb] obtain c s' where
      c: "collects ctx ?cov c" and s': "collected ctx root ?cov (peers @ [e]) st s'" and
      step: "gen_step z hash sha256 g ?cfg cb n e s = (if card ?cov < nat (dataShardCnt ?cfg) then Again s'
       else case regenerateMessage g c (to_int (ebf_size e)) [] of Inl x \<Rightarrow> Crashes | Inr (False, msg) \<Rightarrow> Again s'
            | Inr (True, msg) \<Rightarrow> (case cb msg (peers @ [e]) st of None \<Rightarrow> Crashes
                 | Some (ok, msg, st) \<Rightarrow>
                     let s = s'\<lparr>blockMap := (blockMap s')(root := None), rc_store := st\<rparr> in if ok then Returns msg s else Again s))" by blast
    have A: "set (peers @ [e]) \<subseteq> A" using Cons.prems(2,5) es'(1) by simp
    show ?thesis
    proof (cases "card ?cov < nat (dataShardCnt ?cfg)")
      case False
      have "?cov \<subseteq> {0..<nat (fragmentCnt ctx)}" using s' by (simp add: collected_def)
      then have "regenerateMessage g c (int (length raw)) [] = Inr (True, raw)"
        using regenerate_collected[OF c] ctx False by (simp add: block_context_def)
      then have "\<exists>s''. gen_step z hash sha256 g ?cfg cb n e s = Returns m s'' \<and> rc_store s'' = f (peers @ [e])"
        using False cb[OF _ A] size by (simp add: step sz to_int_of_nat Let_def)
      then show ?thesis using A by (auto intro!: exI[of _ "peers @ [e]"])
    next
      case less: True
      have "\<forall>x \<in> set es'. range_of x \<inter> ?cov = {}" using Cons.prems(6,7) es'(1) by (auto simp: disjoint_ranges_def)
      moreover have "?cov \<union> \<Union> (range_of ` set es') = covered \<union> \<Union> (range_of ` set es)" by (simp add: es'(1) Un_assoc)
      ultimately show ?thesis using Cons.IH[OF s' A less es'(2)] Cons.prems(5-9) es'(1) less
        by (simp add: step disjoint_ranges_def)
    qed
  qed
qed

text \<open>The callback accepts a block whose header the signatures of the first message verify, and stores it.\<close>

lemma callback_stores:
  assumes "Block_deserializeFromString z (Some raw) 0 = (pl, Some block)" and "valid pl"
    and "signatures_accepted check (take (bodyPos pl) raw) sigs" and "ps \<noteq> []"
    and "\<forall>p \<in> set ps. blockSignatures p = sigs \<and> ebf_blockNumber p = number (header block)"
    and "insertBlockAndNotify ops idx (block\<lparr>metadata := (metadata block)\<lparr>consensusSignatures := sigs\<rparr>\<rparr>) st = Some st'"
  shows "validateFunc z check ops idx raw ps st = Some (True, [], st')"
  using assms by (cases ps) (auto simp: validateFunc_def getBlockFromRawString_def)

lemma sender_context:
  assumes "initWithMessage zero hash sha256 g raw (new_context cfg) = Inr (True, ctx)" and "instanceCount cfg = 1"
    and "0 < dataShardCnt cfg" and "erasure_ok g cfg" and "nat (dataShardCnt cfg + parityShardCnt cfg) \<le> int_max"
  shows "block_context g raw ctx \<and> ecConfig ctx = cfg \<and> (\<exists>mt d. encoded hash sha256 ctx mt d)"
proof -
  let ?c = "new_context cfg"
  have c: "ecConfig ?c = cfg" "fragmentCnt ?c = dataShardCnt cfg + parityShardCnt cfg" by (simp_all add: new_context_def)
  from initWithMessage_encoded[OF assms(1)] obtain mt where
    e: "encoded hash sha256 ctx mt (calTreeDepth (length (ecEncodeResult ctx)))" "ecConfig ctx = cfg"
      "fragmentCnt ctx = dataShardCnt cfg + parityShardCnt cfg" using assms(2,5) c by auto
  have "grc_encode g raw = Some (ecEncodeResult ctx)"
    by (rule initWithMessage_shards[OF assms(1)]) (use assms(2,4) c in simp_all)
  then show ?thesis using e assms(2-4) by (auto simp: block_context_def encoded_def)
qed

text \<open>Messages that a sender of the block produced, as a receiver reads them.\<close>

definition from_sender :: "prims \<Rightarrow> fragment_context \<Rightarrow> Block \<Rightarrow> string \<Rightarrow> EncodeBlockFragment \<Rightarrow> bool" where
  "from_sender z ctx block raw ebf \<longleftrightarrow>
     (\<exists>r m. encodeAndSendFragment z ctx (number (header block)) (length raw) (consensusSignatures (metadata block)) r = Inr (Some m) \<and>
        EBF_deserializeFromString z m 0 = Some ebf)"

lemma from_senderD:
  assumes "prims_ok z" "prims_relocatable z" and "encoded hash sha256 ctx mt d" and "from_sender z ctx block raw e"
  shows "brings z hash sha256 ctx (Root mt) e \<and> blockSignatures e = consensusSignatures (metadata block) \<and>
    ebf_blockNumber e = number (header block) \<and> ebf_size e = of_nat (length raw)"
proof -
  from assms(4) obtain r m where
    "encodeAndSendFragment z ctx (number (header block)) (length raw) (consensusSignatures (metadata block)) r = Inr (Some m)"
    and "EBF_deserializeFromString z m 0 = Some e" unfolding from_sender_def by blast
  with sender_message[OF assms(1-3)] show ?thesis by (metis option.inject)
qed

lemma delivered:
  fixes st :: "mr_store storage"
  assumes z: "prims_ok z" "prims_relocatable z"
    and blk: "Block_serializeToString z block0 [] 0 = (pl, raw)" "valid pl" "length raw \<le> int_max"
    and block: "block = block0\<lparr>metadata := (metadata block0)\<lparr>consensusSignatures := sigs\<rparr>\<rparr>"
    and snd: "initWithMessage zero hash sha256 g raw (new_context cfg) = Inr (True, ctx)"
    and cfg: "instanceCount cfg = 1" "0 < dataShardCnt cfg" "erasure_ok g cfg" "nat (dataShardCnt cfg + parityShardCnt cfg) \<le> int_max"
    and es: "es = filter (\<lambda>e. ebf_blockNumber e = number (header block)) q" "\<forall>e \<in> set es. from_sender z ctx block raw e"
      "disjoint_ranges es" "nat (dataShardCnt cfg) \<le> card (\<Union> (range_of ` set es))"
    and rcv: "getEmptyContext bfg cfg = Context c0 bfg'" "signatures_accepted check (take (bodyPos pl) raw) sigs"
    and sto: "storage_ok mr_inv st" "0 \<le> idx" "idx < int (length (newBlockFutexList st))"
      "fst (mr_getBlock (nat idx) (number (header block)) (derived st)) = None"
  shows "\<exists>s' rest. genBlockFromQueue z hash sha256 g cfg (validateFunc z check mr_ops idx) (number (header block)) q (new_receiver bfg st) =
      (Returns [] s', rest) \<and> fst (waitForBlock mr_ops idx (number (header block)) t e (rc_store s')) = Ready (Some block)"
proof -
  let ?n = "number (header block)"
  from sender_context[OF snd cfg] obtain mt d where ctx: "block_context g raw ctx" "ecConfig ctx = cfg" "encoded hash sha256 ctx mt d" by blast
  have num: "header block = header block0" "consensusSignatures (metadata block) = sigs" by (simp_all add: block)
  have des: "Block_deserializeFromString z (Some raw) 0 = (pl, Some block0)" by (rule block_roundtrip[OF z(1) _ blk(1,2)]) simp
  from mr.inserted_block[OF sto, of t e] obtain st' where ins: "insertBlockAndNotify mr_ops idx block st = Some st'"
    and ready: "fst (waitForBlock mr_ops idx ?n t e st') = Ready (Some block)" unfolding mr_ops_def by blast
  let ?A = "{p :: EncodeBlockFragment. blockSignatures p = sigs \<and> ebf_blockNumber p = ?n}"
  have msgs: "brings z hash sha256 ctx (Root mt) x \<and> ebf_size x = of_nat (length raw)" "x \<in> ?A" if "x \<in> set es" for x
    using from_senderD[OF z ctx(3)] es(2) that num(2) by auto
  have cb: "validateFunc z check mr_ops idx raw ps st = Some (True, [], st')" if "ps \<noteq> []" "set ps \<subseteq> ?A" for ps
    by (rule callback_stores[OF des blk(2) rcv(2) that(1)]) (use that(2) num(1) ins block in auto)
  have col: "collected ctx (Root mt) {} [] st (new_receiver bfg st)" using rcv(1) ctx(2) by (simp add: collected_def new_receiver_def)
  have "\<exists>ps s' rest. ps \<noteq> [] \<and> set ps \<subseteq> ?A \<and>
      genBlockFromQueue z hash sha256 g (ecConfig ctx) (validateFunc z check mr_ops idx) ?n q (new_receiver bfg st) = (Returns [] s', rest) \<and>
      rc_store s' = st'"
    by (rule collect_loop[where A = ?A and f = "\<lambda>ps. st'" and cb = "validateFunc z check mr_ops idx" and m = "[]", OF ctx(1) blk(3) cb col _ _ es(1) _ es(3)])
      (use msgs es(4) cfg(2) ctx(2) in auto)
  then show ?thesis using ready ctx(2) by blast
qed

end
