(* ===== verification/ReplicationLimits.thy ===== *)
theory ReplicationLimits
  imports ReplicationCorrect
begin

text \<open>
  The ring buffer keeps the blocks of its window apart. A receiver runs out of contexts when it
  gets messages with more roots than the generator has instances, and a block whose message
  has no signatures is stored.
\<close>

section \<open>The window of the ring buffer\<close>

lemma ring_slot_mod: "ring_slot n = unat n mod 256"
proof -
  have "and n (ring_cap - 1) = take_bit 8 n" by (simp add: ring_cap_def take_bit_eq_mask mask_eq_exp_minus_1)
  then show ?thesis by (simp only: ring_slot_def unsigned_take_bit_eq) (simp add: take_bit_eq_mod)
qed

definition in_window :: "64 word \<Rightarrow> 'a ring \<Rightarrow> bool" where
  "in_window n r \<longleftrightarrow> ring_low r \<le> n \<and> n < ring_low r + ring_cap"

text \<open>The window ends before the largest number.\<close>

definition ring_ok :: "'a ring \<Rightarrow> bool" where
  "ring_ok r \<longleftrightarrow> length (ring_data r) = 256 \<and> unat (ring_low r) + 256 < 2 ^ 64"

lemma window_unat:
  assumes "ring_ok r"
  shows "in_window n r \<longleftrightarrow> unat (ring_low r) \<le> unat n \<and> unat n < unat (ring_low r) + 256"
proof -
  have "unat (ring_low r + ring_cap) = unat (ring_low r) + unat ring_cap"
    using assms by (subst unat_add_lem[symmetric]) (simp add: ring_ok_def ring_cap_def)
  then show ?thesis by (simp add: in_window_def word_le_nat_alt word_less_nat_alt ring_cap_def)
qed

lemma mod_window:
  assumes "a mod 256 = b mod 256" and "l \<le> a" "a < l + 256" "l \<le> b" "b < l + 256"
  shows "a = (b :: nat)"
proof -
  have a: "a = 256 * (a div 256) + a mod 256" by simp
  have b: "b = 256 * (b div 256) + a mod 256" unfolding assms(1) by simp
  have "256 * (a div 256) < 256 * (b div 256) + 256" "256 * (b div 256) < 256 * (a div 256) + 256" using a b assms(2-5) by linarith+
  then have "a div 256 = b div 256" by linarith
  then show ?thesis using a b by simp
qed

lemma slots_apart:
  assumes "ring_ok r" and "in_window n r" and "in_window m r" and "ring_slot n = ring_slot m"
  shows "n = m"
proof -
  have n: "unat (ring_low r) \<le> unat n" "unat n < unat (ring_low r) + 256" and m: "unat (ring_low r) \<le> unat m" "unat m < unat (ring_low r) + 256"
    using assms(2,3) window_unat[OF assms(1), of n] window_unat[OF assms(1), of m] by simp_all
  have "unat n mod 256 = unat m mod 256" using assms(4) by (simp add: ring_slot_mod)
  then have "unat n = unat m" using n m by (rule mod_window)
  then show ?thesis by (simp only: word_unat_eq_iff)
qed

text \<open>What a push changes of the queue of a block in the window, and that it keeps the invariant.\<close>

lemma ring_push_get:
  assumes "ring_ok r" and "in_window n r"
  shows "ring_get n (snd (ring_push m x r)) = Some (ring_data r ! ring_slot n @ (if m = n then [x] else [])) \<and>
    ring_ok (snd (ring_push m x r)) \<and> (fst (ring_push m x r) \<longleftrightarrow> m < ring_low r + ring_cap)"
proof -
  have slot: "ring_slot k < 256" for k by (simp add: ring_slot_mod)
  have w: "\<not> (n \<ge> ring_low r + ring_cap \<or> n < ring_low r)" using assms(2) by (auto simp: in_window_def)
  show ?thesis
  proof (cases "in_window m r")
    case True
    then have p: "ring_push m x r = (True, r\<lparr>ring_data := (ring_data r)[ring_slot m := ring_data r ! ring_slot m @ [x]]\<rparr>)"
      by (auto simp: ring_push_def in_window_def)
    have "ring_slot m = ring_slot n \<longleftrightarrow> m = n" using slots_apart[OF assms(1) True assms(2)] by auto
    then show ?thesis using assms(1) w slot True by (auto simp: p ring_get_def ring_ok_def in_window_def)
  next
    case False
    then have "ring_push m x r = (m < ring_low r + ring_cap, r)" by (auto simp: ring_push_def in_window_def)
    then show ?thesis using assms w False by (auto simp: ring_get_def)
  qed
qed

text \<open>A receiver that has the messages of a block in its ring buffer gets the block and moves on.\<close>

lemma passive_got:
  assumes "ring_ok r" and "ring_low r = n" and "ring_data r ! ring_slot n = q"
    and "genBlockFromQueue z hash sha256 g cfg cb n q (new_receiver bfg st) = (Returns m s', rest)"
  shows "\<exists>r'. passiveGet z hash sha256 g cfg cb bfg n r st = Got m r' (rc_store s') \<and> ring_low r' = n + 1 \<and>
    ring_data r' = (ring_data r)[ring_slot n := rest]"
proof -
  have "in_window n r" using window_unat[OF assms(1), of n] assms(2) by simp
  then have "ring_get n r = Some q" using assms(3) by (auto simp: ring_get_def in_window_def)
  then show ?thesis using assms(2,4) by (simp add: passiveGet_def clearBelow_def)
qed

section \<open>Running out of contexts\<close>

definition available :: "bfg_config \<Rightarrow> generator \<Rightarrow> int" where
  "available cfg bfg = semaMap bfg (dataShardCnt cfg, parityShardCnt cfg)"

definition knows :: "generator \<Rightarrow> bfg_config \<Rightarrow> bool" where
  "knows bfg cfg \<longleftrightarrow> dataShardCnt cfg < ecMap_x bfg \<and> parityShardCnt cfg < ecMap_y bfg"

text \<open>A message with a new root and an empty range of fragments takes one instance and leaves nothing else.\<close>

lemma empty_message:
  assumes "instanceCount cfg = 1" and "knows (rc_bfg s) cfg" and "ebf_blockNumber e = n" and "ebf_start e \<ge> ebf_end e"
    and "haveShard s (ebf_root e) = None"
  shows "if available cfg (rc_bfg s) < 1 then gen_step z hash sha256 g cfg cb n e s = Stuck
    else \<exists>val bfg. gen_step z hash sha256 g cfg cb n e s = Again (s\<lparr>rc_bfg := bfg, haveShard := (haveShard s)(ebf_root e \<mapsto> val)\<rparr>) \<and>
      available cfg bfg = available cfg (rc_bfg s) - 1 \<and> knows bfg cfg"
proof (cases "available cfg (rc_bfg s) < 1")
  case True
  then show ?thesis using assms by (simp add: gen_step_def open_root_def getEmptyContext_def available_def knows_def Let_def)
next
  case False
  let ?xy = "(dataShardCnt cfg, parityShardCnt cfg)"
  let ?bfg = "(rc_bfg s)\<lparr>semaMap := (semaMap (rc_bfg s))(?xy := semaMap (rc_bfg s) ?xy - 1)\<rparr>"
  let ?val = "\<lparr>currentShardCnt = 0, shardsValidated = replicate (nat (dataShardCnt cfg + parityShardCnt cfg)) False,
    ro_context = Some (new_context cfg)\<rparr>"
  have "gen_step z hash sha256 g cfg cb n e s = Again (s\<lparr>rc_bfg := ?bfg, haveShard := (haveShard s)(ebf_root e \<mapsto> ?val)\<rparr>)"
    using False assms by (simp add: gen_step_def open_root_def getEmptyContext_def available_def knows_def Let_def)
  moreover have "available cfg ?bfg = available cfg (rc_bfg s) - 1" "knows ?bfg cfg" using assms(2) by (simp_all add: available_def knows_def)
  ultimately have "\<exists>val bfg. gen_step z hash sha256 g cfg cb n e s = Again (s\<lparr>rc_bfg := bfg, haveShard := (haveShard s)(ebf_root e \<mapsto> val)\<rparr>) \<and>
      available cfg bfg = available cfg (rc_bfg s) - 1 \<and> knows bfg cfg" by blast
  then show ?thesis using False by simp
qed

lemma runs_out:
  assumes "instanceCount cfg = 1" and "knows (rc_bfg s) cfg" and "available cfg (rc_bfg s) < int (length es)" and "0 \<le> available cfg (rc_bfg s)"
    and "\<forall>e \<in> set es. ebf_blockNumber e = n \<and> ebf_start e \<ge> ebf_end e" and "distinct (map ebf_root es)"
    and "\<forall>e \<in> set es. haveShard s (ebf_root e) = None"
  shows "\<exists>rest. genBlockFromQueue z hash sha256 g cfg cb n (es @ q) s = (Stuck, rest)"
  using assms(2-7)
proof (induction es arbitrary: s)
  case (Cons e es)
  have e: "ebf_blockNumber e = n" "ebf_start e \<ge> ebf_end e" "haveShard s (ebf_root e) = None" using Cons.prems(4,6) by simp_all
  note step = empty_message[OF assms(1) Cons.prems(1) e, of z hash sha256 g cb]
  show ?case
  proof (cases "available cfg (rc_bfg s) < 1")
    case True
    then show ?thesis using step by simp
  next
    case False
    with step obtain val bfg where
      a: "gen_step z hash sha256 g cfg cb n e s = Again (s\<lparr>rc_bfg := bfg, haveShard := (haveShard s)(ebf_root e \<mapsto> val)\<rparr>)" (is "_ = Again ?s")
      "available cfg bfg = available cfg (rc_bfg s) - 1" "knows bfg cfg" by auto
    have "\<exists>rest. genBlockFromQueue z hash sha256 g cfg cb n (es @ q) ?s = (Stuck, rest)"
      using Cons.prems a(2,3) False by (intro Cons.IH) (auto simp: image_iff)
    then show ?thesis by (simp add: a(1))
  qed
qed simp

section \<open>Blocks without signatures\<close>

lemma unsigned_accepted: "signatures_accepted check h []"
  by (simp add: signatures_accepted_def)

lemma unsigned_stored:
  assumes "Block_deserializeFromString z (Some raw) 0 = (pl, Some block)" and "valid pl"
    and "blockSignatures e = []" and "ebf_blockNumber e = number (header block)"
    and "insertBlockAndNotify ops idx (block\<lparr>metadata := (metadata block)\<lparr>consensusSignatures := []\<rparr>\<rparr>) st = Some st'"
  shows "validateFunc z check ops idx raw [e] st = Some (True, [], st')"
  by (rule callback_stores[OF assms(1,2) unsigned_accepted]) (use assms(3-5) in simp_all)

text \<open>One signature is enough for its signer to be counted as often as it is repeated.\<close>

lemma repeated_signature: "check (ski sig) (digest sig) h \<Longrightarrow> signatures_accepted check h (replicate k (n, sig) @ replicate (k - 1) x)"
  by (auto simp: signatures_accepted_def)

end
