(* ===== verification/DemoCodec.thy ===== *)
theory DemoCodec
  imports FragmentCorrect
begin

text \<open>
  One implementation of the archives, for the examples of the properties that are stated for every
  implementation: a list has a mark before every element and at its end, a 32-bit word takes
  four bytes. It keeps the contract, does not depend on positions and writes every value but
  negative numbers. With it come a hash that shows its arguments and a replicating erasure code.
\<close>

section \<open>Formats\<close>

text \<open>A format: the bytes of a value, and the value at the front of some bytes with the number of bytes it takes.\<close>

type_synonym 'a format = "('a \<Rightarrow> string option) \<times> (string \<Rightarrow> ('a \<times> nat) option)"

definition format_ok :: "'a format \<Rightarrow> bool" where
  "format_ok f \<longleftrightarrow> (\<forall>x s r. fst f x = Some s \<longrightarrow> snd f (s @ r) = Some (x, length s))"

definition codec_of :: "'a format \<Rightarrow> 'a codec" where
  "codec_of f =
     \<lparr>out_of = (\<lambda>x buf pos. case fst f x of None \<Rightarrow> None | Some s \<Rightarrow> Some (take pos buf @ s @ drop (pos + length s) buf, pos + length s)),
      in_of = (\<lambda>buf pos. case snd f (drop pos buf) of None \<Rightarrow> None | Some (x, n) \<Rightarrow> Some (x, pos + n))\<rparr>"

lemma codec_of_ok:
  assumes "format_ok f"
  shows "codec_ok (codec_of f)"
  unfolding codec_ok_def
proof (intro allI impI)
  fix x buf pos buf' pos'
  assume pos: "pos \<le> length buf" and out: "out_of (codec_of f) x buf pos = Some (buf', pos')"
  then obtain s where x: "fst f x = Some s" by (cases "fst f x") (simp_all add: codec_of_def)
  then have s: "fst f x = Some s" "buf' = take pos buf @ s @ drop (pos + length s) buf" "pos' = pos + length s"
    using out by (auto simp: codec_of_def)
  have "in_of (codec_of f) b pos = Some (x, pos')" if "agree b buf' pos pos'" for b
  proof -
    have t: "take (length s) (drop pos b) = s" using that pos by (simp add: agree_def bytes_def s)
    have "snd f (take (length s) (drop pos b) @ drop (length s) (drop pos b)) = Some (x, length s)"
      unfolding t using assms s(1) unfolding format_ok_def by blast
    then have "snd f (drop pos b) = Some (x, length s)" by (simp only: append_take_drop_id)
    then show ?thesis by (simp add: codec_of_def s(3))
  qed
  moreover have "wrote buf pos buf' pos'" using pos by (simp add: wrote_def s)
  ultimately show "wrote buf pos buf' pos' \<and> (\<forall>b. agree b buf' pos pos' \<longrightarrow> in_of (codec_of f) b pos = Some (x, pos'))" by blast
qed

lemma codec_of_relocatable: "relocatable (codec_of f)"
  by (auto simp: relocatable_def codec_of_def add.commute split: option.splits)

text \<open>Characters, pairs and lists: an element of a list follows a one, the end is a zero.\<close>

definition char_format :: "char format" where
  "char_format = (\<lambda>c. Some [c], \<lambda>s. case s of [] \<Rightarrow> None | c # s \<Rightarrow> Some (c, 1))"

definition unit_format :: "unit format" where
  "unit_format = (\<lambda>u. Some [], \<lambda>s. Some ((), 0))"

definition via :: "('a \<Rightarrow> 'b) \<Rightarrow> ('b \<Rightarrow> 'a) \<Rightarrow> ('b \<Rightarrow> bool) \<Rightarrow> 'a format \<Rightarrow> 'b format" where
  "via f g ok a = (\<lambda>y. if ok y then fst a (g y) else None, \<lambda>s. map_option (\<lambda>(x, n). (f x, n)) (snd a s))"

definition pair_format :: "'a format \<Rightarrow> 'b format \<Rightarrow> ('a \<times> 'b) format" where
  "pair_format a b =
     (\<lambda>(x, y). do { s \<leftarrow> fst a x; t \<leftarrow> fst b y; Some (s @ t) },
      \<lambda>s. do { (x, n) \<leftarrow> snd a s; (y, m) \<leftarrow> snd b (drop n s); Some ((x, y), n + m) })"

fun elements_out :: "('a \<Rightarrow> string option) \<Rightarrow> 'a list \<Rightarrow> string option" where
  "elements_out e [] = Some [CHR 0x00]"
| "elements_out e (x # xs) = do { s \<leftarrow> e x; t \<leftarrow> elements_out e xs; Some (CHR 0x01 # s @ t) }"

fun elements_in :: "(string \<Rightarrow> ('a \<times> nat) option) \<Rightarrow> nat \<Rightarrow> string \<Rightarrow> ('a list \<times> nat) option" where
  "elements_in d (Suc k) (c # s) =
     (if c = CHR 0x00 then Some ([], 1)
      else do { (x, n) \<leftarrow> d s; (xs, m) \<leftarrow> elements_in d k (drop n s); Some (x # xs, Suc (n + m)) })"
| "elements_in d _ _ = None"

definition list_format :: "'a format \<Rightarrow> 'a list format" where
  "list_format a = (elements_out (fst a), \<lambda>s. elements_in (snd a) (length s) s)"

definition total_format :: "'a format \<Rightarrow> bool" where
  "total_format a \<longleftrightarrow> (\<forall>x. fst a x \<noteq> None)"

lemma via_ok: "format_ok a \<Longrightarrow> (\<And>y. ok y \<Longrightarrow> f (g y) = y) \<Longrightarrow> format_ok (via f g ok a)"
  by (auto simp: format_ok_def via_def)

lemma via_total: "total_format a \<Longrightarrow> (\<And>y. ok y) \<Longrightarrow> total_format (via f g ok a)"
  by (simp add: total_format_def via_def)

lemma pair_format_ok: "format_ok a \<Longrightarrow> format_ok b \<Longrightarrow> format_ok (pair_format a b)"
  by (auto simp: format_ok_def pair_format_def bind_eq_Some_conv)

lemma pair_total: "total_format a \<Longrightarrow> total_format b \<Longrightarrow> total_format (pair_format a b)"
  by (fastforce simp: total_format_def pair_format_def bind_eq_Some_conv)

lemma elements_ok:
  assumes "format_ok a" and "elements_out (fst a) xs = Some s" and "length s \<le> k"
  shows "elements_in (snd a) k (s @ r) = Some (xs, length s)"
  using assms(2,3)
proof (induction xs arbitrary: s k)
  case Nil
  then show ?case by (cases k) auto
next
  case (Cons x xs)
  then obtain u v where u: "fst a x = Some u" and v: "elements_out (fst a) xs = Some v" and s: "s = CHR 0x01 # u @ v"
    by (auto simp: bind_eq_Some_conv)
  obtain k' where k: "k = Suc k'" "length v \<le> k'" using Cons.prems(2) s by (cases k) auto
  have "snd a (u @ v @ r) = Some (x, length u)" using assms(1) u by (simp add: format_ok_def)
  then show ?case using Cons.IH[OF v k(2)] by (simp add: s k(1))
qed

lemma list_format_ok: "format_ok a \<Longrightarrow> format_ok (list_format a)"
  unfolding format_ok_def[of "list_format a"] by (auto simp: list_format_def intro: elements_ok)

lemma list_total:
  assumes "total_format a"
  shows "total_format (list_format a)"
proof -
  have "elements_out (fst a) xs \<noteq> None" for xs
    using assms by (induction xs) (auto simp: total_format_def bind_eq_None_conv)
  then show ?thesis by (simp add: total_format_def list_format_def)
qed

lemma base_formats: "format_ok char_format" "total_format char_format" "format_ok unit_format" "total_format unit_format"
  by (simp_all add: format_ok_def total_format_def char_format_def unit_format_def)

section \<open>The archives of the examples\<close>

definition string_format :: "string format" where
  "string_format = list_format char_format"

definition nat_format :: "nat format" where
  "nat_format = via length (\<lambda>n. replicate n ()) (\<lambda>n. True) (list_format unit_format)"

definition int_format :: "int format" where
  "int_format = via int nat (\<lambda>i. 0 \<le> i) nat_format"

definition word_format :: "'a :: len word format" where
  "word_format = via of_nat unat (\<lambda>w. True) nat_format"

text \<open>Four bytes, the lowest first.\<close>

definition u32_format :: "32 word format" where
  "u32_format = via (\<lambda>(a, b, c, d). of_nat (of_char a + 256 * (of_char b + 256 * (of_char c + 256 * of_char d))))
     (\<lambda>w. let n = unat w in (char_of n, char_of (n div 256), char_of (n div 256 div 256), char_of (n div 256 div 256 div 256)))
     (\<lambda>w. True) (pair_format char_format (pair_format char_format (pair_format char_format char_format)))"

definition tid_format :: "tid_type format" where
  "tid_format = via Abs_tid_type Rep_tid_type (\<lambda>t. True) (list_format word_format)"

definition signature_format :: "SignatureString format" where
  "signature_format = via (\<lambda>(s, d). \<lparr>ski = s, digest = d\<rparr>) (\<lambda>s. (ski s, digest s)) (\<lambda>s. True) (pair_format string_format tid_format)"

definition envelop_format :: "Envelop format" where
  "envelop_format = via (\<lambda>(p, s). \<lparr>payload = p, signature = s\<rparr>) (\<lambda>e. (payload e, signature e)) (\<lambda>e. True)
     (pair_format string_format signature_format)"

definition kv_format :: "KV format" where
  "kv_format = via (\<lambda>(k, v). \<lparr>kv_key = k, kv_value = v\<rparr>) (\<lambda>kv. (kv_key kv, kv_value kv)) (\<lambda>kv. True)
     (pair_format string_format string_format)"

definition rwset_format :: "TxReadWriteSet format" where
  "rwset_format = via (\<lambda>(d, v, c, r, w). \<lparr>requestDigest = d, retValue = v, retCode = c, rw_reads = r, rw_writes = w\<rparr>)
     (\<lambda>t. (requestDigest t, retValue t, retCode t, rw_reads t, rw_writes t)) (\<lambda>t. True)
     (pair_format tid_format (pair_format string_format (pair_format int_format
        (pair_format (list_format kv_format) (list_format kv_format)))))"

lemma four_chars:
  assumes "n < (2 ^ 32 :: nat)"
  shows "n mod 256 + 256 * (n div 256 mod 256 + 256 * (n div 256 div 256 mod 256 + 256 * (n div 256 div 256 div 256 mod 256))) = n"
proof -
  have "n div 256 div 256 div 256 < 256" using assms by (simp add: div_mult2_eq[symmetric] less_mult_imp_div_less)
  then have "n div 256 div 256 div 256 mod 256 = n div 256 div 256 div 256" by (rule mod_less)
  then show ?thesis by simp
qed

lemma demo_formats_ok:
  "format_ok string_format" "format_ok nat_format" "format_ok int_format" "format_ok (word_format :: 'a :: len word format)"
  "format_ok u32_format" "format_ok tid_format" "format_ok signature_format" "format_ok envelop_format"
  "format_ok kv_format" "format_ok rwset_format"
proof -
  show s: "format_ok string_format" unfolding string_format_def by (intro list_format_ok base_formats)
  show n: "format_ok nat_format" unfolding nat_format_def by (intro via_ok list_format_ok base_formats) simp
  show i: "format_ok int_format" unfolding int_format_def by (intro via_ok n) simp
  show "format_ok (word_format :: 'a :: len word format)" unfolding word_format_def by (intro via_ok n) simp
  have w: "format_ok (word_format :: 8 word format)" unfolding word_format_def by (intro via_ok n) simp
  have "of_nat (of_char (char_of (unat w)) + 256 * (of_char (char_of (unat w div 256)) + 256 * (of_char (char_of (unat w div 256 div 256)) +
      256 * of_char (char_of (unat w div 256 div 256 div 256))))) = w" for w :: "32 word"
  proof -
    have "unat w < 2 ^ 32" using unsigned_less[of w, where 'a = nat] by simp
    then show ?thesis by (simp only: of_char_of four_chars) simp
  qed
  then show "format_ok u32_format" unfolding u32_format_def
    by (intro via_ok pair_format_ok base_formats) (simp only: Let_def prod.case)
  show t: "format_ok tid_format" unfolding tid_format_def by (intro via_ok list_format_ok w) (simp add: Rep_tid_type_inverse)
  show g: "format_ok signature_format" unfolding signature_format_def by (intro via_ok pair_format_ok s t) simp
  show "format_ok envelop_format" unfolding envelop_format_def by (intro via_ok pair_format_ok s g) simp
  show k: "format_ok kv_format" unfolding kv_format_def by (intro via_ok pair_format_ok s) simp
  show "format_ok rwset_format" unfolding rwset_format_def by (intro via_ok pair_format_ok list_format_ok s t i k) simp
qed

lemma demo_formats_total:
  "total_format string_format" "total_format nat_format" "total_format (word_format :: 'a :: len word format)" "total_format u32_format"
  "total_format tid_format" "total_format signature_format" "total_format envelop_format" "total_format kv_format"
  unfolding string_format_def nat_format_def word_format_def u32_format_def tid_format_def signature_format_def envelop_format_def kv_format_def
  by (intro via_total pair_total list_total base_formats TrueI)+

definition demo_prims :: prims where
  "demo_prims =
     \<lparr>c_u64 = codec_of word_format, c_u32 = codec_of u32_format, c_i64 = codec_of int_format, c_i32 = codec_of int_format,
      c_hash = codec_of string_format, c_digest = codec_of tid_format, c_string = codec_of string_format,
      c_filter = codec_of (list_format word_format), c_envelops = codec_of (list_format envelop_format),
      c_rwsets = codec_of (list_format rwset_format), c_kvs = codec_of (list_format kv_format),
      c_sigpairs = codec_of (list_format (pair_format string_format signature_format)),
      c_sigs = codec_of (list_format signature_format)\<rparr>"

lemma demo_prims_ok: "prims_ok demo_prims"
  unfolding prims_ok_def demo_prims_def prims.simps
  by (intro conjI codec_of_ok pair_format_ok list_format_ok demo_formats_ok base_formats)

lemma demo_prims_relocatable: "prims_relocatable demo_prims"
  by (simp add: prims_relocatable_def demo_prims_def codec_of_relocatable)

section \<open>Hash and erasure code of the examples\<close>

definition demo_hash :: "string \<Rightarrow> string \<Rightarrow> string" where
  "demo_hash a b = ''('' @ a @ b @ '')''"

definition demo_sha256 :: "string \<Rightarrow> string option" where
  "demo_sha256 s = Some (CHR ''#'' # s)"

text \<open>Every shard is the message.\<close>

definition copies :: "nat \<Rightarrow> grc" where
  "copies n = \<lparr>grc_encode = (\<lambda>m. if m = [] then None else Some (replicate n m)),
     grc_decode = (\<lambda>xs n len. case filter (\<lambda>x. x \<noteq> None) xs of [] \<Rightarrow> None | x # ys \<Rightarrow> x)\<rparr>"

lemma copies_ok:
  assumes "0 < dataShardCnt cfg" and "0 \<le> parityShardCnt cfg" and n: "n = nat (dataShardCnt cfg + parityShardCnt cfg)"
  shows "erasure_ok (copies n) cfg"
  unfolding erasure_ok_def
proof (intro allI impI conjI)
  fix msg shards assume "grc_encode (copies n) msg = Some shards"
  then have m: "msg \<noteq> []" "shards = replicate n msg" by (auto simp: copies_def split: if_splits)
  show "int (length shards) = dataShardCnt cfg + parityShardCnt cfg" using assms m by simp
  have "grc_decode (copies n) xs (length msg) (int (length msg)) = Some msg"
    if xs: "length xs = length shards" "\<forall>i < length xs. xs ! i = None \<or> xs ! i = Some (shards ! i)"
      "dataShardCnt cfg \<le> int (length (filter (\<lambda>x. x \<noteq> None) xs))" for xs
  proof -
    have sub: "set (filter (\<lambda>x. x \<noteq> None) xs) \<subseteq> {Some msg}" using xs(1,2) m(2) by (auto simp: in_set_conv_nth)
    have "filter (\<lambda>x. x \<noteq> None) xs \<noteq> []" using xs(3) assms(1) by (intro notI) simp
    then obtain a ys where f: "filter (\<lambda>x. x \<noteq> None) xs = a # ys" by (meson neq_Nil_conv)
    then have "a = Some msg" using sub by simp
    then show ?thesis by (simp only: copies_def grc.simps f list.case)
  qed
  then show "\<exists>k > 0. (\<forall>s \<in> set shards. length s = k) \<and> (\<forall>xs. length xs = length shards \<and>
      (\<forall>i < length xs. xs ! i = None \<or> xs ! i = Some (shards ! i)) \<and> dataShardCnt cfg \<le> int (length (filter (\<lambda>x. x \<noteq> None) xs)) \<longrightarrow>
      grc_decode (copies n) xs k (int (length msg)) = Some msg)"
    using m by (intro exI[of _ "length msg"]) auto
qed

end
