(* ===== verification/DemoReplication.thy ===== *)
theory DemoReplication
  imports ReplicationLimits DemoCodec
begin

text \<open>
  An example of a block on its way: the sender's context for a block without transactions, cut
  into two copies, the messages, and the tree of eight fragments of another example.
\<close>

section \<open>Writing succeeds\<close>

definition writable :: "'a codec \<Rightarrow> 'a \<Rightarrow> bool" where
  "writable c x \<longleftrightarrow> (\<forall>buf pos. out_of c x buf pos \<noteq> None)"

lemma writableE:
  assumes "writable c x"
  obtains buf' pos' where "out_of c x buf pos = Some (buf', pos')"
proof -
  have "out_of c x buf pos \<noteq> None" using assms unfolding writable_def by blast
  then show thesis using that by (cases "out_of c x buf pos") auto
qed

lemma writable_seq: "writable c x \<Longrightarrow> writable d y \<Longrightarrow> writable (seq_codec c d) (x, y)"
proof -
  assume c: "writable c x" and d: "writable d y"
  have "out_of (seq_codec c d) (x, y) buf pos \<noteq> None" for buf pos
  proof -
    obtain b p where "out_of c x buf pos = Some (b, p)" using c by (rule writableE)
    moreover obtain b' p' where "out_of d y b p = Some (b', p')" using d by (rule writableE)
    ultimately show ?thesis by (simp add: seq_codec_def)
  qed
  then show ?thesis unfolding writable_def by blast
qed

lemma writable_codec_of: "writable (codec_of f) x \<longleftrightarrow> fst f x \<noteq> None"
  by (auto simp: writable_def codec_of_def split: option.split)

lemma out_siblings_writes:
  assumes "\<forall>h \<in> set hs. writable (c_hash z) h"
  shows "\<exists>buf' pos'. out_siblings z hs buf pos = Some (buf', pos')"
  using assms
proof (induction hs arbitrary: buf pos)
  case (Cons h hs)
  have "writable (c_hash z) h" using Cons.prems by simp
  then obtain b p where "out_of (c_hash z) h buf pos = Some (b, p)" by (rule writableE)
  then show ?case using Cons by simp
qed simp

definition fragments_writable :: "prims \<Rightarrow> string mproof list \<Rightarrow> string list \<Rightarrow> bool" where
  "fragments_writable z ps res \<longleftrightarrow> (\<forall>p \<in> set ps. writable (c_u32 z) (Path p) \<and> (\<forall>h \<in> set (Siblings p). writable (c_hash z) h) \<and>
     (\<forall>n \<le> length (Siblings p). writable (c_i64 z) (int n))) \<and> (\<forall>r \<in> set res. writable (c_string z) r)"

lemma out_fragment_writes:
  assumes w: "fragments_writable z ps res" and i: "i < length ps" "i < length res"
    and d: "length (Siblings (ps ! i)) = d" "i \<noteq> first \<Longrightarrow> length (Siblings (ps ! (i - 1))) = d"
  shows "\<exists>buf' pos'. out_fragment z ps res d first i buf pos = Some (buf', pos')"
proof -
  let ?n = "written_siblings ps d first i" and ?p = "ps ! i"
  have n: "?n \<le> d" using last_diff_suffix[OF d(1) d(2), of d] by (auto simp: written_siblings_def)
  have "?p \<in> set ps" "res ! i \<in> set res" using i by simp_all
  then have p: "writable (c_u32 z) (Path ?p)" "writable (c_i64 z) (int ?n)" "\<forall>h \<in> set (take ?n (Siblings ?p)). writable (c_hash z) h"
    "writable (c_string z) (res ! i)"
    using w n d(1) unfolding fragments_writable_def by (auto dest: in_set_takeD)
  obtain b1 p1 where 1: "out_of (seq_codec (c_u32 z) (c_i64 z)) (Path ?p, int ?n) buf pos = Some (b1, p1)"
    using writable_seq[OF p(1,2)] by (rule writableE)
  obtain b2 p2 where 2: "out_siblings z (take ?n (Siblings ?p)) b1 p1 = Some (b2, p2)" using out_siblings_writes[OF p(3)] by blast
  obtain b3 p3 where 3: "out_of (c_string z) (res ! i) b2 p2 = Some (b3, p3)" using p(4) by (rule writableE)
  show ?thesis by (simp add: out_fragment_def Let_def 1 2 3)
qed

lemma out_fragments_writes:
  assumes "fragments_writable z ps res" and "proofs_ok hash sha256 root d ps res" and "set is \<subseteq> {0..<length ps}"
  shows "\<exists>buf' pos'. out_fragments z ps res d first is buf pos = Some (buf', pos')"
  using assms(3)
proof (induction "is" arbitrary: buf pos)
  case (Cons i "is")
  have "length (Siblings (ps ! i)) = d" "length (Siblings (ps ! (i - 1))) = d" "i < length res" "i < length ps"
    using assms(2) Cons.prems by (auto simp: proofs_ok_def)
  from out_fragment_writes[OF assms(1) this(4,3,1,2)] obtain b p where "out_fragment z ps res d first i buf pos = Some (b, p)" by blast
  then show ?case using Cons by simp
qed simp

lemma serialize_succeeds:
  assumes e: "encoded hash sha256 ctx mt d" and w: "fragments_writable z (Proofs mt) (ecEncodeResult ctx)" "writable (c_i64 z) (int d)"
    and r: "0 \<le> start" "start < stop" "stop \<le> fragmentCnt ctx" and one: "instanceCount (ecConfig ctx) = 1"
  shows "\<exists>raw. serializeFragments z ctx start stop buf offset = Inr (True, raw)"
proof -
  have mt: "ctx_mt ctx = Some mt" and ok: "proofs_ok hash sha256 (Root mt) d (Proofs mt) (ecEncodeResult ctx)"
    and len: "length (ecEncodeResult ctx) = nat (fragmentCnt ctx)" using e one by (simp_all add: encoded_def)
  have lp: "length (Proofs mt) = nat (fragmentCnt ctx)" using ok len by (simp add: proofs_ok_def)
  have dep: "length (Siblings (Proofs mt ! nat start)) = d" using ok unfolding proofs_ok_def lp using r by auto
  have ne: "ecEncodeResult ctx \<noteq> []" using len r by auto
  obtain b p where 1: "out_of (c_i64 z) (int d) (enlarge buf (reserve_size (ecEncodeResult ctx) d [nat start..<nat stop] offset)) offset = Some (b, p)"
    using w(2) by (rule writableE)
  have "set [nat start..<nat stop] \<subseteq> {0..<length (Proofs mt)}" using r lp by auto
  from out_fragments_writes[OF w(1) ok this] obtain b' p' where
    "out_fragments z (Proofs mt) (ecEncodeResult ctx) d (nat start) [nat start..<nat stop] b p = Some (b', p')" by blast
  then show ?thesis using r ne 1 by (simp add: serializeFragments_def mt one dep Let_def)
qed

lemma send_succeeds:
  assumes e: "encoded hash sha256 ctx mt d" and w: "fragments_writable z (Proofs mt) (ecEncodeResult ctx)" "writable (c_i64 z) (int d)"
    and r: "0 \<le> rfs_start r" "rfs_start r < rfs_end r" "rfs_end r \<le> fragmentCnt ctx" "rfs_end r < 2 ^ 31"
    and one: "instanceCount (ecConfig ctx) = 1"
    and f: "writable (ebf_fields z) (sigs, n, Root mt, of_nat sz, word_of_int (rfs_start r), word_of_int (rfs_end r))"
  shows "\<exists>m. encodeAndSendFragment z ctx n sz sigs r = Inr (Some m)"
proof -
  have s: "sint (word_of_int k :: 32 word) = k" if "0 \<le> k" "k < 2 ^ 31" for k
  proof -
    have "signed_take_bit 31 k = k" using that by (intro signed_take_bit_int_eq_self) auto
    then show ?thesis by (simp add: signed_of_int)
  qed
  have "sint (word_of_int (rfs_start r) :: 32 word) = rfs_start r" "sint (word_of_int (rfs_end r) :: 32 word) = rfs_end r"
    using r by (auto intro!: s)
  moreover obtain buf pos where "out_of (ebf_fields z) (sigs, n, Root mt, of_nat sz, word_of_int (rfs_start r), word_of_int (rfs_end r)) [] 0 = Some (buf, pos)"
    using f by (rule writableE)
  moreover obtain raw where "serializeFragments z ctx (rfs_start r) (rfs_end r) buf (length buf) = Inr (True, raw)"
    using serialize_succeeds[OF e w r(1-3) one] by blast
  moreover have "ctx_mt ctx = Some mt" using e by (simp add: encoded_def)
  ultimately show ?thesis by (simp add: encodeAndSendFragment_def Let_def EBF_serializeToString_def)
qed

lemma writable_total: "total_format a \<Longrightarrow> writable (codec_of a) x"
  by (simp add: writable_codec_of total_format_def)

lemma demo_writable:
  "writable (c_hash demo_prims) s" "writable (c_string demo_prims) s" "writable (c_u64 demo_prims) n" "writable (c_u32 demo_prims) w"
  "writable (c_sigpairs demo_prims) sigs" "0 \<le> i \<Longrightarrow> writable (c_i64 demo_prims) i"
proof -
  have "total_format (list_format (pair_format string_format signature_format))"
    by (intro list_total pair_total demo_formats_total)
  then show "writable (c_hash demo_prims) s" "writable (c_string demo_prims) s" "writable (c_u64 demo_prims) n" "writable (c_u32 demo_prims) w"
      "writable (c_sigpairs demo_prims) sigs"
    by (simp_all add: demo_prims_def writable_total demo_formats_total)
  show "writable (c_i64 demo_prims) i" if "0 \<le> i"
    using demo_formats_total(2) that by (simp add: demo_prims_def writable_codec_of int_format_def via_def total_format_def)
qed

section \<open>A block without transactions\<close>

definition demo_block :: Block where
  "demo_block = \<lparr>header = \<lparr>number = 1, previousHash = [], dataHash = []\<rparr>, body = [],
     executeResult = \<lparr>txReadWriteSet = [], transactionFilter = []\<rparr>, metadata = \<lparr>consensusSignatures = [], validateSignatures = []\<rparr>\<rparr>"

definition demo_raw :: string where
  "demo_raw = [CHR 0x01, CHR 0x00, CHR 0x00, CHR 0x00, CHR 0x00, CHR 0x00, CHR 0x00, CHR 0x00, CHR 0x00]"

definition demo_pos :: PosList where
  "demo_pos = \<lparr>valid = True, headerPos = 0, bodyPos = 4, execResultPos = 5, metadataPos = 7, endPos = 9\<rparr>"

lemma out_codec_of:
  "fst a x = Some s \<Longrightarrow> out_of (codec_of a) x buf pos = Some (take pos buf @ s @ drop (pos + length s) buf, pos + length s)"
  by (simp add: codec_of_def)

lemma demo_serialized: "Block_serializeToString demo_prims demo_block [] 0 = (demo_pos, demo_raw)"
proof -
  have f: "fst (list_format a) [] = Some [CHR 0x00]" for a :: "'a format" by (simp add: list_format_def)
  have w: "fst (word_format :: 64 word format) 1 = Some [CHR 0x01, CHR 0x00]"
    by (simp add: word_format_def nat_format_def via_def list_format_def unit_format_def)
  have "out_of (Header_serialize demo_prims) (header demo_block) [] 0 = Some ([CHR 0x01, CHR 0x00, CHR 0x00, CHR 0x00], 4)"
    by (simp add: Header_serialize_def map_codec_def seq_codec_def demo_prims_def demo_block_def string_format_def out_codec_of[OF f] out_codec_of[OF w])
  moreover have "out_of (c_envelops demo_prims) (body demo_block) buf pos = Some (take pos buf @ [CHR 0x00] @ drop (pos + 1) buf, pos + 1)" for buf pos
    by (simp add: demo_prims_def demo_block_def out_codec_of[OF f])
  moreover have "out_of (ExecuteResult_serialize demo_prims) (executeResult demo_block) [CHR 0x01, CHR 0x00, CHR 0x00, CHR 0x00, CHR 0x00] 5 =
      Some ([CHR 0x01, CHR 0x00, CHR 0x00, CHR 0x00, CHR 0x00, CHR 0x00, CHR 0x00], 7)"
    by (simp add: ExecuteResult_serialize_def map_codec_def seq_codec_def demo_prims_def demo_block_def out_codec_of[OF f])
  moreover have "out_of (Metadata_serialize demo_prims) (metadata demo_block) [CHR 0x01, CHR 0x00, CHR 0x00, CHR 0x00, CHR 0x00, CHR 0x00, CHR 0x00] 7 =
      Some (demo_raw, 9)"
    by (simp add: Metadata_serialize_def map_codec_def seq_codec_def demo_prims_def demo_block_def demo_raw_def out_codec_of[OF f])
  ultimately show ?thesis by (simp add: Block_serializeToString_def PosList_init_def demo_pos_def Let_def)
qed

definition demo_cfg :: bfg_config where
  "demo_cfg = \<lparr>dataShardCnt = 1, parityShardCnt = 1, instanceCount = 1, bfg_concurrency = 1\<rparr>"

definition demo_tree :: "string merkle" where
  "demo_tree = merkle_of [] demo_hash (new_config fragment_tree_config None) [CHR ''#'' # demo_raw, CHR ''#'' # demo_raw]"

definition demo_ctx :: fragment_context where
  "demo_ctx = (new_context demo_cfg)\<lparr>ecEncodeResult := [demo_raw, demo_raw], ctx_mt := Some demo_tree\<rparr>"

lemma demo_init: "initWithMessage [] demo_hash demo_sha256 (copies 2) demo_raw (new_context demo_cfg) = Inr (True, demo_ctx)"
proof -
  have u: "undisturbed fragment_tree_config None" by (simp add: undisturbed_def fragment_tree_config_def)
  show ?thesis
    by (simp add: initWithMessage_def new_context_def demo_cfg_def Let_def copies_def encode_task_def substr_def piece_length_def
        New_eq[OF u] demo_sha256_def demo_ctx_def demo_tree_def demo_raw_def upt_rec numeral_2_eq_2)
qed

lemma demo_config: "instanceCount demo_cfg = 1" "0 < dataShardCnt demo_cfg" "erasure_ok (copies 2) demo_cfg"
  "nat (dataShardCnt demo_cfg + parityShardCnt demo_cfg) \<le> int_max"
  by (auto simp: demo_cfg_def int_max_def intro!: copies_ok)

lemma demo_encoded: "encoded demo_hash demo_sha256 demo_ctx demo_tree 1"
proof -
  from initWithMessage_encoded[OF demo_init] demo_config obtain mt where
    e: "encoded demo_hash demo_sha256 demo_ctx mt (calTreeDepth (length (ecEncodeResult demo_ctx)))"
    by (auto simp: new_context_def)
  moreover have "mt = demo_tree" using e by (simp add: encoded_def demo_ctx_def)
  moreover have "calTreeDepth (length (ecEncodeResult demo_ctx)) = 1" by code_simp
  ultimately show ?thesis by simp
qed

text \<open>The message with the first fragment, and what a receiver reads.\<close>

lemma demo_sent:
  obtains ebf where "from_sender demo_prims demo_ctx demo_block demo_raw ebf" "ebf_blockNumber ebf = 1" "range_of ebf = {0}"
proof -
  let ?r = "\<lparr>rfs_start = 0, rfs_end = 1\<rparr>"
  have w: "fragments_writable demo_prims (Proofs demo_tree) (ecEncodeResult demo_ctx)" "writable (c_i64 demo_prims) (int 1)"
    by (simp_all add: fragments_writable_def demo_writable)
  have f: "writable (ebf_fields demo_prims) ([], 1, Root demo_tree, of_nat (length demo_raw), word_of_int (rfs_start ?r), word_of_int (rfs_end ?r))"
    unfolding ebf_fields_def by (intro writable_seq demo_writable)
  have cnt: "rfs_end ?r \<le> fragmentCnt demo_ctx" "instanceCount (ecConfig demo_ctx) = 1"
    by (simp_all add: demo_ctx_def new_context_def demo_cfg_def)
  from send_succeeds[OF demo_encoded w _ _ cnt(1) _ cnt(2) f] obtain m where
    m: "encodeAndSendFragment demo_prims demo_ctx 1 (length demo_raw) [] ?r = Inr (Some m)" by auto
  from sender_message[OF demo_prims_ok demo_prims_relocatable demo_encoded m] obtain ebf where
    e: "EBF_deserializeFromString demo_prims m 0 = Some ebf" "ebf_blockNumber ebf = 1" "ebf_start ebf = 0" "ebf_end ebf = 1" by auto
  have "from_sender demo_prims demo_ctx demo_block demo_raw ebf"
    unfolding from_sender_def using m e(1) by (auto simp: demo_block_def)
  moreover have "range_of ebf = {0}" by (simp add: range_of_def e(3,4))
  ultimately show thesis using that e(2) by blast
qed

section \<open>Eight fragments\<close>

definition letters :: "string list" where
  "letters = [''a'', ''b'', ''c'', ''d'', ''e'', ''f'', ''g'', ''h'']"

definition letters_tree :: "string merkle" where
  "letters_tree = merkle_of [] demo_hash (new_config fragment_tree_config None) (map (\<lambda>s. CHR ''#'' # s) letters)"

definition letters_cfg :: bfg_config where
  "letters_cfg = \<lparr>dataShardCnt = 4, parityShardCnt = 4, instanceCount = 1, bfg_concurrency = 1\<rparr>"

definition letters_ctx :: fragment_context where
  "letters_ctx = (new_context letters_cfg)\<lparr>ecEncodeResult := letters, ctx_mt := Some letters_tree\<rparr>"

text \<open>The context is the one that encoding a message leaves when the erasure code gives these shards.\<close>

lemma letters_init:
  assumes "grc_encode g message = Some letters"
  shows "initWithMessage [] demo_hash demo_sha256 g message (new_context letters_cfg) = Inr (True, letters_ctx)"
proof -
  have u: "undisturbed fragment_tree_config None" by (simp add: undisturbed_def fragment_tree_config_def)
  have leaf: "leafGen demo_sha256 letters = Some (map (\<lambda>s. CHR ''#'' # s) letters)"
    by (simp add: leafGen_map demo_sha256_def comp_def)
  have "fold (\<lambda>j r. r[j := letters ! j]) [0..<8] (replicate 8 []) = letters" by (rule fill_shards) (simp add: letters_def)
  then have t: "encode_tasks g 1 8 (piece_length (length message) 1) message [0..<1] (True, replicate (1 * 8) []) = Some (True, letters)"
    using assms by (simp add: substr_def piece_length_def encode_task_def)
  have "New [] demo_hash demo_sha256 fragment_tree_config None letters = Some letters_tree"
    by (simp add: New_eq[OF u] leaf letters_tree_def) (simp add: letters_def)
  then show ?thesis using t by (simp add: initWithMessage_def new_context_def letters_cfg_def letters_ctx_def Let_def)
qed

lemma letters_encoded: "encoded demo_hash demo_sha256 letters_ctx letters_tree 3"
proof -
  let ?g = "\<lparr>grc_encode = \<lambda>m. Some letters, grc_decode = \<lambda>xs n len. None\<rparr>"
  have "initWithMessage [] demo_hash demo_sha256 ?g [] (new_context letters_cfg) = Inr (True, letters_ctx)" by (rule letters_init) simp
  from initWithMessage_encoded[OF this] obtain mt where
    e: "encoded demo_hash demo_sha256 letters_ctx mt (calTreeDepth (length (ecEncodeResult letters_ctx)))"
    by (auto simp: new_context_def letters_cfg_def int_max_def)
  moreover have "mt = letters_tree" using e by (simp add: encoded_def letters_ctx_def)
  moreover have "calTreeDepth (length (ecEncodeResult letters_ctx)) = 3" by code_simp
  ultimately show ?thesis by simp
qed

lemma letters_context: "instanceCount (ecConfig letters_ctx) = 1" "fragmentCnt letters_ctx = 8"
  "ecEncodeResult letters_ctx = letters" "ctx_mt letters_ctx = Some letters_tree"
  by (simp_all add: letters_ctx_def new_context_def letters_cfg_def)

lemma letters_serialized:
  assumes "0 \<le> start" and "start < stop" and "stop \<le> 8"
  obtains raw where "serializeFragments demo_prims letters_ctx start stop [] 0 = Inr (True, raw)"
proof -
  have "fragments_writable demo_prims (Proofs letters_tree) (ecEncodeResult letters_ctx)" "writable (c_i64 demo_prims) (int 3)"
    by (simp_all add: fragments_writable_def demo_writable)
  from serialize_succeeds[OF letters_encoded this assms(1,2)] assms(3) letters_context(1,2) that show thesis by auto
qed

lemma demo_four_bytes: "four_bytes (c_u32 demo_prims)"
proof -
  have "n = 4" if "snd u32_format s = Some (x, n)" for s x n
    using that by (auto simp: u32_format_def via_def pair_format_def char_format_def bind_eq_Some_conv split: list.splits)
  then show ?thesis by (auto simp: four_bytes_def demo_prims_def codec_of_def split: option.splits)
qed

text \<open>The proof that a receiver of the fragments 3 to 6 puts together for fragment 6 when it has 4 and 5 is not valid.\<close>

lemma letters_stale:
  "Verify demo_hash demo_sha256 (letters ! 6) (stale_proof (Proofs letters_tree) 3 3) (Root letters_tree) = Some False"
proof -
  have "Proofs letters_tree = proofs_upto demo_hash (map (\<lambda>s. CHR ''#'' # s) letters) 3"
    "Root letters_tree = merkle_root demo_hash (map (\<lambda>s. CHR ''#'' # s) letters)"
    by (simp_all add: letters_tree_def merkle_of_def fragment_tree_config_def Let_def) (simp add: letters_def, code_simp)
  then show ?thesis by (simp only:) code_simp
qed

end
