(* ===== verification/ReplicationProperties.thy ===== *)
theory ReplicationProperties
  imports DemoReplication
begin

text \<open>
  Properties of the replication of blocks between regions: the plan that shares the fragments out,
  their serialized form, the receiver and the storage it fills; and where the receiver
  accepts too much or stops.
\<close>

section \<open>From the sender to the storage\<close>

text \<open>
  C1: A block that the peers of one region send arrives in the storage of a peer of another region.
  Let the context of the senders be the one that encoding the serialized block leaves, let the
  queue for the number of the block hold messages that senders produced for disjoint ranges of
  fragments, in any order and among messages for other blocks, and let these fragments be at least as
  many as the erasure code needs. Then the receiver returns, and a waiting reader of the
  storage gets the block with the signatures of the senders. Assumed of third-party code: the archives
  keep their contract, the erasure code recovers a message from enough shards, and the
  signatures verify.
\<close>

theorem block_delivered:
  fixes st :: "mr_store storage"
  assumes "prims_ok z" "prims_relocatable z" and "erasure_ok g cfg"
    and "Block_serializeToString z block0 [] 0 = (pl, raw)" "valid pl" "length raw \<le> int_max"
    and "block = block0\<lparr>metadata := (metadata block0)\<lparr>consensusSignatures := sigs\<rparr>\<rparr>"
    and "initWithMessage zero hash sha256 g raw (new_context cfg) = Inr (True, ctx)"
    and "instanceCount cfg = 1" "0 < dataShardCnt cfg" "nat (dataShardCnt cfg + parityShardCnt cfg) \<le> int_max"
    and "es = filter (\<lambda>e. ebf_blockNumber e = number (header block)) q" "\<forall>e \<in> set es. from_sender z ctx block raw e"
      "disjoint_ranges es" "nat (dataShardCnt cfg) \<le> card (\<Union> (range_of ` set es))"
    and "getEmptyContext bfg cfg = Context c0 bfg'" "signatures_accepted check (take (bodyPos pl) raw) sigs"
    and "storage_ok mr_inv st" "0 \<le> idx" "idx < int (length (newBlockFutexList st))"
      "fst (mr_getBlock (nat idx) (number (header block)) (derived st)) = None"
  shows "\<exists>s' rest. genBlockFromQueue z hash sha256 g cfg (validateFunc z check mr_ops idx) (number (header block)) q (new_receiver bfg st) =
      (Returns [] s', rest) \<and> fst (waitForBlock mr_ops idx (number (header block)) t e (rc_store s')) = Ready (Some block)"
  using assms by (intro delivered[of z block0 pl raw block sigs zero hash sha256 g cfg ctx es q bfg c0 bfg' check st idx t e])

text \<open>Witness: a block without transactions, two copies of it as shards, and the message with the first of them.\<close>

theorem block_delivered_witness:
  "\<exists>q s' rest. q \<noteq> [] \<and>
     genBlockFromQueue demo_prims demo_hash demo_sha256 (copies 2) demo_cfg (validateFunc demo_prims (\<lambda>s d h. True) mr_ops 1) 1 q
       (new_receiver \<lparr>ecMap_x = 2, ecMap_y = 2, semaMap = \<lambda>xy. 1\<rparr> (MRBlockStorage 2 100)) = (Returns [] s', rest) \<and>
     fst (waitForBlock mr_ops 1 1 0 False (rc_store s')) = Ready (Some demo_block)"
proof -
  obtain ebf where ebf: "from_sender demo_prims demo_ctx demo_block demo_raw ebf" "ebf_blockNumber ebf = 1" "range_of ebf = {0}"
    by (rule demo_sent)
  let ?st = "MRBlockStorage 2 100"
  have num: "number (header demo_block) = 1" "demo_block\<lparr>metadata := (metadata demo_block)\<lparr>consensusSignatures := []\<rparr>\<rparr> = demo_block"
    by (simp_all add: demo_block_def)
  obtain c b where ctx: "getEmptyContext \<lparr>ecMap_x = 2, ecMap_y = 2, semaMap = \<lambda>xy. 1\<rparr> demo_cfg = Context c b"
    by (simp add: getEmptyContext_def demo_cfg_def Let_def)
  have st: "storage_ok mr_inv ?st" "fst (mr_getBlock (nat 1) (number (header demo_block)) (derived ?st)) = None"
    "1 < int (length (newBlockFutexList ?st))"
    by (simp_all add: storage_ok_def mr_inv_def MRBlockStorage_def BlockStorageBase_def mr_getBlock_def)
  from block_delivered[OF demo_prims_ok demo_prims_relocatable demo_config(3) demo_serialized _ _ num(2)[symmetric] demo_init
      demo_config(1,2,4) _ _ _ _ ctx _ st(1) _ st(3) st(2), of "[ebf]" "[ebf]" "\<lambda>s d h. True" 0 False]
  show ?thesis using ebf
    by (auto simp: num demo_pos_def demo_raw_def int_max_def disjoint_ranges_def demo_cfg_def signatures_accepted_def intro!: exI[of _ "[ebf]"])
qed

text \<open>
  C9: Fragments that a sender serialized, at any offset of a buffer, are loaded as they were into
  the storages of a context that lacks them, and no other storage changes. The message
  leaves out the siblings that a proof shares with the one before it; they are restored.
\<close>

theorem fragments_read_back:
  assumes "prims_ok z" "prims_relocatable z" and "encoded hash sha256 ctx mt d" and "offset \<le> length buf"
    and "serializeFragments z ctx start stop buf offset = Inr (True, raw)"
    and "instanceCount (ecConfig ctx') = instanceCount (ecConfig ctx)" and "stop \<le> fragmentCnt ctx'"
    and "fresh_between (decodeStorageList ctx') (nat start) (nat stop)"
  shows "\<exists>dsl. validateAndDeserializeFragments z hash sha256 (Root mt) (drop offset raw) start stop ctx' =
      Inr (True, ctx'\<lparr>decodeStorageList := dsl\<rparr>) \<and>
    loaded (decodeStorageList ctx') dsl (nat start) (nat (stop - start)) (\<lambda>j. fragment_at ctx (nat start + j))"
proof -
  have "0 \<le> start" using serialize_reads[OF assms(1,3,4,5)] by blast
  then show ?thesis using fragments_roundtrip[OF assms(1-6), of start] assms(7,8) by simp
qed

text \<open>Witness: the fragments 2 to 6 of eight, behind three other bytes.\<close>

theorem fragments_read_back_witness:
  "\<exists>raw dsl. validateAndDeserializeFragments demo_prims demo_hash demo_sha256 (Root letters_tree) raw 2 7 (new_context letters_cfg) =
      Inr (True, (new_context letters_cfg)\<lparr>decodeStorageList := dsl\<rparr>) \<and>
    loaded (decodeStorageList (new_context letters_cfg)) dsl 2 5 (\<lambda>j. fragment_at letters_ctx (2 + j))"
proof -
  have "fragments_writable demo_prims (Proofs letters_tree) (ecEncodeResult letters_ctx)" "writable (c_i64 demo_prims) (int 3)"
    by (simp_all add: fragments_writable_def demo_writable)
  from serialize_succeeds[OF letters_encoded this, of 2 7 "''xyz''" 3] obtain raw where
    raw: "serializeFragments demo_prims letters_ctx 2 7 ''xyz'' 3 = Inr (True, raw)" by (auto simp: letters_context)
  have "fresh_between (decodeStorageList (new_context letters_cfg)) (nat 2) (nat 7)"
    by (simp add: fresh_between_def new_context_def letters_cfg_def fresh_storage_def)
  from fragments_read_back[OF demo_prims_ok demo_prims_relocatable letters_encoded _ raw _ _ this] show ?thesis
    by (auto simp: letters_context new_context_def letters_cfg_def)
qed

section \<open>Sharing the fragments out\<close>







section \<open>The receiver\<close>

text \<open>
  C17: Whatever bytes a receiver is sent, every fragment that its context stores and that is not empty has a
  valid Merkle proof for the root of the message, also after messages that are rejected.
\<close>

theorem stored_fragments_proved:
  assumes "validateAndDeserializeFragments z hash sha256 root raw start stop ctx = Inr (ok, ctx')"
    and "length (decodeStorageList ctx) = nat (fragmentCnt ctx)" and "\<forall>ds \<in> set (decodeStorageList ctx). proved hash sha256 root ds"
  shows "\<forall>ds \<in> set (decodeStorageList ctx'). proved hash sha256 root ds"
  by (rule validate_proved[OF assms])

theorem stored_fragments_proved_witness:
  "\<exists>raw ctx. validateAndDeserializeFragments demo_prims demo_hash demo_sha256 (Root letters_tree) raw 2 7 (new_context letters_cfg) = Inr (True, ctx) \<and>
    (\<forall>ds \<in> set (decodeStorageList ctx). proved demo_hash demo_sha256 (Root letters_tree) ds)"
proof -
  obtain raw where raw: "serializeFragments demo_prims letters_ctx 2 7 [] 0 = Inr (True, raw)" by (rule letters_serialized[of 2 7]) auto
  have "fresh_between (decodeStorageList (new_context letters_cfg)) (nat 2) (nat (2 + (7 - 2)))"
    by (simp add: fresh_between_def new_context_def letters_cfg_def fresh_storage_def)
  from fragments_roundtrip[OF demo_prims_ok demo_prims_relocatable letters_encoded _ raw _ _ _ this] obtain dsl where
    v: "validateAndDeserializeFragments demo_prims demo_hash demo_sha256 (Root letters_tree) raw 2 7 (new_context letters_cfg) =
      Inr (True, (new_context letters_cfg)\<lparr>decodeStorageList := dsl\<rparr>)"
    by (auto simp: letters_context new_context_def letters_cfg_def)
  have "\<forall>ds \<in> set (decodeStorageList (new_context letters_cfg)). proved demo_hash demo_sha256 (Root letters_tree) ds"
    "length (decodeStorageList (new_context letters_cfg)) = nat (fragmentCnt (new_context letters_cfg))"
    by (simp_all add: new_context_def letters_cfg_def fresh_storage_def proved_def)
  from stored_fragments_proved[OF v this(2,1)] show ?thesis using v by blast
qed

text \<open>
  C30: The ring buffer of a receiver keeps the blocks of its window apart: a message for any block
  reaches the queue of a block of the window if and only if it is for that block, in order, and the push
  reports failure exactly for blocks past the window.
\<close>

theorem ring_window_apart:
  assumes "ring_ok r" and "in_window n r"
  shows "ring_get n (snd (ring_push m x r)) = Some (ring_data r ! ring_slot n @ (if m = n then [x] else [])) \<and>
    ring_ok (snd (ring_push m x r)) \<and> (fst (ring_push m x r) \<longleftrightarrow> m < ring_low r + ring_cap)"
  by (rule ring_push_get[OF assms])

theorem ring_window_apart_witness:
  "ring_get 3 (snd (ring_push 255 (CHR ''x'') new_ring)) = Some [] \<and> ring_get 3 (snd (ring_push 3 (CHR ''x'') new_ring)) = Some ''x''"
proof -
  have r: "ring_ok (new_ring :: char ring)" "in_window 3 (new_ring :: char ring)" "(new_ring :: char ring) \<lparr>ring_data := []\<rparr> = \<lparr>ring_low = 0, ring_data = []\<rparr>"
    by (simp_all add: ring_ok_def in_window_def new_ring_def ring_cap_def)
  have "ring_slot 3 < 256" by (simp add: ring_slot_mod)
  then have "ring_data (new_ring :: char ring) ! ring_slot 3 = []" by (simp add: new_ring_def)
  then show ?thesis using ring_window_apart[OF r(1,2), of 255 "CHR ''x''"] ring_window_apart[OF r(1,2), of 3 "CHR ''x''"] by simp
qed

section \<open>Where the receiver accepts too much or stops\<close>

text \<open>
  C38: A block whose message carries no signature is stored, whatever the keys are: the receiver asks
  for half of the signatures that the sender chose to send.
\<close>

theorem unsigned_block_stored:
  assumes "Block_deserializeFromString z (Some raw) 0 = (pl, Some block)" and "valid pl"
    and "blockSignatures e = []" and "ebf_blockNumber e = number (header block)"
    and "insertBlockAndNotify ops idx (block\<lparr>metadata := (metadata block)\<lparr>consensusSignatures := []\<rparr>\<rparr>) st = Some st'"
  shows "validateFunc z (\<lambda>s d h. False) ops idx raw [e] st = Some (True, [], st')"
  by (rule unsigned_stored[OF assms])

theorem unsigned_block_stored_witness:
  "\<exists>e st'. validateFunc demo_prims (\<lambda>s d h. False) mr_ops 1 demo_raw [e] (MRBlockStorage 2 100) = Some (True, [], st') \<and>
    fst (waitForBlock mr_ops 1 1 0 False st') = Ready (Some demo_block)"
proof -
  let ?e = "\<lparr>blockSignatures = [], ebf_blockNumber = 1, ebf_root = [], ebf_size = 9, ebf_start = 0, ebf_end = 1, encodeMessage = []\<rparr>"
  have des: "Block_deserializeFromString demo_prims (Some demo_raw) 0 = (demo_pos, Some demo_block)"
    by (rule block_roundtrip[OF demo_prims_ok _ demo_serialized]) (simp_all add: demo_pos_def)
  let ?st = "MRBlockStorage 2 100"
  have b: "demo_block\<lparr>metadata := (metadata demo_block)\<lparr>consensusSignatures := []\<rparr>\<rparr> = demo_block" "number (header demo_block) = 1"
    by (simp_all add: demo_block_def)
  have "storage_ok mr_inv ?st" "fst (mr_getBlock (nat 1) (number (header demo_block)) (derived ?st)) = None" "1 < int (length (newBlockFutexList ?st))"
    by (simp_all add: storage_ok_def mr_inv_def MRBlockStorage_def BlockStorageBase_def mr_getBlock_def)
  from mr.inserted_block[OF this(1) _ this(3,2), of 0 False] obtain st' where
    st': "insertBlockAndNotify mr_ops 1 demo_block ?st = Some st'" "fst (waitForBlock mr_ops 1 1 0 False st') = Ready (Some demo_block)"
    using b(2) unfolding mr_ops_def by auto
  have "validateFunc demo_prims (\<lambda>s d h. False) mr_ops 1 demo_raw [?e] ?st = Some (True, [], st')"
    by (rule unsigned_block_stored[OF des]) (simp_all add: demo_pos_def b st'(1))
  then show ?thesis using st'(2) by blast
qed




text \<open>
  The index of a fragment is not checked against its proof: a message whose fragments were
  serialized from \<open>start\<close> is accepted as the fragments from any other \<open>k\<close>, and the context stores them there.
\<close>

theorem fragment_index_unchecked:
  assumes "prims_ok z" "prims_relocatable z" "encoded hash sha256 ctx mt d"
    and "serializeFragments z ctx start stop [] 0 = Inr (True, raw)"
    and "0 \<le> k" and "k + (stop - start) \<le> fragmentCnt (new_context (ecConfig ctx))"
  shows "\<exists>dsl. validateAndDeserializeFragments z hash sha256 (Root mt) raw k (k + (stop - start)) (new_context (ecConfig ctx)) =
      Inr (True, (new_context (ecConfig ctx))\<lparr>decodeStorageList := dsl\<rparr>) \<and> encodeFragment (dsl ! nat k) = fragment_at ctx (nat start)"
proof -
  have "ecConfig (new_context (ecConfig ctx)) = ecConfig ctx" by (simp add: new_context_def)
  from accepted_elsewhere[OF assms(1-3) _ assms(4) this refl assms(5,6)] show ?thesis by simp
qed

theorem fragment_index_unchecked_witness:
  "\<exists>raw dsl. serializeFragments demo_prims letters_ctx 2 3 [] 0 = Inr (True, raw) \<and>
     validateAndDeserializeFragments demo_prims demo_hash demo_sha256 (Root letters_tree) raw 5 6 (new_context letters_cfg) =
       Inr (True, (new_context letters_cfg)\<lparr>decodeStorageList := dsl\<rparr>) \<and> encodeFragment (dsl ! 5) = [''c'']"
proof -
  obtain raw where raw: "serializeFragments demo_prims letters_ctx 2 3 [] 0 = Inr (True, raw)" by (rule letters_serialized[of 2 3]) auto
  have cfg: "ecConfig letters_ctx = letters_cfg" by (simp add: letters_ctx_def new_context_def)
  have "fragment_at letters_ctx 2 = [''c'']" by (simp add: fragment_at_def letters_context) (simp add: letters_def)
  with fragment_index_unchecked[OF demo_prims_ok demo_prims_relocatable letters_encoded raw, of 5] raw show ?thesis
    by (auto simp: cfg) (simp add: new_context_def letters_cfg_def)
qed

end
