(* ===== verification/RpcController.thy ===== *)
theory RpcController
  imports ProofGenerator BlockStorage
begin

text \<open>
  The service that answers the users, \<^verbatim>\<open>src/peer/core/user_rpc_controller.cpp\<close>, and the receiving
  side of the client library, \<^verbatim>\<open>src/client/sdk/client_sdk.cpp\<close>. The service looks blocks up in a
  \<open>BlockLRUCache\<close> and keeps the Merkle trees of their requests and results in two caches
  whose key is the data hash of the block. The connection between the two is not part of the
  model: a response is the value the client reads.
\<close>

section \<open>Environment and state\<close>

record env =
  e_sha256 :: "string \<Rightarrow> string option"
  e_hash :: "string \<Rightarrow> string \<Rightarrow> string"
  e_zero :: string
  e_prims :: prims
  e_byte :: "8 word codec"

abbreviation result_codec :: "env \<Rightarrow> (TxReadWriteSet \<times> 8 word) codec" where
  "result_codec E \<equiv> seq_codec (TxReadWriteSet_serialize (e_prims E)) (e_byte E)"

record controller =
  c_storage :: "lru_store storage"
  blockBodyMerkleTree :: "(string, string merkle) lru"
  executeResultMerkleTree :: "(string, string merkle) lru"

definition new_controller :: "lru_store storage \<Rightarrow> controller" where
  "new_controller st =
     \<lparr>c_storage = st, blockBodyMerkleTree = LRUCache 64 10, executeResultMerkleTree = LRUCache 64 10\<rparr>"

definition request_tree :: "env \<Rightarrow> Envelop list \<Rightarrow> string merkle option" where
  "request_tree E reqs =
     UserRequest_GenerateMerkleTree (e_zero E) (e_hash E) (e_sha256 E) reqs None ModeProofGenAndTreeBuild None"

definition result_tree :: "env \<Rightarrow> ExecuteResult \<Rightarrow> string merkle option" where
  "result_tree E er =
     ExecResult_GenerateMerkleTree (e_zero E) (e_hash E) (e_sha256 E) (result_codec E) (txReadWriteSet er)
       (transactionFilter er) ModeProofGenAndTreeBuild None"

definition getOrGenerateUserRequestMT :: "env \<Rightarrow> Block \<Rightarrow> controller \<Rightarrow> string merkle option \<times> controller" where
  "getOrGenerateUserRequestMT E b c =
     (let h = dataHash (header b) in
      case tryGetCopy h (blockBodyMerkleTree c) of
        (Some mt, cache) \<Rightarrow> (Some mt, c\<lparr>blockBodyMerkleTree := cache\<rparr>)
      | (None, cache) \<Rightarrow>
          (case request_tree E (body b) of
             None \<Rightarrow> (None, c\<lparr>blockBodyMerkleTree := cache\<rparr>)
           | Some mt \<Rightarrow> (Some mt, c\<lparr>blockBodyMerkleTree := lru_insert h mt cache\<rparr>)))"

definition getOrGenerateExecResultMT :: "env \<Rightarrow> Block \<Rightarrow> controller \<Rightarrow> string merkle option \<times> controller" where
  "getOrGenerateExecResultMT E b c =
     (let h = dataHash (header b) in
      case tryGetCopy h (executeResultMerkleTree c) of
        (Some mt, cache) \<Rightarrow> (Some mt, c\<lparr>executeResultMerkleTree := cache\<rparr>)
      | (None, cache) \<Rightarrow>
          (case result_tree E (executeResult b) of
             None \<Rightarrow> (None, c\<lparr>executeResultMerkleTree := cache\<rparr>)
           | Some mt \<Rightarrow> (Some mt, c\<lparr>executeResultMerkleTree := lru_insert h mt cache\<rparr>)))"

section \<open>Handlers\<close>

text \<open>
  How a handler may not return: the thread sleeps on the futex, an index is out of range, a
  null pointer is dereferenced.
\<close>

datatype rpc_error = Sleeps | BadIndex | NullPointer

record block_response =
  br_success :: bool
  br_payload :: string

text \<open>A request without a timeout waits with -1. The first bytes of a serialized block go to an empty payload.\<close>

definition wait_block :: "int \<Rightarrow> int \<Rightarrow> int option \<Rightarrow> bool \<Rightarrow> controller \<Rightarrow> rpc_error + (Block option \<times> controller)" where
  "wait_block r n timeoutMs expired c =
     (let t = (case timeoutMs of None \<Rightarrow> -1 | Some t \<Rightarrow> t) in
      case waitForBlock lru_ops r (word_of_int n) t expired (c_storage c) of
        (Ready b, st) \<Rightarrow> Inr (b, c\<lparr>c_storage := st\<rparr>)
      | (Waiting, st) \<Rightarrow> Inl Sleeps
      | (OutOfRange, st) \<Rightarrow> Inl BadIndex)"

definition getBlock :: "env \<Rightarrow> int \<Rightarrow> int \<Rightarrow> int option \<Rightarrow> bool \<Rightarrow> controller \<Rightarrow> rpc_error + (block_response \<times> controller)" where
  "getBlock E r n timeoutMs expired c =
     (case wait_block r n timeoutMs expired c of
        Inl e \<Rightarrow> Inl e
      | Inr (None, c) \<Rightarrow> Inr (\<lparr>br_success = False, br_payload = ''Failed to get block within timeout.''\<rparr>, c)
      | Inr (Some b, c) \<Rightarrow>
          (case Block_serializeToString (e_prims E) b [] 0 of (pl, str) \<Rightarrow>
             if \<not> valid pl then Inr (\<lparr>br_success = False, br_payload = ''Serialize message failed.''\<rparr>, c)
             else Inr (\<lparr>br_success = True, br_payload = str\<rparr>, c)))"

definition light_codec :: "env \<Rightarrow> (Header \<times> Envelop list \<times> 8 word list) codec" where
  "light_codec E = seq_codec (Header_serialize (e_prims E)) (seq_codec (c_envelops (e_prims E)) (c_filter (e_prims E)))"

definition getLightBlock :: "env \<Rightarrow> int \<Rightarrow> int \<Rightarrow> int option \<Rightarrow> bool \<Rightarrow> controller \<Rightarrow> rpc_error + (block_response \<times> controller)" where
  "getLightBlock E r n timeoutMs expired c =
     (case wait_block r n timeoutMs expired c of
        Inl e \<Rightarrow> Inl e
      | Inr (None, c) \<Rightarrow> Inr (\<lparr>br_success = False, br_payload = ''Failed to get block within timeout.''\<rparr>, c)
      | Inr (Some b, c) \<Rightarrow>
          (case out_of (light_codec E) (header b, body b, transactionFilter (executeResult b)) [] 0 of
             None \<Rightarrow> Inr (\<lparr>br_success = False, br_payload = ''Serialize message failed.''\<rparr>, c)
           | Some (str, pos) \<Rightarrow> Inr (\<lparr>br_success = True, br_payload = str\<rparr>, c)))"

text \<open>The region of a request is used as an index without a check.\<close>

definition getTop :: "int \<Rightarrow> controller \<Rightarrow> rpc_error + int" where
  "getTop r c = (case getMaxStoredBlockNumber r (c_storage c) of None \<Rightarrow> Inl BadIndex | Some n \<Rightarrow> Inr n)"

record header_response =
  hr_success :: bool
  hr_blockId :: int
  hr_header :: string
  hr_metadata :: string

definition getBlockHeader :: "env \<Rightarrow> int \<Rightarrow> int \<Rightarrow> int option \<Rightarrow> bool \<Rightarrow> controller \<Rightarrow> rpc_error + (header_response \<times> controller)" where
  "getBlockHeader E r n timeoutMs expired c =
     (case wait_block r n timeoutMs expired c of
        Inl e \<Rightarrow> Inl e
      | Inr (None, c) \<Rightarrow> Inr (\<lparr>hr_success = False, hr_blockId = 0, hr_header = [], hr_metadata = []\<rparr>, c)
      | Inr (Some b, c) \<Rightarrow>
          (let resp = \<lparr>hr_success = False, hr_blockId = to_int (number (header b)), hr_header = [], hr_metadata = []\<rparr> in
           case out_of (Header_serialize (e_prims E)) (header b) [] 0 of
             None \<Rightarrow> Inr (resp, c)
           | Some (h, pos) \<Rightarrow>
               (case out_of (Metadata_serialize (e_prims E)) (metadata b) [] 0 of
                  None \<Rightarrow> Inr (resp\<lparr>hr_header := h\<rparr>, c)
                | Some (m, pos) \<Rightarrow> Inr (resp\<lparr>hr_header := h, hr_metadata := m, hr_success := True\<rparr>, c))))"

record tx_response =
  tr_success :: bool
  tr_blockId :: int
  tr_envelop :: string
  tr_envelopProof :: string
  tr_rwset :: "string option"
  tr_rwsetProof :: "string option"

definition no_tx :: tx_response where
  "no_tx = \<lparr>tr_success = False, tr_blockId = 0, tr_envelop = [], tr_envelopProof = [], tr_rwset = None, tr_rwsetProof = None\<rparr>"

text \<open>The proof of the result is optional: a failure after the first part keeps the success.\<close>

definition answer_result :: "env \<Rightarrow> tid_type \<Rightarrow> Block \<Rightarrow> tx_response \<Rightarrow> controller \<Rightarrow> rpc_error + (tx_response \<times> controller)" where
  "answer_result E txid b resp c =
     (case findRWSet txid (executeResult b) of
        None \<Rightarrow> Inr (resp, c)
      | Some (rw, v) \<Rightarrow>
          (case out_of (result_codec E) (rw, v) [] 0 of
             None \<Rightarrow> Inr (resp\<lparr>tr_rwset := Some []\<rparr>, c)
           | Some (str, pos) \<Rightarrow>
               (let resp = resp\<lparr>tr_rwset := Some str\<rparr> in
                case getOrGenerateExecResultMT E b c of
                  (None, c) \<Rightarrow> Inl NullPointer
                | (Some mt, c) \<Rightarrow>
                    (case ExecResult_GenerateProof (e_sha256 E) (result_codec E) mt rw v of
                       None \<Rightarrow> Inr (resp, c)
                     | Some p \<Rightarrow>
                         (case proof_serializeToString (e_prims E) p [] 0 of
                            (ok, ps) \<Rightarrow> Inr (resp\<lparr>tr_rwsetProof := Some ps\<rparr>, c))))))"

definition answer_tx :: "env \<Rightarrow> tid_type \<Rightarrow> Block \<Rightarrow> Envelop \<Rightarrow> controller \<Rightarrow> rpc_error + (tx_response \<times> controller)" where
  "answer_tx E txid b e c =
     (let resp = no_tx\<lparr>tr_blockId := to_int (number (header b))\<rparr> in
      case Envelop_serializeToString (e_prims E) e [] 0 of
        (False, str) \<Rightarrow> Inr (resp, c)
      | (True, str) \<Rightarrow>
          (let resp = resp\<lparr>tr_envelop := str\<rparr> in
           case getOrGenerateUserRequestMT E b c of
             (None, c) \<Rightarrow> Inl NullPointer
           | (Some mt, c) \<Rightarrow>
               (case UserRequest_GenerateProof (e_sha256 E) mt e of
                  None \<Rightarrow> Inr (resp, c)
                | Some p \<Rightarrow>
                    (case proof_serializeToString (e_prims E) p [] 0 of
                       (False, ps) \<Rightarrow> Inr (resp, c)
                     | (True, ps) \<Rightarrow>
                         answer_result E txid b (resp\<lparr>tr_envelopProof := ps, tr_success := True\<rparr>) c))))"

text \<open>
  The transaction identifier of a request is compared with \<^verbatim>\<open>memcmp\<close> over the 64 bytes of a
  digest; identifiers of that length are modelled.
\<close>

fun tx_loop :: "env \<Rightarrow> int \<Rightarrow> tid_type \<Rightarrow> int list \<Rightarrow> controller \<Rightarrow> rpc_error + (tx_response \<times> controller)" where
  "tx_loop E r txid [] c = Inr (no_tx, c)"
| "tx_loop E r txid (i # is) c =
     (case wait_block r i None False c of
        Inl e \<Rightarrow> Inl e
      | Inr (None, c) \<Rightarrow> tx_loop E r txid is c
      | Inr (Some b, c) \<Rightarrow>
          (case findEnvelop txid (body b) of
             None \<Rightarrow> tx_loop E r txid is c
           | Some e \<Rightarrow> answer_tx E txid b e c))"

definition getTxWithProof :: "env \<Rightarrow> int \<Rightarrow> int \<Rightarrow> tid_type \<Rightarrow> controller \<Rightarrow> rpc_error + (tx_response \<times> controller)" where
  "getTxWithProof E r minBlockNumber txid c =
     (case getMaxStoredBlockNumber r (c_storage c) of
        None \<Rightarrow> Inl BadIndex
      | Some maxBlockNumber \<Rightarrow> tx_loop E r txid [minBlockNumber..maxBlockNumber] c)"

section \<open>The client\<close>

definition sdk_getBlock :: "env \<Rightarrow> block_response \<Rightarrow> Block option" where
  "sdk_getBlock E resp =
     (if \<not> br_success resp then None
      else case Block_deserializeFromString (e_prims E) (Some (br_payload resp)) 0 of
          (pl, b) \<Rightarrow> if \<not> valid pl then None else b)"

record TxMerkleProof =
  tm_envelop :: Envelop
  tm_rwSet :: "(TxReadWriteSet \<times> 8 word) option"
  tm_envelopProof :: "string mproof"
  tm_rwSetProof :: "string mproof option"

definition sdk_getBlockHeader :: "env \<Rightarrow> header_response \<Rightarrow> (Header \<times> Metadata) option" where
  "sdk_getBlockHeader E resp =
     (if \<not> hr_success resp then None
      else do { (h, pos) \<leftarrow> in_of (Header_serialize (e_prims E)) (hr_header resp) 0;
                (m, pos) \<leftarrow> in_of (Metadata_serialize (e_prims E)) (hr_metadata resp) 0;
                Some (h, m) })"

text \<open>\<open>Inl\<close> is a null result or the exception of \<^verbatim>\<open>resize\<close>.\<close>

definition sdk_getTransaction :: "env \<Rightarrow> tx_response \<Rightarrow> proof_error + TxMerkleProof" where
  "sdk_getTransaction E resp =
     (if \<not> tr_success resp then Inl ReadFailure
      else case proof_deserializeFromString (e_prims E) (tr_envelopProof resp) 0 of
        Inl e \<Rightarrow> Inl e
      | Inr ep \<Rightarrow>
          (case Envelop_deserializeFromString (e_prims E) (tr_envelop resp) 0 of
             (_, None) \<Rightarrow> Inl ReadFailure
           | (_, Some ev) \<Rightarrow>
               (case (case tr_rwsetProof resp of
                        None \<Rightarrow> Inr None
                      | Some ps \<Rightarrow> (case proof_deserializeFromString (e_prims E) ps 0 of Inl e \<Rightarrow> Inl e | Inr p \<Rightarrow> Inr (Some p))) of
                  Inl e \<Rightarrow> Inl e
                | Inr rp \<Rightarrow>
                    (case tr_rwset resp of
                       None \<Rightarrow> Inr \<lparr>tm_envelop = ev, tm_rwSet = None, tm_envelopProof = ep, tm_rwSetProof = rp\<rparr>
                     | Some str \<Rightarrow>
                         (case in_of (result_codec E) str 0 of
                            None \<Rightarrow> Inl ReadFailure
                          | Some (rv, pos) \<Rightarrow>
                              Inr \<lparr>tm_envelop = ev, tm_rwSet = Some rv, tm_envelopProof = ep, tm_rwSetProof = rp\<rparr>)))))"

definition ValidateUserRequestMerkleProof :: "env \<Rightarrow> string \<Rightarrow> string mproof \<Rightarrow> Envelop \<Rightarrow> bool" where
  "ValidateUserRequestMerkleProof E root p e = UserRequest_ValidateProof (e_hash E) (e_sha256 E) root p e"

definition ValidateExecResultMerkleProof :: "env \<Rightarrow> string \<Rightarrow> string mproof \<Rightarrow> TxReadWriteSet \<Rightarrow> 8 word \<Rightarrow> bool" where
  "ValidateExecResultMerkleProof E root p rw v = ExecResult_ValidateProof (e_hash E) (e_sha256 E) (result_codec E) root p rw v"

end
