(* ===== verification/RpcCorrect.thy ===== *)
theory RpcCorrect
  imports RpcController
begin

text \<open>
  The service and the client together: a block the client decodes is the block that was
  stored, and a transaction the service returns with success comes with a proof the client
  accepts for the data hash of the block. The invariant is that the cached trees have the data
  hash they are stored under as their root; it holds as long as the stored blocks have the
  root of their requests as data hash, which consensus establishes.
\<close>

section \<open>Invariant\<close>

definition valid_tree :: "env \<Rightarrow> string merkle \<Rightarrow> bool" where
  "valid_tree E mt \<longleftrightarrow>
     (\<exists>cfg leaves. 2 \<le> length leaves \<and> length leaves \<le> int_max \<and> Mode cfg = ModeProofGenAndTreeBuild \<and>
        mt = merkle_of (e_zero E) (e_hash E) cfg leaves)"

definition tree_cache_ok :: "env \<Rightarrow> (string, string merkle) lru \<Rightarrow> bool" where
  "tree_cache_ok E cache \<longleftrightarrow> lru_wf cache \<and> (\<forall>(h, mt) \<in> set (pairs cache). valid_tree E mt \<and> Root mt = h)"

definition block_ok :: "env \<Rightarrow> Block \<Rightarrow> bool" where
  "block_ok E b \<longleftrightarrow> length (body b) < int_max \<and> (\<forall>mt. request_tree E (body b) = Some mt \<longrightarrow> Root mt = dataHash (header b))"

definition stored :: "controller \<Rightarrow> int \<Rightarrow> Block \<Rightarrow> bool" where
  "stored c r b \<longleftrightarrow> 0 \<le> r \<and> nat r < length (derived (c_storage c)) \<and>
     b \<in> snd ` set (pairs (derived (c_storage c) ! nat r))"

definition controller_ok :: "env \<Rightarrow> controller \<Rightarrow> bool" where
  "controller_ok E c \<longleftrightarrow> storage_ok lru_inv (c_storage c) \<and> tree_cache_ok E (blockBodyMerkleTree c) \<and>
     (\<forall>r b. stored c r b \<longrightarrow> block_ok E b)"

section \<open>Trees\<close>

lemma valid_tree_proof:
  assumes "valid_tree E mt" and "GenerateProof dg mt x = Some p"
  shows "Verify (e_hash E) dg x p (Root mt) = Some True"
proof -
  from assms(1) obtain cfg leaves where len: "2 \<le> length leaves" "length leaves \<le> int_max"
    and m: "Mode cfg = ModeProofGenAndTreeBuild" and mt: "mt = merkle_of (e_zero E) (e_hash E) cfg leaves"
    by (auto simp: valid_tree_def)
  let ?d = "calTreeDepth (length leaves)"
  from assms(2) m obtain h i where h: "dg x = Some h" and i: "leaf_index leaves h = Some i"
    and p: "p = proof_of (e_hash E) leaves ?d i"
    by (auto simp: GenerateProof_def mt merkle_of_def Let_def proof_loop_proof_of bind_eq_Some_conv)
  from i have "i < length leaves" "leaves ! i = h" by (simp_all add: leaf_index_iff)
  with verify_accepts[OF this(1) len(1) int_max_depth[OF len], of "e_hash E"]
  show ?thesis by (simp add: Verify_def h p mt merkle_of_def Let_def)
qed

lemma request_tree_valid:
  assumes "request_tree E reqs = Some mt" and "length reqs < int_max"
  shows "valid_tree E mt"
proof -
  let ?blocks = "let blocks = map (\<lambda>e. (e, None :: (SignatureString \<Rightarrow> string \<Rightarrow> bool) option)) reqs in if length blocks = 1 then blocks @ [(hd reqs, None)] else blocks"
  let ?cfg = "generator_config ModeProofGenAndTreeBuild"
  have new: "New (e_zero E) (e_hash E) (\<lambda>(e, v). envelop_digest (e_sha256 E) v e) ?cfg None ?blocks = Some mt"
    using assms(1) by (simp add: request_tree_def UserRequest_GenerateMerkleTree_def Let_def)
  have u: "undisturbed ?cfg None" by (rule undisturbed_tree) simp
  from new u obtain leaves where "2 \<le> length leaves" "length leaves = length ?blocks"
    "leafGen (\<lambda>(e, v). envelop_digest (e_sha256 E) v e) ?blocks = Some leaves"
    "mt = merkle_of (e_zero E) (e_hash E) (new_config ?cfg None) leaves" by (rule New_SomeE)
  moreover have "length ?blocks \<le> int_max" using assms(2) by (simp add: Let_def)
  ultimately show ?thesis
    unfolding valid_tree_def by (intro exI[of _ "new_config ?cfg None"] exI[of _ leaves]) (simp add: generator_config_def)
qed

lemma tree_cache_use:
  assumes "tree_cache_ok E cache"
  shows "tree_cache_ok E (snd (tryGetCopy h cache))"
proof -
  have "set (pairs (snd (tryGetRef h cache))) = set (pairs cache)"
    using assms tryGetRef_pairs(1)[of cache h] by (auto simp: tree_cache_ok_def use_def)
  with assms tryGetRef_wf[of cache h] show ?thesis by (simp add: tree_cache_ok_def tryGetCopy_def)
qed

lemma tree_cache_insert:
  assumes "tree_cache_ok E cache" and "valid_tree E mt" and "Root mt = h"
  shows "tree_cache_ok E (lru_insert h mt cache)"
proof -
  have "set (spec_insert m e h mt ps) \<subseteq> insert (h, mt) (set ps)" for m e ps
    by (auto simp: spec_insert_def spec_prune_def dest: in_set_takeD)
  then show ?thesis using assms lru_insert_pairs[of cache h mt] by (fastforce simp: tree_cache_ok_def)
qed

lemma user_request_tree:
  assumes c: "controller_ok E c" and b: "block_ok E b" and g: "getOrGenerateUserRequestMT E b c = (Some mt, c')"
  shows "valid_tree E mt" "Root mt = dataHash (header b)" "controller_ok E c'" "c_storage c' = c_storage c"
proof -
  let ?h = "dataHash (header b)" and ?cache = "blockBodyMerkleTree c"
  have ok: "tree_cache_ok E ?cache" using c by (simp add: controller_ok_def)
  obtain r cache where t: "tryGetCopy ?h ?cache = (r, cache)" by fastforce
  have ok': "tree_cache_ok E cache" using tree_cache_use[OF ok, of ?h] t by simp
  have keep: "controller_ok E (c\<lparr>blockBodyMerkleTree := k\<rparr>)" if "tree_cache_ok E k" for k
    using c that by (simp add: controller_ok_def stored_def)
  have "valid_tree E mt \<and> Root mt = ?h \<and> controller_ok E c' \<and> c_storage c' = c_storage c"
  proof (cases r)
    case None
    with g t have gen: "request_tree E (body b) = Some mt" and c': "c' = c\<lparr>blockBodyMerkleTree := lru_insert ?h mt cache\<rparr>"
      by (auto simp: getOrGenerateUserRequestMT_def Let_def split: option.splits)
    have v: "valid_tree E mt" "Root mt = ?h" using b gen request_tree_valid by (auto simp: block_ok_def)
    then show ?thesis using keep[OF tree_cache_insert[OF ok' v]] by (simp add: c')
  next
    case (Some mt')
    with g t have eq: "mt' = mt" and c': "c' = c\<lparr>blockBodyMerkleTree := cache\<rparr>"
      by (auto simp: getOrGenerateUserRequestMT_def Let_def)
    have "map_of (pairs ?cache) ?h = Some mt"
      using tryGetRef_pairs(2)[of ?cache ?h] ok t Some eq by (simp add: tree_cache_ok_def tryGetCopy_def)
    then have "(?h, mt) \<in> set (pairs ?cache)" by (rule map_of_SomeD)
    then show ?thesis using ok keep[OF ok'] by (auto simp: tree_cache_ok_def c')
  qed
  then show "valid_tree E mt" "Root mt = ?h" "controller_ok E c'" "c_storage c' = c_storage c" by auto
qed

section \<open>Blocks\<close>

lemma lru_getBlock_keeps:
  assumes "lru_inv n d" and "r < n" and "r' < n"
  shows "set (pairs (snd (lru_getBlock r b d) ! r')) = set (pairs (d ! r'))"
proof -
  have "set (use b ps) = set ps" for ps :: "(64 word \<times> Block) list" by (auto simp: use_def)
  then show ?thesis
    using lru_invD[OF assms(1,2)] tryGetRef_pairs(1)[of "d ! r" b]
    by (cases "r = r'") (auto simp: lru_getBlock_def tryGetCopy_def case_prod_beta)
qed

lemma wait_block_cases:
  assumes "wait_block r n t e c = Inr (ob, c')"
  obtains "ob = None" "c' = c"
  | "0 \<le> r" "r < int (length (newBlockFutexList (c_storage c)))"
    "ob = fst (lru_getBlock (nat r) (word_of_int n) (derived (c_storage c)))"
    "c' = c\<lparr>c_storage := (c_storage c)\<lparr>derived := snd (lru_getBlock (nat r) (word_of_int n) (derived (c_storage c)))\<rparr>\<rparr>"
proof -
  let ?s = "c_storage c"
  let ?g = "lru_getBlock (nat r) (word_of_int n) (derived ?s)"
  consider "int (length (newBlockFutexList ?s)) \<le> r" | "r < 0"
    | "0 \<le> r" "r < int (length (newBlockFutexList ?s))" "newBlockFutexList ?s ! nat r < to_int (word_of_int n)"
    | "0 \<le> r" "r < int (length (newBlockFutexList ?s))" "\<not> newBlockFutexList ?s ! nat r < to_int (word_of_int n)"
    by linarith
  then show thesis
  proof cases
    case 4
    have "c' = c\<lparr>c_storage := ?s\<lparr>derived := snd ?g\<rparr>\<rparr>" "ob = fst ?g"
      using assms 4 by (auto simp: wait_block_def waitForBlock_def lru_ops_def Let_def case_prod_beta)
    then show thesis using that(2) 4 by blast
  qed (use assms that(1) in \<open>auto simp: wait_block_def waitForBlock_def Let_def split: if_splits\<close>)
qed

lemma wait_block_stored:
  assumes ok: "controller_ok E c" and w: "wait_block r n t e c = Inr (ob, c')"
  shows "controller_ok E c' \<and> (\<forall>b. ob = Some b \<longrightarrow> stored c r b) \<and> (\<forall>r b. stored c' r b \<longrightarrow> stored c r b)"
  using w
proof (cases rule: wait_block_cases)
  case 1
  then show ?thesis using ok by simp
next
  case 2
  let ?s = "c_storage c" and ?b = "word_of_int n :: 64 word"
  let ?d = "derived ?s" and ?n = "length (newBlockFutexList (c_storage c))"
  have inv: "lru_inv ?n ?d" using ok by (simp add: controller_ok_def storage_ok_def)
  then have n: "nat r < ?n" "length ?d = ?n" using 2 by (auto simp: lru_inv_def)
  have inv': "lru_inv ?n (snd (lru_getBlock (nat r) ?b ?d))" by (rule bl.get_inv[OF inv n(1)])
  have same: "stored c' r' b \<longleftrightarrow> stored c r' b" for r' b
  proof -
    have "length (snd (lru_getBlock (nat r) ?b ?d)) = ?n" using inv' by (simp add: lru_inv_def)
    then show ?thesis using lru_getBlock_keeps[OF inv n(1), of "nat r'" ?b] n(2) by (auto simp: stored_def 2(4))
  qed
  have "stored c r b" if "ob = Some b" for b
  proof -
    have "map_of (pairs (?d ! nat r)) ?b = Some b"
      using that 2(3) lru_invD[OF inv n(1)] by (simp add: lru_getBlock_pairs)
    then show ?thesis using 2(1) n by (force simp: stored_def dest: map_of_SomeD)
  qed
  moreover have "controller_ok E c'"
    using ok inv' same by (simp add: controller_ok_def storage_ok_def 2(4))
  ultimately show ?thesis using same by blast
qed

text \<open>A block that arrives at the client is the stored one.\<close>

lemma client_block:
  assumes ok: "controller_ok E c" and z: "prims_ok (e_prims E)"
    and g: "getBlock E r n t e c = Inr (resp, c')" and s: "br_success resp"
  shows "\<exists>b. stored c r b \<and> sdk_getBlock E resp = Some b"
proof -
  from g s obtain b c1 pl str where w: "wait_block r n t e c = Inr (Some b, c1)"
    and ser: "Block_serializeToString (e_prims E) b [] 0 = (pl, str)" "valid pl"
    and resp: "resp = \<lparr>br_success = True, br_payload = str\<rparr>"
    by (auto simp: getBlock_def split: sum.splits option.splits prod.splits if_splits)
  have "sdk_getBlock E resp = Some b"
    using block_roundtrip[OF z _ ser] ser(2) by (simp add: sdk_getBlock_def resp)
  then show ?thesis using wait_block_stored[OF ok w] by blast
qed

lemma client_header:
  assumes ok: "controller_ok E c" and z: "prims_ok (e_prims E)"
    and g: "getBlockHeader E r n t e c = Inr (resp, c')" and s: "hr_success resp"
  shows "\<exists>b. stored c r b \<and> sdk_getBlockHeader E resp = Some (header b, metadata b)"
proof -
  from g s obtain b c1 h p m q where w: "wait_block r n t e c = Inr (Some b, c1)"
    and h: "out_of (Header_serialize (e_prims E)) (header b) [] 0 = Some (h, p)"
    and m: "out_of (Metadata_serialize (e_prims E)) (metadata b) [] 0 = Some (m, q)"
    and resp: "resp = \<lparr>hr_success = True, hr_blockId = to_int (number (header b)), hr_header = h, hr_metadata = m\<rparr>"
    by (auto simp: getBlockHeader_def Let_def split: sum.splits option.splits prod.splits)
  have "in_of (Header_serialize (e_prims E)) h 0 = Some (header b, p)"
    using reads_toD[OF write_reads(2)[OF archives_ok(6)[OF z] h]] by simp
  moreover have "in_of (Metadata_serialize (e_prims E)) m 0 = Some (metadata b, q)"
    using reads_toD[OF write_reads(2)[OF archives_ok(8)[OF z] m]] by simp
  ultimately have "sdk_getBlockHeader E resp = Some (header b, metadata b)" by (simp add: sdk_getBlockHeader_def resp)
  then show ?thesis using wait_block_stored[OF ok w] by blast
qed

section \<open>Transactions\<close>

lemma answer_result_keeps:
  assumes "answer_result E txid b resp c = Inr (resp', c')"
  shows "tr_success resp' = tr_success resp \<and> tr_envelop resp' = tr_envelop resp \<and> tr_envelopProof resp' = tr_envelopProof resp"
  using assms by (auto simp: answer_result_def Let_def split: option.splits prod.splits)

text \<open>What is written for the result can be read; what could not be written is an empty string.\<close>

lemma answer_result_reads:
  assumes "answer_result E txid b resp c = Inr (resp', c')" and "tr_rwset resp = None" and "tr_rwsetProof resp = None"
    and z: "prims_ok (e_prims E)" "codec_ok (e_byte E)"
  shows "(\<forall>str. tr_rwset resp' = Some str \<longrightarrow> str \<noteq> [] \<longrightarrow> in_of (result_codec E) str 0 \<noteq> None) \<and>
    (\<forall>ps. tr_rwsetProof resp' = Some ps \<longrightarrow> ps \<noteq> [] \<longrightarrow> (\<exists>p. proof_deserializeFromString (e_prims E) ps 0 = Inr p))"
proof -
  have ok: "codec_ok (result_codec E)" using archives_ok[OF z(1)] z(2) by (intro seq_codec_ok)
  have w: "in_of (result_codec E) str 0 \<noteq> None" if "out_of (result_codec E) x [] 0 = Some (str, p)" for x str p
    using reads_toD[OF write_reads(2)[OF ok that]] by simp
  have pf: "\<exists>q. proof_deserializeFromString (e_prims E) ps 0 = Inr q" if "proof_serializeToString (e_prims E) p [] 0 = (t, ps)" "ps \<noteq> []" for p t ps
  proof -
    have "t" using that by (auto simp: proof_serializeToString_def split: option.splits)
    then show ?thesis using proof_codec_roundtrip[OF z(1), of 0 "[]" p ps] that(1) by simp
  qed
  show ?thesis using assms(1-3) w pf
    by (auto simp: answer_result_def Let_def split: option.splits prod.splits)
qed

text \<open>What a successful answer about a request of a stored block gives the client.\<close>

definition answers :: "env \<Rightarrow> tx_response \<Rightarrow> tid_type \<Rightarrow> Block \<Rightarrow> bool" where
  "answers E resp txid b \<longleftrightarrow>
     (tr_rwset resp \<noteq> Some [] \<longrightarrow> tr_rwsetProof resp \<noteq> Some [] \<longrightarrow> (\<exists>tm. sdk_getTransaction E resp = Inr tm)) \<and>
     (\<forall>tm. sdk_getTransaction E resp = Inr tm \<longrightarrow>
        tm_envelop tm \<in> set (body b) \<and> digest (signature (tm_envelop tm)) = txid \<and>
        ValidateUserRequestMerkleProof E (dataHash (header b)) (tm_envelopProof tm) (tm_envelop tm))"

lemma answer_tx_valid:
  assumes ok: "controller_ok E c" and z: "prims_ok (e_prims E)" "codec_ok (e_byte E)" and b: "block_ok E b"
    and e: "findEnvelop txid (body b) = Some e"
    and a: "answer_tx E txid b e c = Inr (resp, c')" and s: "tr_success resp"
  shows "answers E resp txid b"
proof -
  let ?resp = "\<lambda>str ps. \<lparr>tr_success = True, tr_blockId = to_int (number (header b)), tr_envelop = str,
    tr_envelopProof = ps, tr_rwset = None, tr_rwsetProof = None\<rparr>"
  from a s obtain str mt c1 p ps where ser: "Envelop_serializeToString (e_prims E) e [] 0 = (True, str)"
    and t: "getOrGenerateUserRequestMT E b c = (Some mt, c1)"
    and g: "UserRequest_GenerateProof (e_sha256 E) mt e = Some p"
    and ps: "proof_serializeToString (e_prims E) p [] 0 = (True, ps)"
    and res: "answer_result E txid b (?resp str ps) c1 = Inr (resp, c')"
    by (auto simp: answer_tx_def no_tx_def Let_def split: prod.splits bool.splits option.splits)
  note tree = user_request_tree[OF ok b t]
  have resp: "tr_envelop resp = str" "tr_envelopProof resp = ps"
    using answer_result_keeps[OF res] by auto
  obtain pos where ev: "Envelop_deserializeFromString (e_prims E) str 0 = (int pos, Some e)"
    using envelop_roundtrip[OF z(1) _ ser] by auto
  have pr: "proof_deserializeFromString (e_prims E) ps 0 = Inr p" by (rule proof_codec_roundtrip[OF z(1) _ ps]) simp
  note rd = answer_result_reads[OF res _ _ z, simplified]
  have "Verify (e_hash E) (envelop_digest (e_sha256 E) None) e p (Root mt) = Some True"
    by (rule valid_tree_proof[OF tree(1)]) (use g in \<open>simp add: UserRequest_GenerateProof_def\<close>)
  then have v: "ValidateUserRequestMerkleProof E (dataHash (header b)) p e"
    by (simp add: ValidateUserRequestMerkleProof_def UserRequest_ValidateProof_def tree(2))
  from e have "e \<in> set (body b)" "digest (signature e) = txid"
    by (auto simp: findEnvelop_find find_Some_iff)
  moreover have "\<exists>tm. sdk_getTransaction E resp = Inr tm" if "tr_rwset resp \<noteq> Some []" "tr_rwsetProof resp \<noteq> Some []"
    using rd that s by (fastforce simp: sdk_getTransaction_def resp ev pr split: option.splits sum.splits prod.splits)
  ultimately show ?thesis using v
    by (auto simp: answers_def sdk_getTransaction_def resp ev pr split: if_splits option.splits sum.splits prod.splits)
qed

lemma tx_loop_valid:
  assumes "controller_ok E c" and z: "prims_ok (e_prims E)" "codec_ok (e_byte E)"
    and "tx_loop E r txid is c = Inr (resp, c')" and s: "tr_success resp"
  shows "\<exists>b. stored c r b \<and> answers E resp txid b"
  using assms(1,4)
proof (induction "is" arbitrary: c)
  case Nil
  then show ?case using s by (auto simp: no_tx_def)
next
  case (Cons i "is")
  from Cons.prems(2) obtain ob c1 where w: "wait_block r i None False c = Inr (ob, c1)"
    by (auto split: sum.splits)
  note st = wait_block_stored[OF Cons.prems(1) w]
  show ?case
  proof (cases "\<exists>b e. ob = Some b \<and> findEnvelop txid (body b) = Some e")
    case True
    then obtain b e where be: "ob = Some b" "findEnvelop txid (body b) = Some e" by blast
    then have a: "answer_tx E txid b e c1 = Inr (resp, c')" using Cons.prems(2) w by simp
    have "stored c r b" using st be by blast
    moreover have "block_ok E b" using Cons.prems(1) calculation by (auto simp: controller_ok_def)
    ultimately show ?thesis using answer_tx_valid[OF _ z _ be(2) a s] st by blast
  next
    case False
    then have "tx_loop E r txid is c1 = Inr (resp, c')" using Cons.prems(2) w by (auto split: option.splits)
    then show ?thesis using Cons.IH st by blast
  qed
qed

lemma tx_valid:
  assumes "controller_ok E c" and "prims_ok (e_prims E)" "codec_ok (e_byte E)"
    and "getTxWithProof E r m txid c = Inr (resp, c')" and "tr_success resp"
  shows "\<exists>b. stored c r b \<and> answers E resp txid b"
  using assms tx_loop_valid[OF assms(1-3) _ assms(5)] by (auto simp: getTxWithProof_def split: option.splits)

section \<open>The cache of result trees\<close>

text \<open>
  The tree of the results is looked up by the hash of the requests, so a block with the same
  requests as an earlier one gets the tree of the results of the earlier one.
\<close>

lemma cached_lookup:
  assumes "lru_wf cache" and "map_of (pairs cache) h = Some mt"
  shows "fst (tryGetCopy h cache) = Some mt"
  using assms tryGetRef_pairs(2)[OF assms(1), of h] by (simp add: tryGetCopy_def)

lemma exec_tree_shared:
  assumes wf: "lru_wf (executeResultMerkleTree c)" and big: "0 < lru_maxSize (executeResultMerkleTree c)"
    and g: "getOrGenerateExecResultMT E b c = (Some mt, c1)" and h: "dataHash (header b') = dataHash (header b)"
  shows "fst (getOrGenerateExecResultMT E b' c1) = Some mt"
proof -
  let ?h = "dataHash (header b)" and ?cache = "executeResultMerkleTree c"
  obtain r cache where t: "tryGetCopy ?h ?cache = (r, cache)" by fastforce
  have cache: "lru_wf cache" "pairs cache = use ?h (pairs ?cache)" "r = map_of (pairs ?cache) ?h" "0 < lru_maxSize cache"
    using t tryGetRef_wf[OF wf, of ?h] tryGetRef_pairs[OF wf, of ?h] tryGetRef_sizes(1)[of ?h ?cache] big
    by (simp_all add: tryGetCopy_def)
  have look: "map_of (pairs cache) ?h = r" by (simp add: cache lookup_use[OF lru_keys_distinct[OF wf]])
  have "\<exists>k. c1 = c\<lparr>executeResultMerkleTree := k\<rparr> \<and> lru_wf k \<and> map_of (pairs k) ?h = Some mt"
  proof (cases r)
    case None
    with g t have c1: "c1 = c\<lparr>executeResultMerkleTree := lru_insert ?h mt cache\<rparr>"
      by (auto simp: getOrGenerateExecResultMT_def Let_def split: option.splits)
    have "?h \<notin> fst ` set (pairs cache)" using look None by (simp add: map_of_eq_None_iff)
    from spec_insert_lookup[OF cache(4) this] show ?thesis
      using lru_insert_pairs[OF cache(1), of ?h mt] by (auto simp: c1)
  next
    case (Some mt')
    with g t have "mt' = mt" and "c1 = c\<lparr>executeResultMerkleTree := cache\<rparr>"
      by (auto simp: getOrGenerateExecResultMT_def Let_def)
    then show ?thesis using cache(1) look Some by auto
  qed
  then obtain k where k: "c1 = c\<lparr>executeResultMerkleTree := k\<rparr>" "lru_wf k" "map_of (pairs k) ?h = Some mt" by blast
  obtain k' where "tryGetCopy ?h k = (Some mt, k')" using cached_lookup[OF k(2,3)] by (metis prod.collapse)
  then show ?thesis by (simp add: getOrGenerateExecResultMT_def h k(1))
qed

end
