(* ===== verification/StorageProperties.thy ===== *)
theory StorageProperties
  imports RpcCorrect DemoReplication
begin

text \<open>
  Properties of the Merkle trees, of the serialized blocks, of the block storages and their cache, and
  of the service that answers the users.
\<close>

section \<open>Merkle trees\<close>



text \<open>
  C13: In every mode each block of a tree has a proof that is accepted for the root: the proofs of the
  tree when it keeps them, and the proof generated for the block when the tree is kept.
\<close>

theorem merkle_proofs_accepted:
  assumes "New zero hash dg c wp blocks = Some mt" and "undisturbed c wp" and "length blocks \<le> int_max" and "i < length blocks"
  shows "(Mode c \<noteq> ModeTreeBuild \<longrightarrow> Verify hash dg (blocks ! i) (Proofs mt ! i) (Root mt) = Some True) \<and>
    (Mode c \<noteq> ModeProofGen \<longrightarrow>
       (\<exists>p. GenerateProof dg mt (blocks ! i) = Some p \<and> Verify hash dg (blocks ! i) p (Root mt) = Some True))"
proof
  from assms(1,2) obtain leaves where two: "2 \<le> length leaves" and lb: "length leaves = length blocks"
    and g: "leafGen dg blocks = Some leaves" and mt: "mt = merkle_of zero hash (new_config c wp) leaves" by (rule New_SomeE)
  have i: "i < length leaves" and depth: "calTreeDepth (length leaves) \<le> 32" using int_max_depth[OF two] assms(3,4) lb by simp_all
  from g have "dg (blocks ! i) = Some (leaves ! i)" using assms(4) by (auto simp: leafGen_map split: if_splits)
  then show "Mode c \<noteq> ModeTreeBuild \<longrightarrow> Verify hash dg (blocks ! i) (Proofs mt ! i) (Root mt) = Some True"
    using verify_accepts[OF i two depth, of hash] i by (simp add: mt merkle_of_def Let_def Verify_def proofs_upto_def)
  from Leaves_New[OF assms(1,2), of "blocks ! i"] assms(4) obtain h where h: "dg (blocks ! i) = Some h" "h \<in> set (Leaves mt)" by auto
  show "Mode c \<noteq> ModeProofGen \<longrightarrow>
       (\<exists>p. GenerateProof dg mt (blocks ! i) = Some p \<and> Verify hash dg (blocks ! i) p (Root mt) = Some True)"
    using GenerateProof_verifies[where dgb = dg and b = "blocks ! i", OF assms(1,2) _ h assms(3)] by (cases "Mode c") auto
qed

theorem merkle_proofs_accepted_witness:
  "\<exists>mt. New [] demo_hash demo_sha256 (generator_config ModeProofGenAndTreeBuild) None [''a'', ''b'', ''c''] = Some mt \<and>
     Verify demo_hash demo_sha256 ''c'' (Proofs mt ! 2) (Root mt) = Some True"
proof -
  let ?c = "generator_config ModeProofGenAndTreeBuild" and ?bs = "[''a'', ''b'', ''c'']"
  have u: "undisturbed ?c None" by (simp add: undisturbed_tree)
  then obtain mt where mt: "New [] demo_hash demo_sha256 ?c None ?bs = Some mt" by (simp add: New_eq demo_sha256_def)
  have "length ?bs \<le> int_max" "2 < length ?bs" "Mode ?c \<noteq> ModeTreeBuild" "?bs ! 2 = ''c''" by (simp_all add: int_max_def generator_config_def)
  with merkle_proofs_accepted[OF mt u, of 2] show ?thesis using mt by auto
qed

text \<open>
  C11: A proof of the right length that is accepted for the root of a tree is for one of its
  blocks, unless it exhibits a collision: when the hash has none among the pairs hashed for the
  tree and for the proof, the digest of the block is a leaf.
\<close>

theorem merkle_proof_sound:
  assumes "New zero hash dg c wp blocks = Some mt" and "undisturbed c wp"
    and "dg b = Some h" and "Verify hash dg b p (Root mt) = Some True" and "length (Siblings p) = Depth mt"
    and "collision_free hash (tree_pairs hash (Leaves mt) @ verify_pairs hash (Siblings p) (Path p) h)"
  shows "\<exists>b' \<in> set blocks. dg b' = Some h"
proof -
  from assms(1,2) obtain leaves where two: "2 \<le> length leaves" and lb: "length leaves = length blocks"
    and g: "leafGen dg blocks = Some leaves" and mt: "mt = merkle_of zero hash (new_config c wp) leaves" by (rule New_SomeE)
  have fields: "Leaves mt = leaves" "Depth mt = calTreeDepth (length leaves)" "Root mt = merkle_root hash leaves"
    by (simp_all add: mt merkle_of_def Let_def)
  have "h \<in> set leaves"
    using assms(3-6) two by (intro verify_sound[of hash leaves "Siblings p" "Path p"]) (simp_all add: fields Verify_def)
  moreover have "\<forall>b \<in> set blocks. dg b \<noteq> None" "leaves = map (the \<circ> dg) blocks"
    using g by (auto simp: leafGen_map split: if_splits)
  ultimately show ?thesis by force
qed

text \<open>Witness: the tree over two blocks; its hash has no collision at all on these pairs.\<close>

theorem merkle_proof_sound_witness:
  "\<exists>mt p. New [] demo_hash demo_sha256 (generator_config ModeProofGenAndTreeBuild) None [''a'', ''b''] = Some mt \<and>
     Verify demo_hash demo_sha256 ''b'' p (Root mt) = Some True \<and> (\<exists>b' \<in> set [''a'', ''b'']. demo_sha256 b' = Some ''#b'')"
proof -
  let ?c = "generator_config ModeProofGenAndTreeBuild" and ?p = "\<lparr>Siblings = [''#a''], Path = 0\<rparr>"
  have u: "undisturbed ?c None" by (simp add: undisturbed_tree)
  let ?mt = "merkle_of [] demo_hash ?c [''#a'', ''#b'']"
  have mt: "New [] demo_hash demo_sha256 ?c None [''a'', ''b''] = Some ?mt" by (simp add: New_eq u demo_sha256_def new_config_def)
  have d: "calTreeDepth (Suc (Suc 0)) = 1" by code_simp
  have fields: "Root ?mt = ''(#a#b)''" "Depth ?mt = 1" "Leaves ?mt = [''#a'', ''#b'']"
    by (simp_all add: merkle_of_def Let_def merkle_root_def d pair_up_def pad_def demo_hash_def)
  have v: "Verify demo_hash demo_sha256 ''b'' ?p (Root ?mt) = Some True"
    unfolding fields by (simp add: Verify_def demo_sha256_def demo_hash_def)
  have "collision_free demo_hash (tree_pairs demo_hash (Leaves ?mt) @ verify_pairs demo_hash (Siblings ?p) (Path ?p) ''#b'')"
    unfolding fields by (simp add: tree_pairs_def d pad_def collision_free_def)
  from merkle_proof_sound[OF mt u _ v _ this] show ?thesis using mt v by (auto simp: demo_sha256_def fields(2))
qed

text \<open>
  The root does not determine the blocks: an odd number of blocks and the same blocks with the
  last one repeated have trees with the same root, because an odd level is filled with its last node.
\<close>

theorem repeated_block_same_root:
  assumes "New zero hash dg c wp blocks = Some mt" and "undisturbed c wp" and "odd (length blocks)"
  shows "\<exists>mt'. New zero hash dg c wp (blocks @ [last blocks]) = Some mt' \<and> Root mt' = Root mt"
proof -
  from assms(1,2) obtain leaves where two: "2 \<le> length leaves" and lb: "length leaves = length blocks"
    and g: "leafGen dg blocks = Some leaves" and mt: "mt = merkle_of zero hash (new_config c wp) leaves" by (rule New_SomeE)
  have ne: "blocks \<noteq> []" "leaves \<noteq> []" using two lb by auto
  have "leaves = map (the \<circ> dg) blocks" "\<forall>b \<in> set blocks. dg b \<noteq> None" using g by (auto simp: leafGen_map split: if_splits)
  then have "leafGen dg (blocks @ [last blocks]) = Some (leaves @ [last leaves])"
    using ne by (auto simp: leafGen_map last_map)
  moreover have "pad leaves = leaves @ [last leaves]" using assms(3) lb ne by (simp add: pad_def last_conv_nth)
  ultimately show ?thesis using merkle_root_pad[OF two, of hash] two lb
    by (auto simp: New_eq[OF assms(2)] mt merkle_of_def Let_def)
qed

theorem repeated_block_same_root_witness:
  "\<exists>mt mt'. New [] demo_hash demo_sha256 (generator_config ModeTreeBuild) None [''a'', ''b'', ''c''] = Some mt \<and>
     New [] demo_hash demo_sha256 (generator_config ModeTreeBuild) None [''a'', ''b'', ''c'', ''c''] = Some mt' \<and> Root mt' = Root mt"
proof -
  let ?c = "generator_config ModeTreeBuild"
  have u: "undisturbed ?c None" by (simp add: undisturbed_tree)
  then obtain mt where mt: "New [] demo_hash demo_sha256 ?c None [''a'', ''b'', ''c''] = Some mt" by (simp add: New_eq demo_sha256_def)
  from repeated_block_same_root[OF mt u] show ?thesis using mt by simp
qed

section \<open>Serialized blocks\<close>

text \<open>
  C14: A serialized block reads back as it was written, at any offset, and also after a new
  header is written over the old one, a new result is written behind the requests, and
  new metadata behind the result, as consensus and execution do: the parts before the place of writing
  are kept. Assumed of the archives: their contract, and that a header has a fixed size.
\<close>

theorem block_read_back:
  assumes "prims_ok z" and "fixed_size (Header_serialize z) n" and "pos \<le> length buf"
    and "Block_serializeToString z b buf pos = (pl, buf0)" and "valid pl"
    and "UpdateSerializedHeader z (header b') buf0 pos = (pl1, buf1)" and "valid pl1"
    and "AppendSerializedExecutionResult z b' buf1 (execResultPos pl) = (pl2, buf2)" and "valid pl2"
    and "AppendSerializedMetadata z m buf2 (metadataPos pl2) = (pl3, buf3)" and "valid pl3"
  shows "snd (Block_deserializeFromString z (Some buf0) pos) = Some b \<and>
    snd (Block_deserializeFromString z (Some buf3) pos) = Some \<lparr>header = header b', body = body b, executeResult = executeResult b', metadata = m\<rparr>"
proof -
  have h: "holds_block z buf0 pl b" and pos: "headerPos pl = pos" using serialize_holds[OF assms(1,3-5)] by auto
  have n: "bodyPos pl = headerPos pl + n" using assms(2,4,5)
    by (auto simp: Block_serializeToString_def PosList_init_def Let_def fixed_size_def split: option.splits)
  have 1: "holds_block z buf1 pl (b\<lparr>header := header b'\<rparr>)"
    using update_header_holds[OF assms(1,2) h n] assms(6,7) by (simp add: pos)
  note 2 = append_result_holds[OF assms(1) 1 assms(8,9)]
  note 3 = append_metadata_holds[OF assms(1) 2, simplified, OF assms(10,11)]
  show ?thesis using holds_deserialize[OF h] holds_deserialize[OF 3] by (simp add: pos)
qed

text \<open>Archives with numbers and hashes of one byte, so that a header takes three bytes.\<close>

definition fixed_prims :: prims where
  "fixed_prims = demo_prims\<lparr>
     c_u64 := codec_of (via (\<lambda>c. of_nat (of_char c)) (\<lambda>w. char_of (unat w)) (\<lambda>w. unat w < 256) char_format),
     c_hash := codec_of (via (\<lambda>c. [c]) hd (\<lambda>s. length s = 1) char_format)\<rparr>"

lemma fixed_prims_ok: "prims_ok fixed_prims"
proof -
  have "format_ok (via (\<lambda>c. of_nat (of_char c)) (\<lambda>w. char_of (unat w)) (\<lambda>w. unat w < 256) char_format :: 64 word format)"
    by (intro via_ok base_formats) simp
  moreover have "format_ok (via (\<lambda>c. [c]) hd (\<lambda>s. length s = 1) char_format)"
    by (intro via_ok base_formats) (auto simp: length_Suc_conv)
  ultimately show ?thesis using demo_prims_ok by (simp add: prims_ok_def fixed_prims_def codec_of_ok)
qed

lemma one_byte: "fixed_size (codec_of (via f g ok char_format)) 1"
  by (auto simp: fixed_size_def codec_of_def via_def char_format_def split: if_splits)

lemma fixed_header: "fixed_size (Header_serialize fixed_prims) (1 + (1 + 1))"
proof -
  have "fixed_size (c_u64 fixed_prims) 1" "fixed_size (c_hash fixed_prims) 1" by (simp_all add: fixed_prims_def one_byte del: One_nat_def)
  then show ?thesis unfolding Header_serialize_def by (intro map_fixed_size seq_fixed_size)
qed

lemma fixed_writes:
  "number h = 7 \<Longrightarrow> previousHash h = [x] \<Longrightarrow> dataHash h = [y] \<Longrightarrow> \<exists>b p. out_of (Header_serialize fixed_prims) h buf pos = Some (b, p)"
  "\<exists>b p. out_of (c_envelops fixed_prims) es buf pos = Some (b, p)"
  "txReadWriteSet er = [] \<Longrightarrow> \<exists>b p. out_of (ExecuteResult_serialize fixed_prims) er buf pos = Some (b, p)"
  "\<exists>b p. out_of (Metadata_serialize fixed_prims) m buf pos = Some (b, p)"
proof -
  have t: "\<exists>b p. out_of (codec_of a) x buf pos = Some (b, p)" if "total_format a" for a :: "'a format" and x buf pos
    using writable_total[OF that, of x] by (rule writableE) blast
  have l: "\<exists>b p. out_of (codec_of (list_format rwset_format)) [] buf pos = Some (b, p)" for buf pos
    by (simp add: codec_of_def list_format_def)
  note total = t[OF list_total[OF demo_formats_total(7)]] t[OF list_total[OF demo_formats_total(3)]]
    t[OF list_total[OF pair_total[OF demo_formats_total(1,6)]]]
  show "\<exists>b p. out_of (c_envelops fixed_prims) es buf pos = Some (b, p)" by (simp add: fixed_prims_def demo_prims_def total)
  show "\<exists>b p. out_of (Metadata_serialize fixed_prims) m buf pos = Some (b, p)"
    using total(3)[of "consensusSignatures m" buf pos] total(3)[of "validateSignatures m"]
    by (auto simp: Metadata_serialize_def map_codec_def seq_codec_def fixed_prims_def demo_prims_def)
  show "\<exists>b p. out_of (ExecuteResult_serialize fixed_prims) er buf pos = Some (b, p)" if "txReadWriteSet er = []"
    using l[of buf pos] total(2)[of "transactionFilter er"] that
    by (auto simp: ExecuteResult_serialize_def map_codec_def seq_codec_def fixed_prims_def demo_prims_def)
  show "\<exists>b p. out_of (Header_serialize fixed_prims) h buf pos = Some (b, p)" if "number h = 7" "previousHash h = [x]" "dataHash h = [y]"
    using that by (simp add: Header_serialize_def map_codec_def seq_codec_def fixed_prims_def codec_of_def via_def char_format_def)
qed

definition fixed_block :: "char \<Rightarrow> Block" where
  "fixed_block x = demo_block\<lparr>header := \<lparr>number = 7, previousHash = ''p'', dataHash = [x]\<rparr>\<rparr>"

text \<open>Witness: the data hash of a block and its filter of transactions are replaced.\<close>

theorem block_read_back_witness:
  "\<exists>buf0 buf3. snd (Block_deserializeFromString fixed_prims (Some buf0) 0) = Some (fixed_block (CHR ''a'')) \<and>
     snd (Block_deserializeFromString fixed_prims (Some buf3) 0) =
       Some ((fixed_block (CHR ''b''))\<lparr>executeResult := \<lparr>txReadWriteSet = [], transactionFilter = [1]\<rparr>\<rparr>)"
proof -
  let ?z = fixed_prims and ?a = "fixed_block (CHR ''a'')"
  let ?b = "(fixed_block (CHR ''b''))\<lparr>executeResult := \<lparr>txReadWriteSet = [], transactionFilter = [1]\<rparr>\<rparr>"
  have w: "\<exists>b p. out_of (Header_serialize ?z) (header ?a) buf pos = Some (b, p)"
    "\<exists>b p. out_of (Header_serialize ?z) (header ?b) buf pos = Some (b, p)"
    "\<exists>b p. out_of (ExecuteResult_serialize ?z) (executeResult ?a) buf pos = Some (b, p)"
    "\<exists>b p. out_of (ExecuteResult_serialize ?z) (executeResult ?b) buf pos = Some (b, p)" for buf pos
    by (intro fixed_writes; simp add: fixed_block_def demo_block_def)+
  obtain b1 p1 where 1: "out_of (Header_serialize ?z) (header ?a) [] 0 = Some (b1, p1)" using w(1) by blast
  obtain b2 p2 where 2: "out_of (c_envelops ?z) (body ?a) b1 p1 = Some (b2, p2)" using fixed_writes(2) by blast
  obtain b3 p3 where 3: "out_of (ExecuteResult_serialize ?z) (executeResult ?a) b2 p2 = Some (b3, p3)" using w(3) by blast
  obtain buf0 p4 where 4: "out_of (Metadata_serialize ?z) (metadata ?a) b3 p3 = Some (buf0, p4)" using fixed_writes(4) by blast
  obtain buf1 p5 where 5: "out_of (Header_serialize ?z) (header ?b) buf0 0 = Some (buf1, p5)" using w(2) by blast
  obtain b6 p6 where 6: "out_of (ExecuteResult_serialize ?z) (executeResult ?b) buf1 p2 = Some (b6, p6)" using w(4) by blast
  obtain buf2 p7 where 7: "out_of (Metadata_serialize ?z) (metadata ?b) b6 p6 = Some (buf2, p7)" using fixed_writes(4) by blast
  obtain buf3 p8 where 8: "out_of (Metadata_serialize ?z) (metadata ?b) buf2 p6 = Some (buf3, p8)" using fixed_writes(4) by blast
  let ?pl = "\<lparr>valid = True, headerPos = 0, bodyPos = p1, execResultPos = p2, metadataPos = p3, endPos = p4\<rparr>"
  have s: "Block_serializeToString ?z ?a [] 0 = (?pl, buf0)"
    using 1 2 3 4 by (simp add: Block_serializeToString_def PosList_init_def Let_def)
  obtain pl1 where u: "UpdateSerializedHeader ?z (header ?b) buf0 0 = (pl1, buf1)" "valid pl1"
    using 5 by (simp add: UpdateSerializedHeader_def PosList_init_def Let_def)
  obtain pl2 where r: "AppendSerializedExecutionResult ?z ?b buf1 (execResultPos ?pl) = (pl2, buf2)" "valid pl2" "metadataPos pl2 = p6"
    using 6 7 by (simp add: AppendSerializedExecutionResult_def PosList_init_def Let_def)
  obtain pl3 where m: "AppendSerializedMetadata ?z (metadata ?b) buf2 (metadataPos pl2) = (pl3, buf3)" "valid pl3"
    using 8 r(3) by (simp add: AppendSerializedMetadata_def PosList_init_def Let_def)
  from block_read_back[OF fixed_prims_ok fixed_header _ s _ u r(1,2) m] show ?thesis
    by (auto simp: fixed_block_def demo_block_def)
qed

section \<open>Storages\<close>

text \<open>
  C20: The cache is a list of pairs in the order of their last use: any calls of a new cache return what
  the same calls of that list return and leave its pairs. An insertion that reaches the hard limit
  drops the pairs used longest ago down to the soft limit, so the cache never exceeds its bound.
\<close>

theorem lru_cache_refines:
  "spec_run m e ops [] = (fst (lru_run ops (LRUCache m e)), pairs (snd (lru_run ops (LRUCache m e)))) \<and>
   (m \<noteq> 0 \<longrightarrow> lru_size (snd (lru_run ops (LRUCache m e))) \<le> max m (m + e - 1))"
  using lru_run_refines[OF lru_wf_new, of ops m e] lru_run_bound[of m ops e] by (simp add: pairs_def LRUCache_def)

theorem lru_cache_refines_witness:
  "lru_size (snd (lru_run [Insert 1 ''a'', Insert 2 ''b'', TryGet 1, Insert (3 :: nat) ''c''] (LRUCache 2 1))) \<le> 2"
  using conjunct2[OF lru_cache_refines[of 2 1 "[Insert 1 ''a'', Insert 2 ''b'', TryGet 1, Insert (3 :: nat) ''c'']"]] by simp






text \<open>
  C32: In the storage over the cache, an inserted block is there for everyone who asks for it and last in the queue
  of every subscriber, and the answers about other regions stay.
\<close>

theorem cached_block_found:
  fixes s :: "lru_store storage"
  assumes "storage_ok lru_inv s" and "0 \<le> r" and "r < int (length (newBlockFutexList s))"
    and "fst (lru_getBlock (nat r) (number (header x)) (derived s)) = None"
  shows "\<exists>s'. insertBlockAndNotify lru_ops r x s = Some s' \<and> storage_ok lru_inv s' \<and>
    fst (waitForBlock lru_ops r (number (header x)) t e s') = Ready (Some x) \<and>
    subscriberList s' = map (\<lambda>q. q @ [(r, x)]) (subscriberList s) \<and>
    (\<forall>r' b t e. 0 \<le> r' \<longrightarrow> r' < int (length (newBlockFutexList s)) \<longrightarrow> r' \<noteq> r \<longrightarrow>
       fst (waitForBlock lru_ops r' b t e s') = fst (waitForBlock lru_ops r' b t e s))"
  using bl.inserted_block[OF assms, of t e] bl.insert_other_region[OF assms(1-3)] unfolding lru_ops_def by metis

lemma new_cache:
  assumes "0 < m" and "r < n"
  shows "storage_ok lru_inv (BlockLRUCache n m)" "fst (lru_getBlock r b (derived (BlockLRUCache n m))) = None"
    "length (newBlockFutexList (BlockLRUCache n m)) = n"
proof -
  let ?c = "lru_init m 10 (LRUCache 64 10) :: (64 word, Block) lru"
  have "lru_wf ?c" "lru_maxSize ?c = m" "lru_cache ?c = []"
    by (simp_all add: lru_init_def LRUCache_def lru_wf_def)
  then show "storage_ok lru_inv (BlockLRUCache n m)" "fst (lru_getBlock r b (derived (BlockLRUCache n m))) = None"
    "length (newBlockFutexList (BlockLRUCache n m)) = n"
    using assms by (simp_all add: storage_ok_def lru_inv_def BlockLRUCache_def BlockStorageBase_def lru_getBlock_def tryGetCopy_def tryGetRef_def)
qed

theorem cached_block_found_witness:
  "\<exists>s'. insertBlockAndNotify lru_ops 0 demo_block (BlockLRUCache 2 10) = Some s' \<and>
     fst (waitForBlock lru_ops 0 1 (-1) False s') = Ready (Some demo_block)"
proof -
  have ok: "storage_ok lru_inv (BlockLRUCache 2 10)" "fst (lru_getBlock (nat 0) (number (header demo_block)) (derived (BlockLRUCache 2 10))) = None"
    "0 < int (length (newBlockFutexList (BlockLRUCache 2 10)))"
    using new_cache[of 10 0 2] by simp_all
  from cached_block_found[OF ok(1) _ ok(3,2), of "-1" False] show ?thesis by (auto simp: demo_block_def)
qed

section \<open>The service and its clients\<close>


text \<open>A service with one block of one request.\<close>

definition demo_env :: env where
  "demo_env = \<lparr>e_sha256 = demo_sha256, e_hash = demo_hash, e_zero = [], e_prims = demo_prims, e_byte = codec_of word_format\<rparr>"

definition paid_request :: Envelop where
  "paid_request = \<lparr>payload = ''pay'', signature = \<lparr>ski = ''client'', digest = tid_byte 5\<rparr>\<rparr>"

definition request_block :: Block where
  "request_block = demo_block\<lparr>header := \<lparr>number = 1, previousHash = [], dataHash = Root (the (request_tree demo_env [paid_request]))\<rparr>,
     body := [paid_request]\<rparr>"


definition request_cache :: "(64 word, Block) lru" where
  "request_cache = lru_insert 1 request_block (LRUCache 10 10)"

definition request_service :: controller where
  "request_service = new_controller \<lparr>newBlockFutexList = [1], subscriberList = [], derived = [request_cache]\<rparr>"

lemma request_service_stored:
  "insertBlockAndNotify lru_ops 0 request_block (BlockLRUCache 1 10) = Some (c_storage request_service)"
  by (simp add: insertBlockAndNotify_def BlockLRUCache_def BlockStorageBase_def lru_ops_def lru_tryEmplaceBlock_def lru_pruneWithMaxBlockId_def
      request_service_def new_controller_def request_block_def demo_block_def to_int_def lru_init_def request_cache_def LRUCache_def)







end
