(* ===== verification/Spec2Isabelle.thy ===== *)
theory Spec2Isabelle
  imports EngineProperties ChaincodeProperties TpccProperties OrderProperties ReplicationProperties StorageProperties
begin

text \<open>
  Verification of the execution layer of MassBFT.

  A peer orders blocks of user requests and executes them. Execution is the job of a
  coordinator (\<^verbatim>\<open>include/peer/concurrency_control\<close>), which deals the requests of a block
  to workers; a worker invokes the chaincode a request names
  (\<^verbatim>\<open>include/peer/chaincode\<close>, \<^verbatim>\<open>src/peer/chaincode\<close>) on an object that records reads
  and writes, and the coordinator decides which transactions commit and writes their
  results to the database (\<^verbatim>\<open>include/peer/db\<close>).
\<close>

end
